(* ===== verification/Bender_Prelude.thy ===== *)
theory Bender_Prelude imports Main "HOL-Library.Word" begin

text \<open>
  The shared vocabulary of the development: the integer types of the program at their widths,
  the type of computations with state, abnormal ends and divergence, its weakest-precondition
  calculus, and the word arithmetic the components share.

  A computation on a state \<open>'s\<close> is a function \<open>'s \<Rightarrow> (fault + 'a \<times> 's) option\<close>.
  \<open>None\<close> is a run that never comes back (an endless loop of the code), \<open>Inl\<close> is an abnormal
  end (a failed \<open>assert\<close> of util.h, which prints and calls \<open>__exit\<close>; the trap of a division
  by zero), \<open>Inr (x, s)\<close> is a normal return.
\<close>

unbundle bit_operations_syntax

type_synonym u8 = "8 word"
type_synonym u16 = "16 word"
type_synonym u32 = "32 word"
type_synonym u64 = "64 word"

named_theorems wp_simps \<open>weakest preconditions of the primitive computations\<close>
named_theorems mem_simps \<open>reading back what was written\<close>
named_theorems word_nat \<open>moving word arithmetic to the natural numbers\<close>

section \<open>Computations\<close>

datatype fault =
    Assert_failed string
  | Divide_error

type_synonym ('s, 'a) comp = "'s \<Rightarrow> (fault + 'a \<times> 's) option"

definition ret :: "'a \<Rightarrow> ('s, 'a) comp" where
  "ret x = (\<lambda>s. Some (Inr (x, s)))"

definition fail :: "fault \<Rightarrow> ('s, 'a) comp" where
  "fail e = (\<lambda>s. Some (Inl e))"

definition andthen :: "('s, 'a) comp \<Rightarrow> ('a \<Rightarrow> ('s, 'b) comp) \<Rightarrow> ('s, 'b) comp" where
  "andthen m k = (\<lambda>s. case m s of
      None \<Rightarrow> None
    | Some r \<Rightarrow> (case r of Inl e \<Rightarrow> Some (Inl e) | Inr xs \<Rightarrow> k (fst xs) (snd xs)))"

text \<open>\<open>asserts c msg\<close> is the macro \<open>assert(c, msg)\<close> of util.h; the text it prints is not
  kept, the message is.\<close>

definition asserts :: "bool \<Rightarrow> string \<Rightarrow> ('s, unit) comp" where
  "asserts c msg = (if c then ret () else fail (Assert_failed msg))"

definition gets :: "('s \<Rightarrow> 'a) \<Rightarrow> ('s, 'a) comp" where
  "gets f = (\<lambda>s. Some (Inr (f s, s)))"

definition modifies :: "('s \<Rightarrow> 's) \<Rightarrow> ('s, unit) comp" where
  "modifies f = (\<lambda>s. Some (Inr ((), f s)))"

text \<open>A part of the code that only reads and may not come back.\<close>

definition reads :: "('s \<Rightarrow> 'a option) \<Rightarrow> ('s, 'a) comp" where
  "reads f = (\<lambda>s. case f s of None \<Rightarrow> None | Some x \<Rightarrow> Some (Inr (x, s)))"

text \<open>A part of the code that always returns.\<close>

definition runs :: "('s \<Rightarrow> 'a \<times> 's) \<Rightarrow> ('s, 'a) comp" where
  "runs f = (\<lambda>s. Some (Inr (f s)))"

text \<open>
  Total correctness: \<open>wp m Q s\<close> says that \<open>m\<close> started in \<open>s\<close> returns normally and its
  result and final state satisfy \<open>Q\<close>. Computations are deterministic, so \<open>wp\<close> distributes
  over sequencing as an equation and the simplifier computes it.
\<close>

definition wp :: "('s, 'a) comp \<Rightarrow> ('a \<Rightarrow> 's \<Rightarrow> bool) \<Rightarrow> 's \<Rightarrow> bool" where
  "wp m Q s = (case m s of Some (Inr xs) \<Rightarrow> Q (fst xs) (snd xs) | _ \<Rightarrow> False)"

lemma wp_ret [wp_simps, simp]: "wp (ret x) Q s = Q x s"
  by (simp add: wp_def ret_def)

lemma wp_fail [wp_simps, simp]: "wp (fail e) Q s = False"
  by (simp add: wp_def fail_def)

lemma wp_andthen [wp_simps, simp]: "wp (andthen m k) Q s = wp m (\<lambda>x. wp (k x) Q) s"
  by (simp add: wp_def andthen_def split: option.split sum.split)

lemma wp_asserts [wp_simps, simp]: "wp (asserts c msg) Q s = (c \<and> Q () s)"
  by (simp add: asserts_def)

lemma wp_gets [wp_simps, simp]: "wp (gets f) Q s = Q (f s) s"
  by (simp add: wp_def gets_def)

lemma wp_modifies [wp_simps, simp]: "wp (modifies f) Q s = Q () (f s)"
  by (simp add: wp_def modifies_def)

lemma wp_reads: "wp (reads f) Q s = (case f s of None \<Rightarrow> False | Some x \<Rightarrow> Q x s)"
  by (simp add: wp_def reads_def split: option.split)

lemma wp_reads_Some [wp_simps]: "f s = Some x \<Longrightarrow> wp (reads f) Q s = Q x s"
  by (simp add: wp_reads)

lemma wp_runs [wp_simps, simp]: "wp (runs f) Q s = Q (fst (f s)) (snd (f s))"
  by (simp add: wp_def runs_def)

lemma wp_if [wp_simps, simp]: "wp (if c then m else m') Q s = (if c then wp m Q s else wp m' Q s)"
  by simp

lemma wp_mono: "wp m P s \<Longrightarrow> (\<And>x s'. P x s' \<Longrightarrow> Q x s') \<Longrightarrow> wp m Q s"
  by (auto simp: wp_def split: option.splits sum.splits)

lemma wp_iff: "wp m Q s = (\<exists>x s'. m s = Some (Inr (x, s')) \<and> Q x s')"
  by (auto simp: wp_def split: option.splits sum.splits)

lemma wp_Inr: "m s = Some (Inr (x, s')) \<Longrightarrow> wp m Q s = Q x s'"
  by (simp add: wp_def)

lemma wp_conj: "wp m P s \<Longrightarrow> wp m Q s \<Longrightarrow> wp m (\<lambda>x s'. P x s' \<and> Q x s') s"
  by (auto simp: wp_def split: option.splits sum.splits)

lemma andthen_Inl: "m s = Some (Inl e) \<Longrightarrow> andthen m k s = Some (Inl e)"
  by (simp add: andthen_def)

lemma andthen_Inr: "m s = Some (Inr (x, s')) \<Longrightarrow> andthen m k s = k x s'"
  by (simp add: andthen_def)

lemma andthen_simps [simp]:
  "andthen (ret x) k s = k x s"
  "andthen (fail e) k' s = Some (Inl e)"
  "andthen (gets g) kg s = kg (g s) s"
  "andthen (modifies f) kf s = kf () (f s)"
  "andthen (runs h) kh s = kh (fst (h s)) (snd (h s))"
  "andthen (asserts c msg) ka s = (if c then ka () s else Some (Inl (Assert_failed msg)))"
  by (simp_all add: andthen_def ret_def fail_def gets_def modifies_def runs_def asserts_def)

lemma andthen_reads: "f s = Some x \<Longrightarrow> andthen (reads f) k s = k x s"
  by (simp add: andthen_def reads_def)

lemma andthen_assoc: "andthen (andthen m k) h = andthen m (\<lambda>x. andthen (k x) h)"
  by (rule ext) (simp add: andthen_def split: option.split sum.split)

text \<open>A primitive computation applied to a state; these are for the last step of a sequence.\<close>

lemma run_simps:
  "ret x s = Some (Inr (x, s))" "fail e s = Some (Inl e)" "gets f s = Some (Inr (f s, s))"
  "modifies g s = Some (Inr ((), g s))"
  by (simp_all add: ret_def fail_def gets_def modifies_def)

section \<open>Words and natural numbers\<close>

lemma unat32_bound: "unat (a::u32) < 2 ^ 32"
  using unsigned_less [of a, where 'a = nat] by simp

lemma unat32_bound_eval [simp]: "unat (a::u32) < 4294967296"
  using unat32_bound [of a] by simp

lemma unat_minus_1_32 [simp]: "unat (- 1 :: u32) = 4294967295"
  by (simp add: unsigned_minus_1_eq_mask mask_eq_exp_minus_1)

lemma all_less_Suc_shift: "(\<forall>j<Suc n. P j) \<longleftrightarrow> P 0 \<and> (\<forall>j<n. P (Suc j))"
  by (auto simp: less_Suc_eq_0_disj)

lemma unat_add_no_wrap [word_nat]:
  "unat (a::'a::len word) + unat b < 2 ^ LENGTH('a) \<Longrightarrow> unat (a + b) = unat a + unat b"
  by (rule unat_add_lem [THEN iffD1])

lemma unat_of_nat_small [word_nat]:
  "n < 2 ^ LENGTH('a) \<Longrightarrow> unat (of_nat n :: 'a::len word) = n"
  by (simp add: unat_of_nat take_bit_nat_eq_self)

lemma unat_add_of_nat [word_nat]:
  assumes "unat (a::'a::len word) + n < 2 ^ LENGTH('a)"
  shows "unat (a + of_nat n) = unat a + n"
proof -
  have "unat (of_nat n :: 'a word) = n"
    using assms by (intro unat_of_nat_small) simp
  then show ?thesis
    using assms by (simp add: unat_add_no_wrap)
qed

lemma unat_sub_no_wrap [word_nat]: "b \<le> a \<Longrightarrow> unat (a - b :: 'a::len word) = unat a - unat b"
  by (rule unat_sub)

lemma word_eq_nat_iff [word_nat]: "(a = b) = (unat a = unat (b::'a::len word))"
  by (simp add: word_unat_eq_iff)

end
