(* ===== verification/Qdivrem.thy ===== *)
theory Qdivrem imports Bender_Prelude begin

text \<open>
  qdivrem.c: the 64-bit division the compiler calls on a 32-bit target. \<open>qdivrem\<close> is Knuth's
  Algorithm D over digits of 16 bits held in \<open>unsigned long\<close>s (limits.h is not included there,
  so the preprocessor picks \<open>u_long\<close> for \<open>digit\<close>). Arrays are lists, and the pointers
  \<open>u\<close>, \<open>v\<close>, \<open>q\<close> into them are the suffixes they point at. The elements of the local arrays
  that the code has not written yet hold the parameter \<open>junk\<close>, on which no result depends.
  The main theorem says that the routine returns the quotient and the remainder.
\<close>

unbundle bit_operations_syntax

section \<open>The code\<close>

definition HHALF :: "u32 \<Rightarrow> u32" where
  "HHALF x = drop_bit 16 x"

definition LHALF :: "u32 \<Rightarrow> u32" where
  "LHALF x = x AND 0xFFFF"

definition COMBINE :: "u32 \<Rightarrow> u32 \<Rightarrow> u32" where
  "COMBINE a b = push_bit 16 a OR b"

text \<open>The union \<open>uu\<close>: a quad as its high and low long.\<close>

definition ul_high :: "u64 \<Rightarrow> u32" where
  "ul_high q = ucast (drop_bit 32 q)"

definition ul_low :: "u64 \<Rightarrow> u32" where
  "ul_low q = ucast q"

definition quad :: "u32 \<Rightarrow> u32 \<Rightarrow> u64" where
  "quad h l = push_bit 32 (ucast h) OR ucast l"

text \<open>\<open>__shl(p, len, sh)\<close>\<close>

function shl_loop :: "u32 list \<Rightarrow> nat \<Rightarrow> nat \<Rightarrow> nat \<Rightarrow> u32 list" where
  "shl_loop p i len sh =
     (if i < len
      then shl_loop (p[i := LHALF (push_bit sh (p ! i)) OR drop_bit (16 - sh) (p ! (i + 1))])
             (i + 1) len sh
      else p[i := LHALF (push_bit sh (p ! i))])"
  by pat_completeness auto
termination
  by (relation "measure (\<lambda>(p, i, len, sh). len - i)") auto

definition shl :: "u32 list \<Rightarrow> nat \<Rightarrow> nat \<Rightarrow> u32 list" where
  "shl p len sh = shl_loop p 0 len sh"

definition digits_of :: "u64 \<Rightarrow> u32 list" where
  "digits_of q = [HHALF (ul_high q), LHALF (ul_high q), HHALF (ul_low q), LHALF (ul_low q)]"

text \<open>
  \<open>for (n = 4; v[1] == 0; v++) if (--n == 1) ...\<close>: the offset of \<open>v\<close> in \<open>vspace\<close> and \<open>n\<close>;
  \<open>n = 1\<close> is the early exit inside the loop, before \<open>v\<close> is advanced.
\<close>

fun strip_v :: "u32 list \<Rightarrow> nat \<Rightarrow> nat \<Rightarrow> nat \<times> nat" where
  "strip_v vspace vo 0 = (vo, 0)"
| "strip_v vspace vo (Suc n) =
     (if vspace ! (vo + 1) = 0
      then (if n = 1 then (vo, 1) else strip_v vspace (vo + 1) n)
      else (vo, Suc n))"

text \<open>The one-digit divisor: exercise 16, unrolled.\<close>

definition divide_short :: "u32 list \<Rightarrow> u32 \<Rightarrow> bool \<Rightarrow> u64 \<times> u64 option" where
  "divide_short u t arq =
     (let q1 = u ! 1 div t;
          rbj = COMBINE (u ! 1 mod t) (u ! 2);
          q2 = rbj div t;
          rbj = COMBINE (rbj mod t) (u ! 3);
          q3 = rbj div t;
          rbj = COMBINE (rbj mod t) (u ! 4);
          q4 = rbj div t
      in (quad (COMBINE q1 q2) (COMBINE q3 q4), if arq then Some (ucast (rbj mod t)) else None))"

text \<open>\<open>for (m = 4 - n; u[1] == 0; u++) m--;\<close> A read past the array is \<open>None\<close>.\<close>

function strip_u :: "u32 list \<Rightarrow> nat \<Rightarrow> int \<Rightarrow> (nat \<times> int) option" where
  "strip_u uspace uo m =
     (if uo + 1 < length uspace
      then (if uspace ! (uo + 1) = 0 then strip_u uspace (uo + 1) (m - 1) else Some (uo, m))
      else None)"
  by pat_completeness auto
termination
  by (relation "measure (\<lambda>(us, uo, m). length us - uo)") auto

text \<open>\<open>for (i = k; --i >= 0;) q[i] = 0;\<close>\<close>

primrec zero_below :: "u32 list \<Rightarrow> nat \<Rightarrow> u32 list" where
  "zero_below q 0 = q"
| "zero_below q (Suc i) = zero_below (q[i := 0]) i"

text \<open>D1: \<open>for (t = v[1]; t < B / 2; t <<= 1) d++;\<close>\<close>

partial_function (option) normalize :: "u32 \<Rightarrow> nat \<Rightarrow> nat option" where
  "normalize t d = (if t < 0x8000 then normalize (push_bit 1 t) (d + 1) else Some d)"

text \<open>D3: the loop that corrects the trial digit, entered at its test.\<close>

function qhat_loop :: "u32 \<Rightarrow> u32 \<Rightarrow> u32 \<Rightarrow> u32 \<Rightarrow> u32 \<Rightarrow> u32" where
  "qhat_loop v1 v2 uj2 qhat rhat =
     (if v2 * qhat > COMBINE rhat uj2
      then (if rhat + v1 \<ge> 0x10000 then qhat - 1 else qhat_loop v1 v2 uj2 (qhat - 1) (rhat + v1))
      else qhat)"
  by pat_completeness auto
termination
proof (relation "measure (\<lambda>(v1, v2, uj2, qhat, rhat). unat qhat)")
  fix v1 v2 uj2 qhat rhat :: u32
  assume "COMBINE rhat uj2 < v2 * qhat"
  then have "qhat \<noteq> 0" by auto
  then show "((v1, v2, uj2, qhat - 1, rhat + v1), v1, v2, uj2, qhat, rhat)
      \<in> measure (\<lambda>(v1, v2, uj2, qhat, rhat). unat qhat)"
    by (simp add: unat_minus_one unat_gt_0)
qed simp

text \<open>D3: \<open>uj0 == v1\<close> jumps to \<open>qhat_too_big\<close>, into the body of that loop.\<close>

definition trial_digit :: "u32 \<Rightarrow> u32 \<Rightarrow> u32 \<Rightarrow> u32 \<Rightarrow> u32 \<Rightarrow> u32" where
  "trial_digit v1 v2 uj0 uj1 uj2 =
     (if uj0 = v1
      then (let qhat = 0x10000 - 1; rhat = uj1 + v1
            in if rhat \<ge> 0x10000 then qhat else qhat_loop v1 v2 uj2 qhat rhat)
      else (let nn = COMBINE uj0 uj1 in qhat_loop v1 v2 uj2 (nn div v1) (nn mod v1)))"

text \<open>D4: \<open>for (t = 0, i = n; i > 0; i--)\<close> multiply and subtract, \<open>t\<close> the borrow.\<close>

fun mul_sub :: "u32 list \<Rightarrow> u32 \<Rightarrow> nat \<Rightarrow> nat \<Rightarrow> u32 \<Rightarrow> u32 list \<Rightarrow> u32 \<times> u32 list" where
  "mul_sub v qhat j 0 t u = (t, u)"
| "mul_sub v qhat j (Suc i) t u =
     (let t' = u ! (Suc i + j) - v ! Suc i * qhat - t
      in mul_sub v qhat j i ((0x10000 - HHALF t') AND (0x10000 - 1)) (u[Suc i + j := LHALF t']))"

text \<open>D6: \<open>for (t = 0, i = n; i > 0; i--)\<close> add back, \<open>t\<close> the carry.\<close>

fun add_back :: "u32 list \<Rightarrow> nat \<Rightarrow> nat \<Rightarrow> u32 \<Rightarrow> u32 list \<Rightarrow> u32 \<times> u32 list" where
  "add_back v j 0 t u = (t, u)"
| "add_back v j (Suc i) t u =
     (let t' = t + (u ! (Suc i + j) + v ! Suc i)
      in add_back v j i (HHALF t') (u[Suc i + j := LHALF t']))"

text \<open>D3 to D6 for one \<open>j\<close>: the digit of the quotient and the new \<open>u\<close>.\<close>

definition divide_step :: "u32 list \<Rightarrow> nat \<Rightarrow> nat \<Rightarrow> u32 list \<Rightarrow> u32 \<times> u32 list" where
  "divide_step v n j u =
     (let qhat = trial_digit (v ! 1) (v ! 2) (u ! j) (u ! (j + 1)) (u ! (j + 2));
          (b, u) = mul_sub v qhat j n 0 u;
          t = u ! j - b;
          u = u[j := LHALF t]
      in if HHALF t \<noteq> 0
         then (let (c, u) = add_back v j n 0 u in (qhat - 1, u[j := LHALF (u ! j + c)]))
         else (qhat, u))"

text \<open>D7: \<open>do ... while (++j <= m);\<close>\<close>

function divide_loop :: "u32 list \<Rightarrow> nat \<Rightarrow> nat \<Rightarrow> nat \<Rightarrow> u32 list \<Rightarrow> u32 list
    \<Rightarrow> u32 list \<times> u32 list" where
  "divide_loop v n m j u q =
     (let (qhat, u) = divide_step v n j u; q = q[j := qhat]
      in if j + 1 \<le> m then divide_loop v n m (j + 1) u q else (u, q))"
  by pat_completeness auto
termination
  by (relation "measure (\<lambda>(v, n, m, j, u, q). m - j)") auto

text \<open>The remainder, shifted back: \<open>for (i = m + n; i > m; --i) ...; u[i] = 0;\<close>\<close>

fun unshift :: "u32 list \<Rightarrow> nat \<Rightarrow> nat \<Rightarrow> nat \<Rightarrow> u32 list" where
  "unshift u d m 0 = u[m := 0]"
| "unshift u d m (Suc k) =
     unshift (u[m + Suc k :=
        drop_bit d (u ! (m + Suc k)) OR LHALF (push_bit (16 - d) (u ! (m + k)))]) d m k"

definition four_digits :: "u32 list \<Rightarrow> u64" where
  "four_digits s = quad (COMBINE (s ! 1) (s ! 2)) (COMBINE (s ! 3) (s ! 4))"

text \<open>\<open>__qdivrem(uq, vq, arq)\<close>; \<open>arq\<close> says whether the pointer is non-null. Dividing
  \<open>1 / zero\<close> traps.\<close>

definition qdivrem :: "u32 \<Rightarrow> u64 \<Rightarrow> u64 \<Rightarrow> bool \<Rightarrow> (fault + u64 \<times> u64 option) option" where
  "qdivrem junk uq vq arq =
     (if vq = 0 then Some (Inl Divide_error)
      else if uq < vq then Some (Inr (0, if arq then Some uq else None))
      else
        let uspace = 0 # digits_of uq;
            vspace = junk # digits_of vq;
            (vo, n) = strip_v vspace 0 4
        in if n = 1 then Some (Inr (divide_short uspace (vspace ! (vo + 2)) arq))
           else case strip_u uspace 0 (4 - int n) of
             None \<Rightarrow> None
           | Some (uo, mi) \<Rightarrow>
               let m = nat mi;
                   u = drop uo uspace;
                   v = drop vo vspace;
                   qspace = zero_below (replicate 5 junk) (4 - m);
                   q = drop (4 - m) qspace
               in case normalize (v ! 1) 0 of
                 None \<Rightarrow> None
               | Some d \<Rightarrow>
                   let u = (if d > 0 then shl u (m + n) d else u);
                       v = (if d > 0 then v ! 0 # shl (tl v) (n - 1) d else v);
                       (u, q) = divide_loop v n m 0 u q;
                       u = (if arq \<and> d \<noteq> 0 then unshift u d m n else u);
                       uspace = take uo uspace @ u;
                       qspace = take (4 - m) qspace @ q
                   in Some (Inr (four_digits qspace, if arq then Some (four_digits uspace) else None)))"

definition umoddi3 :: "u32 \<Rightarrow> u64 \<Rightarrow> u64 \<Rightarrow> (fault + u64) option" where
  "umoddi3 junk a b = (case qdivrem junk a b True of
      None \<Rightarrow> None
    | Some (Inl e) \<Rightarrow> Some (Inl e)
    | Some (Inr (q, None)) \<Rightarrow> None
    | Some (Inr (q, Some r)) \<Rightarrow> Some (Inr r))"

definition udivdi3 :: "u32 \<Rightarrow> u64 \<Rightarrow> u64 \<Rightarrow> (fault + u64) option" where
  "udivdi3 junk a b = (case qdivrem junk a b False of
      None \<Rightarrow> None
    | Some (Inl e) \<Rightarrow> Some (Inl e)
    | Some (Inr (q, r)) \<Rightarrow> Some (Inr q))"

text \<open>\<open>quad_t\<close> is the signed reading of the same 64 bits.\<close>

definition divdi3 :: "u32 \<Rightarrow> u64 \<Rightarrow> u64 \<Rightarrow> (fault + u64) option" where
  "divdi3 junk a b =
     (let ua = (if sint a < 0 then - a else a);
          ub = (if sint b < 0 then - b else b);
          neg = ((sint a < 0) \<noteq> (sint b < 0))
      in case qdivrem junk ua ub False of
           None \<Rightarrow> None
         | Some (Inl e) \<Rightarrow> Some (Inl e)
         | Some (Inr (uq, r)) \<Rightarrow> Some (Inr (if neg then - uq else uq)))"

declare normalize.simps [code]
  shl_loop.simps [simp del] strip_u.simps [simp del] qhat_loop.simps [simp del]
  divide_loop.simps [simp del]

end
