(* ===== verification/Qdivrem_Proof.thy ===== *)
theory Qdivrem_Proof imports Qdivrem begin

text \<open>
  Correctness of qdivrem.c. The digit strings are read as numbers in base 2^16 (\<open>val\<close>); each
  loop of Algorithm D has an invariant over these numbers, and the loops compose to
  \<open>u div v\<close> and \<open>u mod v\<close>. The bound on the trial digit is Knuth's: it is never too small, and
  too big by at most one, which step D6 repairs.
\<close>

unbundle bit_operations_syntax

section \<open>Half words\<close>

abbreviation B :: int where "B \<equiv> 65536"

lemma uint_LHALF: "uint (LHALF x) = uint x mod B"
proof -
  have "LHALF x = take_bit 16 x"
    by (simp add: LHALF_def take_bit_eq_mask mask_eq_exp_minus_1)
  then show ?thesis
    by (simp add: take_bit_eq_mod uint_mod_distrib)
qed

lemma uint_HHALF: "uint (HHALF x) = uint x div B"
  by (simp add: HHALF_def drop_bit_eq_div uint_div_distrib)

lemma uint_nonneg: "0 \<le> uint (x::u32)"
  by simp

lemma uint32_less: "uint (x::u32) < 4294967296"
  using unsigned_less [of x, where 'a = int] by simp

lemma LHALF_digit [simp]: "uint (LHALF x) < B"
  by (simp add: uint_LHALF)

lemma HHALF_digit [simp]: "uint (HHALF x) < B"
  using uint32_less [of x] by (simp add: uint_HHALF)

lemma HHALF_0_iff: "HHALF x = 0 \<longleftrightarrow> uint x < B"
proof -
  have "HHALF x = 0 \<longleftrightarrow> uint (HHALF x) = 0" by (simp add: unsigned_eq_0_iff)
  also have "\<dots> \<longleftrightarrow> uint x div B = 0" by (simp only: uint_HHALF)
  also have "\<dots> \<longleftrightarrow> uint x < B" using uint_nonneg [of x] by (auto simp: zdiv_eq_0_iff)
  finally show ?thesis .
qed

lemma uint_or_disjoint:
  "(\<And>n. bit x n \<Longrightarrow> \<not> bit y n) \<Longrightarrow> (x::u32) OR y = x + y"
  by (rule disjunctive_add [symmetric]) blast

lemma uint_minus_one: "x \<noteq> 0 \<Longrightarrow> uint (x - 1 :: u32) = uint x - 1"
proof -
  assume "x \<noteq> 0"
  then have "0 < uint x"
    by (simp add: word_neq_0_conv word_less_def)
  then have "uint (1::u32) \<le> uint x" by simp
  then show ?thesis
    using uint_sub_lem [of 1 x] by simp
qed

lemma int_div_less: "0 < b \<Longrightarrow> a < c * b \<Longrightarrow> a div b < c" for a b c :: int
  by (metis div_mult_mod_eq less_add_same_cancel1 linorder_not_le mult_right_mono order_less_imp_le
      order_le_less_trans pos_mod_sign le_add_same_cancel1 order.trans)

lemma digit_bits:
  assumes "uint (x::u32) < 2 ^ k" and "bit x n"
  shows "n < k"
proof (rule ccontr)
  assume "\<not> n < k"
  have "take_bit k (uint x) = uint x"
    using assms(1) by (simp add: take_bit_int_eq_self)
  moreover have "bit (uint x) n"
    using assms(2) using bit_imp_le_length [OF assms(2)] by (simp add: bit_uint_iff)
  ultimately show False
    using \<open>\<not> n < k\<close> by (metis bit_take_bit_iff)
qed

lemma uint_COMBINE:
  assumes "uint a < B" and "uint b < B"
  shows "uint (COMBINE a b) = uint a * B + uint b"
proof -
  have "push_bit 16 a OR b = push_bit 16 a + b"
    using digit_bits [of b 16] assms(2) by (intro uint_or_disjoint) (force simp: bit_simps)
  moreover have "uint (push_bit 16 a) = uint a * B"
    using assms(1) by (simp add: push_bit_eq_mult uint_word_ariths)
  ultimately show ?thesis
    using assms by (simp add: COMBINE_def uint_word_ariths)
qed

lemma word_quad: "uint (quad h l) = uint h * 4294967296 + uint l"
proof -
  have "quad h l = push_bit 32 (ucast h) + ucast l"
    unfolding quad_def
    by (rule disjunctive_add [symmetric]) (auto simp: bit_simps dest: bit_imp_le_length)
  moreover have "uint (push_bit 32 (ucast h) :: u64) = uint h * 4294967296"
    using uint32_less [of h] by (simp add: push_bit_eq_mult uint_word_ariths unsigned_ucast_eq take_bit_int_eq_self)
  moreover have "uint (ucast l :: u64) = uint l"
    using uint32_less [of l] by (simp add: unsigned_ucast_eq take_bit_int_eq_self)
  ultimately show ?thesis
    using uint32_less [of h] uint32_less [of l] by (simp add: uint_word_ariths)
qed

lemma quad_ul: "uint (ul_high q) * 4294967296 + uint (ul_low q) = uint q"
proof -
  have lt: "uint q < 18446744073709551616"
    using unsigned_less [of q, where 'a = int] by simp
  have "uint q div 4294967296 < 4294967296"
    using lt zdiv_mono1 [of "uint q" 18446744073709551615 4294967296] by simp
  then have "uint (ul_high q) = uint q div 4294967296"
    by (simp add: ul_high_def unsigned_ucast_eq drop_bit_eq_div uint_div_distrib take_bit_eq_mod
        mod_pos_pos_trivial pos_imp_zdiv_nonneg_iff)
  moreover have "uint (ul_low q) = uint q mod 4294967296"
    by (simp add: ul_low_def unsigned_ucast_eq take_bit_eq_mod)
  ultimately show ?thesis
    by (simp add: div_mult_mod_eq)
qed

section \<open>Digit strings\<close>

text \<open>\<open>val xs a k\<close>: the number written by the \<open>k\<close> digits of \<open>xs\<close> from \<open>a\<close> on, high first.\<close>

primrec val :: "u32 list \<Rightarrow> nat \<Rightarrow> nat \<Rightarrow> int" where
  "val xs a 0 = 0"
| "val xs a (Suc k) = val xs a k * B + uint (xs ! (a + k))"

definition dig :: "u32 list \<Rightarrow> nat \<Rightarrow> nat \<Rightarrow> bool" where
  "dig xs a k \<longleftrightarrow> (\<forall>i. a \<le> i \<and> i < a + k \<longrightarrow> uint (xs ! i) < B)"

lemma digD: "dig xs a k \<Longrightarrow> a \<le> i \<Longrightarrow> i < a + k \<Longrightarrow> uint (xs ! i) < B"
  by (simp add: dig_def)

lemma val_nonneg [simp]: "0 \<le> val xs a k"
  by (induction k) auto

lemma val_less: "dig xs a k \<Longrightarrow> val xs a k < B ^ k"
proof (induction k)
  case 0
  then show ?case by simp
next
  case (Suc k)
  then have "val xs a k + 1 \<le> B ^ k" and "uint (xs ! (a + k)) < B"
    by (auto simp: dig_def)
  then have "val xs a k * B + uint (xs ! (a + k)) < (val xs a k + 1) * B" by simp
  also have "\<dots> \<le> B ^ k * B"
    by (rule mult_right_mono) (use \<open>val xs a k + 1 \<le> B ^ k\<close> in auto)
  finally show ?case by (simp add: mult.commute)
qed

lemma val_split: "val xs a (k + l) = val xs a k * B ^ l + val xs (a + k) l"
  by (induction l) (auto simp: algebra_simps)

lemma val_cong: "(\<And>i. a \<le> i \<Longrightarrow> i < a + k \<Longrightarrow> xs ! i = ys ! i) \<Longrightarrow> val xs a k = val ys a k"
  by (induction k) auto

lemma val_Suc_low: "val xs a (Suc k) = uint (xs ! a) * B ^ k + val xs (Suc a) k"
  using val_split [of xs a 1 k] by simp

lemma val_top_0_iff:
  assumes "dig xs a (Suc k)" and "val xs a (Suc k) < B ^ k"
  shows "xs ! a = 0"
proof (rule ccontr)
  assume "xs ! a \<noteq> 0"
  then have "1 \<le> uint (xs ! a)"
    by (metis int_one_le_iff_zero_less uint_0_iff uint_ge_0 less_le)
  then have "B ^ k \<le> uint (xs ! a) * B ^ k" by simp
  then show False
    using assms(2) val_nonneg [of xs "Suc a" k] unfolding val_Suc_low by linarith
qed

section \<open>D3: the trial digit\<close>

text \<open>
  What the trial digit has to know of the true digit \<open>q\<close>: \<open>N\<close> is \<open>u[j]*B + u[j+1]\<close>. Any \<open>x\<close>
  that is too big for the first three digits is too big, and one that is not too big for them
  is at most one too big.
\<close>

definition estimates :: "int \<Rightarrow> int \<Rightarrow> int \<Rightarrow> int \<Rightarrow> int \<Rightarrow> bool" where
  "estimates q v1 v2 N u2 \<longleftrightarrow>
     q * v1 \<le> N \<and> q < B \<and>
     (\<forall>x. N * B + u2 < x * (v1 * B + v2) \<longrightarrow> q < x) \<and>
     (\<forall>x. 0 \<le> x \<longrightarrow> x < B \<longrightarrow> x * (v1 * B + v2) \<le> N * B + u2 \<longrightarrow> x \<le> q + 1)"

lemma estimatesD:
  assumes "estimates q v1 v2 N u2"
  shows "q * v1 \<le> N" and "q < B"
    and "N * B + u2 < x * (v1 * B + v2) \<Longrightarrow> q < x"
    and "0 \<le> x \<Longrightarrow> x < B \<Longrightarrow> x * (v1 * B + v2) \<le> N * B + u2 \<Longrightarrow> x \<le> q + 1"
  using assms by (auto simp: estimates_def)

lemma uint_mult_digits:
  assumes "uint (x::u32) < B" and "uint (y::u32) < B"
  shows "uint (x * y) = uint x * uint y"
proof -
  have "uint x * uint y \<le> 65535 * 65535"
    by (rule mult_mono) (use assms in auto)
  then show ?thesis
    by (simp add: uint_word_ariths)
qed

lemma uint_add_digits:
  "uint (x::u32) < B \<Longrightarrow> uint (y::u32) < B \<Longrightarrow> uint (x + y) = uint x + uint y"
  by (simp add: uint_word_ariths)

lemma qhat_exit:
  assumes est: "estimates q v1 v2 N u2"
    and "0 \<le> x" and "x < B" and "x * v1 + r = N" and "B \<le> r" and "0 \<le> v2" and "v2 < B"
    and "0 \<le> u2"
  shows "x \<le> q + 1"
proof -
  have "x * v2 \<le> B * B"
    by (rule mult_mono) (use assms in auto)
  also have "\<dots> \<le> r * B"
    using \<open>B \<le> r\<close> by simp
  finally have "x * (v1 * B + v2) \<le> N * B + u2"
    using assms by (auto simp: algebra_simps)
  then show ?thesis
    using estimatesD(4) [OF est] assms by blast
qed

lemma qhat_loop_bounds:
  assumes "estimates q (uint v1) (uint v2) N (uint u2)"
    and "uint v1 < B" and "uint v2 < B" and "uint u2 < B"
    and "uint qh < B" and "uint rh < B" and "uint qh * uint v1 + uint rh = N" and "q \<le> uint qh"
  shows "q \<le> uint (qhat_loop v1 v2 u2 qh rh) \<and> uint (qhat_loop v1 v2 u2 qh rh) \<le> q + 1
    \<and> uint (qhat_loop v1 v2 u2 qh rh) < B"
  using assms
proof (induction v1 v2 u2 qh rh rule: qhat_loop.induct)
  case (1 v1 v2 u2 qh rh)
  note est = "1.prems"(1) and inv = "1.prems"(2-8)
  let ?x = "uint qh" and ?r = "uint rh"
  have comb: "uint (COMBINE rh u2) = ?r * B + uint u2"
    using inv by (intro uint_COMBINE) auto
  have prod: "uint (v2 * qh) = uint v2 * ?x"
    using inv by (intro uint_mult_digits) auto
  have N: "N * B + uint u2 = ?x * (uint v1 * B) + ?r * B + uint u2"
    using inv(6) by (simp add: algebra_simps)
  have test: "COMBINE rh u2 < v2 * qh \<longleftrightarrow> N * B + uint u2 < ?x * (uint v1 * B + uint v2)"
    unfolding N word_less_def comb prod by (simp add: algebra_simps)
  show ?case
  proof (cases "COMBINE rh u2 < v2 * qh")
    case False
    then have "?x \<le> q + 1"
      using test inv by (intro estimatesD(4) [OF est]) auto
    then show ?thesis
      using False inv by (simp add: qhat_loop.simps [of v1 v2 u2 qh rh])
  next
    case True
    then have "q < ?x"
      using test estimatesD(3) [OF est] by blast
    have "qh \<noteq> 0"
      using True by auto
    then have pos: "0 < ?x"
      by (simp add: word_neq_0_conv word_less_def)
    from \<open>qh \<noteq> 0\<close> have x1: "uint (qh - 1) = ?x - 1"
      by (rule uint_minus_one)
    have r1: "uint (rh + v1) = ?r + uint v1"
      using inv by (intro uint_add_digits) auto
    have N1: "uint (qh - 1) * uint v1 + uint (rh + v1) = N"
      using inv(6) by (simp add: x1 r1 algebra_simps)
    show ?thesis
    proof (cases "0x10000 \<le> rh + v1")
      case big: True
      then have "B \<le> uint (rh + v1)"
        by (simp add: word_le_def)
      then have "uint (qh - 1) \<le> q + 1"
        using inv N1 x1 pos by (intro qhat_exit [OF est, of _ "uint (rh + v1)"]) auto
      then show ?thesis
        using True big \<open>q < ?x\<close> inv x1 by (simp add: qhat_loop.simps [of v1 v2 u2 qh rh])
    next
      case False
      then have "uint (rh + v1) < B"
        by (simp add: word_le_def)
      then have "q \<le> uint (qhat_loop v1 v2 u2 (qh - 1) (rh + v1))
          \<and> uint (qhat_loop v1 v2 u2 (qh - 1) (rh + v1)) \<le> q + 1
          \<and> uint (qhat_loop v1 v2 u2 (qh - 1) (rh + v1)) < B"
        using True False est inv N1 x1 \<open>q < ?x\<close> by (intro "1.IH") auto
      then show ?thesis
        using True False by (simp add: qhat_loop.simps [of v1 v2 u2 qh rh])
    qed
  qed
qed

lemma trial_digit_bounds:
  assumes est: "estimates q (uint v1) (uint v2) (uint u0 * B + uint u1) (uint u2)"
    and "uint v1 < B" and "uint v2 < B" and "uint u0 < B" and "uint u1 < B" and "uint u2 < B"
    and "u0 \<le> v1" and "v1 \<noteq> 0"
  shows "q \<le> uint (trial_digit v1 v2 u0 u1 u2) \<and> uint (trial_digit v1 v2 u0 u1 u2) \<le> q + 1
    \<and> uint (trial_digit v1 v2 u0 u1 u2) < B"
proof (cases "u0 = v1")
  case True
  let ?r = "uint (u1 + v1)"
  have r: "?r = uint u1 + uint v1"
    using assms by (intro uint_add_digits) auto
  have N: "65535 * uint v1 + ?r = uint u0 * B + uint u1"
    by (simp add: r True)
  have q: "q \<le> 65535"
    using estimatesD(2) [OF est] by simp
  show ?thesis
  proof (cases "0x10000 \<le> u1 + v1")
    case big: True
    then have "B \<le> ?r" by (simp add: word_le_def)
    then have "65535 \<le> q + 1"
      using assms N by (intro qhat_exit [OF est, of _ ?r]) auto
    then show ?thesis
      using True big q by (simp add: trial_digit_def)
  next
    case False
    then have "?r < B" by (simp add: word_le_def)
    then show ?thesis
      using True False q assms N
        qhat_loop_bounds [OF est assms(2,3,6), of 65535 "u1 + v1"]
      by (simp add: trial_digit_def)
  qed
next
  case False
  let ?N = "uint u0 * B + uint u1"
  have nn: "uint (COMBINE u0 u1) = ?N"
    using assms by (intro uint_COMBINE) auto
  have v1: "0 < uint v1"
    using \<open>v1 \<noteq> 0\<close> by (simp add: word_neq_0_conv word_less_def)
  have "uint u0 + 1 \<le> uint v1"
    using False \<open>u0 \<le> v1\<close> by (simp add: word_le_def word_uint_eq_iff)
  then have "(uint u0 + 1) * B \<le> uint v1 * B" by simp
  then have "?N < B * uint v1"
    using assms by simp
  then have "?N div uint v1 < B"
    using v1 by (intro int_div_less)
  moreover have "q * uint v1 div uint v1 \<le> ?N div uint v1"
    using estimatesD(1) [OF est] v1 by (rule zdiv_mono1)
  then have "q \<le> ?N div uint v1"
    using v1 by simp
  moreover have "?N mod uint v1 < B"
    using v1 assms(2) pos_mod_bound [of "uint v1" ?N] by linarith
  ultimately show ?thesis
    using False qhat_loop_bounds [OF est assms(2,3,6), of "COMBINE u0 u1 div v1" "COMBINE u0 u1 mod v1"]
    by (simp add: trial_digit_def Let_def uint_div_distrib uint_mod_distrib nn)
qed

text \<open>The top three digits of a dividend \<open>U < V * B\<close> and the top two of the divisor estimate.\<close>

lemma estimates_top:
  assumes V: "V = (v1 * B + v2) * P + Vr" and U: "U = (N * B + u2) * P + Ur"
    and r: "0 \<le> Vr" "Vr < P" "0 \<le> Ur" "Ur < P"
    and d: "1 \<le> v1" "0 \<le> v2" "0 \<le> u2" "u2 < B" "0 \<le> N" and UV: "U < V * B"
  shows "estimates (U div V) v1 v2 N u2"
proof -
  let ?V2 = "v1 * B + v2" and ?N3 = "N * B + u2" and ?q = "U div V"
  have P: "0 < P" using r by simp
  have V2: "B \<le> ?V2" using d by simp
  have BP: "B * P \<le> ?V2 * P" using V2 P by (intro mult_right_mono) auto
  have Vpos: "0 < V" using BP P r V mult_pos_pos [of B P] by linarith
  have U0: "0 \<le> U" using U d r P by simp
  have qV: "?q * V \<le> U"
    using pos_mod_sign [OF Vpos, of U] div_mult_mod_eq [of U V] by linarith
  have q0: "0 \<le> ?q" using U0 Vpos by (simp add: pos_imp_zdiv_nonneg_iff)
  have low: "?q < x" if "?N3 < x * ?V2" for x
  proof (rule int_div_less [OF Vpos])
    have "0 < x"
    proof (rule ccontr)
      assume "\<not> 0 < x"
      then have "x * ?V2 \<le> 0" using V2 by (intro mult_nonpos_nonneg) auto
      moreover have "0 \<le> ?N3" using d by simp
      ultimately show False using that by linarith
    qed
    then have "0 \<le> x * Vr" using r by simp
    have "(?N3 + 1) * P \<le> (x * ?V2) * P"
      using that P by (intro mult_right_mono) auto
    then show "U < x * V"
      using U V r \<open>0 \<le> x * Vr\<close> by (simp add: algebra_simps)
  qed
  have up: "x \<le> ?q + 1" if x: "0 \<le> x" "x < B" "x * ?V2 \<le> ?N3" for x
  proof -
    have "(x * ?V2) * P \<le> ?N3 * P" using x P by (intro mult_right_mono) auto
    moreover have "x * Vr \<le> B * P" using x r by (intro mult_mono) auto
    ultimately have "(x - 1) * V \<le> U"
      using U V BP r by (simp add: algebra_simps)
    then have "(x - 1) * V div V \<le> ?q"
      using Vpos by (rule zdiv_mono1)
    then show ?thesis using Vpos by simp
  qed
  have "?q * v1 < N + 1"
  proof (rule ccontr)
    assume "\<not> ?q * v1 < N + 1"
    then have "(N + 1) * (B * P) \<le> (?q * v1) * (B * P)"
      using P by (intro mult_right_mono) auto
    moreover have "(?q * v1) * (B * P) \<le> ?q * V"
      using q0 d r P V by (simp add: algebra_simps)
    moreover have "u2 * P + Ur < B * P"
    proof -
      have "u2 * P + P = (u2 + 1) * P" by (simp add: distrib_right)
      also have "\<dots> \<le> B * P" by (rule mult_right_mono) (use d P in auto)
      finally show ?thesis using r by linarith
    qed
    ultimately show False using qV U by (simp add: algebra_simps)
  qed
  moreover have "?q < B"
    using UV Vpos by (intro int_div_less) (simp_all add: mult.commute)
  ultimately show ?thesis
    using low up by (auto simp: estimates_def)
qed

section \<open>D4 and D6: multiply and subtract, add back\<close>

lemma uint_mul_sub_word:
  "uint (u - v * q - t :: u32) = (uint u - uint v * uint q - uint t) mod 4294967296"
  by (simp add: uint_word_ariths mod_simps)

text \<open>One digit of D4: \<open>X\<close> is the exact difference, \<open>t'\<close> the next borrow.\<close>

lemma borrow_digit:
  assumes u: "uint u < B" and v: "uint v < B" and q: "uint q < B" and t: "uint t < B"
  defines "X \<equiv> uint u - uint v * uint q - uint t"
    and "x \<equiv> u - v * q - (t::u32)"
  shows "uint (LHALF x) = X mod B"
    and "uint ((0x10000 - HHALF x) AND (0x10000 - 1)) = - (X div B)"
    and "0 \<le> - (X div B)" and "- (X div B) < B"
proof -
  have "uint v * uint q \<le> 65535 * 65535"
    using v q by (intro mult_mono) auto
  moreover have "0 \<le> uint v * uint q" by simp
  ultimately have X: "- (B * 65535) \<le> X" "X < B"
    using u t uint_nonneg [of u] uint_nonneg [of t] unfolding X_def by linarith+
  have x: "uint x = X mod 4294967296"
    by (simp add: x_def X_def uint_mul_sub_word)
  show lo: "uint (LHALF x) = X mod B"
    by (simp add: uint_LHALF x mod_mod_cancel)
  have d: "- 65535 \<le> X div B" "X div B \<le> 0"
    using zdiv_mono1 [OF X(1), of B] zdiv_mono1 [of X 65535 B] X(2) by simp_all
  then show "0 \<le> - (X div B)" "- (X div B) < B" by simp_all
  have hi: "uint (HHALF x) = (X div B) mod B"
  proof -
    have "X mod (B * B) = B * (X div B mod B) + X mod B"
      by (rule zmod_zmult2_eq) simp
    then have "X mod 4294967296 = B * (X div B mod B) + X mod B" by simp
    then have "X mod 4294967296 div B = X div B mod B" by simp
    then show ?thesis by (simp add: uint_HHALF x)
  qed
  let ?h = "HHALF x"
  have h: "uint ?h < B" by simp
  have sub: "uint (0x10000 - ?h :: u32) = B - uint ?h"
  proof -
    have "uint ?h \<le> uint (0x10000::u32)" using less_imp_le [OF h] by simp
    then show ?thesis using uint_sub_lem [of ?h "0x10000"] by simp
  qed
  have mask: "uint ((0x10000 - ?h) AND (0x10000 - 1)) = uint (0x10000 - ?h :: u32) mod B"
    using uint_LHALF [of "0x10000 - ?h"] by (simp add: LHALF_def)
  have "(B - (X div B) mod B) mod B = (- (X div B)) mod B"
    by (simp add: mod_simps)
  then show "uint ((0x10000 - HHALF x) AND (0x10000 - 1)) = - (X div B)"
    using d mask sub hi by (simp add: mod_pos_pos_trivial)
qed

lemma mul_sub_spec:
  assumes "mul_sub v qh j i t u = (t', u')"
    and "dig u (j + 1) i" and "dig v 1 i" and "uint qh < B" and "uint t < B" and "i + j < length u"
  shows "length u' = length u \<and> (\<forall>k. k \<le> j \<or> j + i < k \<longrightarrow> u' ! k = u ! k) \<and> dig u' (j + 1) i
    \<and> uint t' < B
    \<and> val u' (j + 1) i = val u (j + 1) i - uint qh * val v 1 i - uint t + uint t' * B ^ i"
  using assms
proof (induction i arbitrary: t u)
  case 0
  then show ?case by simp
next
  case (Suc i)
  define x where "x = u ! (Suc i + j) - v ! Suc i * qh - t"
  define b where "b = (0x10000 - HHALF x) AND (0x10000 - 1)"
  define u1 where "u1 = u[Suc i + j := LHALF x]"
  define X where "X = uint (u ! (Suc i + j)) - uint (v ! Suc i) * uint qh - uint t"
  have "uint (u ! (Suc i + j)) < B" and "uint (v ! Suc i) < B"
    using digD [OF Suc.prems(2), of "Suc i + j"] digD [OF Suc.prems(3), of "Suc i"] by simp_all
  note bd = borrow_digit [OF this Suc.prems(4,5), folded x_def, folded b_def X_def]
  have rec: "mul_sub v qh j i b u1 = (t', u')"
    using Suc.prems(1) by (simp add: Let_def x_def b_def u1_def)
  have u1: "length u1 = length u" "\<And>k. k \<noteq> Suc i + j \<Longrightarrow> u1 ! k = u ! k" "u1 ! (Suc i + j) = LHALF x"
    using Suc.prems(6) by (simp_all add: u1_def)
  have "dig u1 (j + 1) i" and "dig v 1 i"
    using Suc.prems(2,3) u1 by (auto simp: dig_def)
  note IH = Suc.IH [OF rec this Suc.prems(4)]
  have b: "uint b = - (X div B)" "uint b < B"
    using bd by simp_all
  have len: "i + j < length u1"
    using Suc.prems(6) u1 by simp
  note IH = IH [OF b(2) len]
  have last: "u' ! (Suc i + j) = LHALF x"
    using IH u1 by simp
  have same: "val u1 (j + 1) i = val u (j + 1) i"
    using u1 by (intro val_cong) auto
  have X: "X = X mod B - uint b * B"
    using div_mult_mod_eq [of X B] b by simp
  have "val u' (j + 1) (Suc i) = val u' (j + 1) i * B + X mod B"
    using last bd(1) by (simp add: add.commute add.left_commute)
  also have "\<dots> = (val u (j + 1) i - uint qh * val v 1 i + uint t' * B ^ i) * B + X"
    using IH same X by (simp add: algebra_simps)
  also have "\<dots> = val u (j + 1) (Suc i) - uint qh * val v 1 (Suc i) - uint t + uint t' * B ^ Suc i"
    by (simp add: X_def algebra_simps)
  finally have val: "val u' (j + 1) (Suc i) = \<dots>" .
  have "dig u' (j + 1) (Suc i)"
    using IH last by (auto simp: dig_def less_Suc_eq add.commute)
  moreover have "\<forall>k. k \<le> j \<or> j + Suc i < k \<longrightarrow> u' ! k = u ! k"
    using IH u1 by auto
  ultimately show ?case
    using IH u1 val by simp
qed

lemma add_back_spec:
  assumes "add_back v j i t u = (t', u')"
    and "dig u (j + 1) i" and "dig v 1 i" and "uint t \<le> 1" and "i + j < length u"
  shows "length u' = length u \<and> (\<forall>k. k \<le> j \<or> j + i < k \<longrightarrow> u' ! k = u ! k) \<and> dig u' (j + 1) i
    \<and> uint t' \<le> 1
    \<and> val u' (j + 1) i = val u (j + 1) i + val v 1 i + uint t - uint t' * B ^ i"
  using assms
proof (induction i arbitrary: t u)
  case 0
  then show ?case by simp
next
  case (Suc i)
  define x where "x = t + (u ! (Suc i + j) + v ! Suc i)"
  define u1 where "u1 = u[Suc i + j := LHALF x]"
  have d: "uint (u ! (Suc i + j)) < B" "uint (v ! Suc i) < B"
    using digD [OF Suc.prems(2), of "Suc i + j"] digD [OF Suc.prems(3), of "Suc i"] by simp_all
  have x: "uint x = uint t + uint (u ! (Suc i + j)) + uint (v ! Suc i)"
    using d Suc.prems(4) by (simp add: x_def uint_word_ariths)
  have c: "uint (HHALF x) \<le> 1"
  proof -
    have "uint x div B \<le> 131071 div B"
      using d Suc.prems(4) by (intro zdiv_mono1) (simp_all add: x)
    then show ?thesis by (simp add: uint_HHALF)
  qed
  have rec: "add_back v j i (HHALF x) u1 = (t', u')"
    using Suc.prems(1) by (simp add: Let_def x_def u1_def)
  have u1: "length u1 = length u" "\<And>k. k \<noteq> Suc i + j \<Longrightarrow> u1 ! k = u ! k" "u1 ! (Suc i + j) = LHALF x"
    using Suc.prems(5) by (simp_all add: u1_def)
  have len: "i + j < length u1"
    using Suc.prems(5) u1 by simp
  have "dig u1 (j + 1) i" and "dig v 1 i"
    using Suc.prems(2,3) u1 by (auto simp: dig_def)
  note IH = Suc.IH [OF rec this c len]
  have last: "u' ! (Suc i + j) = LHALF x"
    using IH u1 by simp
  have same: "val u1 (j + 1) i = val u (j + 1) i"
    using u1 by (intro val_cong) auto
  have X: "uint x = uint x mod B + uint (HHALF x) * B"
    by (simp add: uint_HHALF)
  have "val u' (j + 1) (Suc i) = val u' (j + 1) i * B + uint x mod B"
    using last by (simp add: add.commute add.left_commute uint_LHALF)
  also have "\<dots> = (val u (j + 1) i + val v 1 i - uint t' * B ^ i) * B + uint x"
    using IH same X by (simp add: algebra_simps)
  also have "\<dots> = val u (j + 1) (Suc i) + val v 1 (Suc i) + uint t - uint t' * B ^ Suc i"
    by (simp add: x algebra_simps)
  finally have val: "val u' (j + 1) (Suc i) = \<dots>" .
  have "dig u' (j + 1) (Suc i)"
    using IH last by (auto simp: dig_def less_Suc_eq add.commute)
  moreover have "\<forall>k. k \<le> j \<or> j + Suc i < k \<longrightarrow> u' ! k = u ! k"
    using IH u1 by auto
  ultimately show ?case
    using IH u1 val by simp
qed

section \<open>One step of the division\<close>

lemma val_2: "val xs a 2 = uint (xs ! a) * B + uint (xs ! (a + 1))"
  by (simp add: numeral_2_eq_2)

lemma val_3: "val xs a 3 = (uint (xs ! a) * B + uint (xs ! (a + 1))) * B + uint (xs ! (a + 2))"
  by (simp add: numeral_3_eq_3)

lemma digI: "dig u j k \<Longrightarrow> j \<le> i \<Longrightarrow> i + l \<le> j + k \<Longrightarrow> dig u i l"
  by (auto simp: dig_def)

lemma step_estimates:
  assumes n: "2 \<le> n" and u: "dig u j (n + 1)" and v: "dig v 1 n" and v1: "v ! 1 \<noteq> 0"
    and top: "val u j n < val v 1 n"
  shows "estimates (val u j (n + 1) div val v 1 n) (uint (v ! 1)) (uint (v ! 2))
    (uint (u ! j) * B + uint (u ! (j + 1))) (uint (u ! (j + 2)))"
    and "u ! j \<le> v ! 1"
proof -
  obtain k where n2: "n = 2 + k"
    using n by (metis le_Suc_ex)
  have vpos: "1 \<le> uint (v ! 1)"
    using v1 by (metis int_one_le_iff_zero_less uint_0_iff uint_ge_0 less_le)
  have V: "val v 1 n = (uint (v ! 1) * B + uint (v ! 2)) * B ^ k + val v 3 k"
    by (simp only: n2 val_split [of v 1 2 k] val_2)
      (simp add: numeral_2_eq_2 numeral_3_eq_3 del: val.simps)
  have U: "val u j (n + 1) = ((uint (u ! j) * B + uint (u ! (j + 1))) * B + uint (u ! (j + 2))) * B ^ k
      + val u (j + 3) k"
  proof -
    have "n + 1 = 3 + k" by (simp add: n2)
    then show ?thesis by (simp only: val_split [of u j 3 k] val_3)
  qed
  have last: "uint (u ! (j + n)) < B"
    using digD [OF u] by simp
  have UV: "val u j (n + 1) < val v 1 n * B"
    using top last by simp
  show "estimates (val u j (n + 1) div val v 1 n) (uint (v ! 1)) (uint (v ! 2))
    (uint (u ! j) * B + uint (u ! (j + 1))) (uint (u ! (j + 2)))"
  proof (rule estimates_top [OF V U])
    show "val v 3 k < B ^ k"
      by (rule val_less) (rule digI [OF v], use n2 in auto)
    show "val u (j + 3) k < B ^ k"
      by (rule val_less) (rule digI [OF u], use n2 in auto)
    show "uint (u ! (j + 2)) < B"
      using digD [OF u] n by simp
  qed (use vpos UV in simp_all)
  show "u ! j \<le> v ! 1"
  proof (rule ccontr)
    assume "\<not> u ! j \<le> v ! 1"
    then have "uint (v ! 1) + 1 \<le> uint (u ! j)"
      by (simp add: word_le_def)
    then have "(uint (v ! 1) + 1) * B ^ (Suc k) \<le> uint (u ! j) * B ^ (Suc k)"
      by (rule mult_right_mono) simp
    moreover have "val u j (Suc (Suc k)) = uint (u ! j) * B ^ Suc k + val u (Suc j) (Suc k)"
      by (rule val_Suc_low)
    moreover have "val v 1 (Suc (Suc k)) = uint (v ! 1) * B ^ Suc k + val v (Suc 1) (Suc k)"
      by (rule val_Suc_low)
    moreover have "val v (Suc 1) (Suc k) < B ^ Suc k"
      by (rule val_less) (rule digI [OF v], use n2 in auto)
    moreover have "0 \<le> val u (Suc j) (Suc k)" by (rule val_nonneg)
    moreover have "val u j (Suc (Suc k)) < val v 1 (Suc (Suc k))"
      using top by (simp add: n2 del: val.simps)
    ultimately show False
      unfolding distrib_right by linarith
  qed
qed

lemma sub_digits:
  assumes "uint (x::u32) < B" and "uint y < B"
  shows "HHALF (x - y) = 0 \<longleftrightarrow> uint y \<le> uint x"
    and "uint (LHALF (x - y)) = uint x - uint y + (if uint y \<le> uint x then 0 else B)"
proof -
  note nn = uint_nonneg [of x] uint_nonneg [of y]
  have w: "uint (x - y) = (if uint y \<le> uint x then uint x - uint y else uint x - uint y + 4294967296)"
    by (simp add: uint_sub_if')
  show "HHALF (x - y) = 0 \<longleftrightarrow> uint y \<le> uint x"
  proof (cases "uint y \<le> uint x")
    case True
    then have "uint (x - y) < B" unfolding w if_P [OF True] using assms nn by linarith
    then show ?thesis using True by (simp add: HHALF_0_iff)
  next
    case False
    then have "\<not> uint (x - y) < B" unfolding w if_not_P [OF False] using assms nn by linarith
    then show ?thesis using False by (simp add: HHALF_0_iff)
  qed
  show "uint (LHALF (x - y)) = uint x - uint y + (if uint y \<le> uint x then 0 else B)"
  proof (cases "uint y \<le> uint x")
    case True
    then show ?thesis
      using w assms nn by (simp only: uint_LHALF if_True) (subst mod_pos_pos_trivial, linarith+)
  next
    case False
    then have "uint (x - y) = (uint x - uint y + B) + 65535 * B"
      using w by simp
    then have "uint (x - y) mod B = (uint x - uint y + B) mod B"
      by (simp only: mod_mult_self1)
    also have "\<dots> = uint x - uint y + B"
      using False assms uint_nonneg [of x] by (intro mod_pos_pos_trivial) linarith+
    finally show ?thesis
      using False by (simp add: uint_LHALF)
  qed
qed

lemma divide_step_spec:
  assumes step: "divide_step v n j u = (qh, u')"
    and n: "2 \<le> n" and u: "dig u j (n + 1)" and v: "dig v 1 n" and v1: "v ! 1 \<noteq> 0"
    and top: "val u j n < val v 1 n" and len: "n + j < length u"
  shows "length u' = length u \<and> (\<forall>k. k < j \<or> j + n < k \<longrightarrow> u' ! k = u ! k) \<and> dig u' j (n + 1)
    \<and> uint qh = val u j (n + 1) div val v 1 n
    \<and> val u' j (n + 1) = val u j (n + 1) mod val v 1 n"
proof -
  let ?V = "val v 1 n" and ?U = "val u j (n + 1)" and ?P = "B ^ n"
  define q0 where "q0 = trial_digit (v ! 1) (v ! 2) (u ! j) (u ! (j + 1)) (u ! (j + 2))"
  obtain b u1 where ms: "mul_sub v q0 j n 0 u = (b, u1)" by (cases "mul_sub v q0 j n 0 u")
  define t where "t = u1 ! j - b"
  define u2 where "u2 = u1[j := LHALF t]"
  have d: "uint (u ! j) < B" "uint (u ! (j + 1)) < B" "uint (u ! (j + 2)) < B"
    "uint (v ! 1) < B" "uint (v ! 2) < B"
    using digD [OF u, of j] digD [OF u, of "j + 1"] digD [OF u, of "j + 2"]
      digD [OF v, of 1] digD [OF v, of 2] n by simp_all
  have q0: "?U div ?V \<le> uint q0" "uint q0 \<le> ?U div ?V + 1" "uint q0 < B"
    using trial_digit_bounds [OF step_estimates(1) [OF n u v v1 top] d(4,5,1,2,3)
        step_estimates(2) [OF n u v v1 top] v1] by (simp_all add: q0_def)
  have u0: "dig u (j + 1) n" by (rule digI [OF u]) auto
  note m = mul_sub_spec [OF ms u0 v q0(3) _ len, simplified]
  have u1: "length u1 = length u" "\<And>k. k \<le> j \<or> j + n < k \<Longrightarrow> u1 ! k = u ! k"
    "dig u1 (j + 1) n" "uint b < B" "val u1 (j + 1) n = val u (j + 1) n - uint q0 * ?V + uint b * ?P"
    using m by auto
  have U: "?U = uint (u ! j) * ?P + val u (j + 1) n"
    using val_Suc_low [of u j n] by simp
  have tj: "t = u ! j - b" by (simp add: t_def u1)
  note sd = sub_digits [OF d(1) u1(4), folded tj]
  have jl: "j < length u" using len by simp
  have u2: "length u2 = length u" "\<And>k. k < j \<or> j + n < k \<Longrightarrow> u2 ! k = u ! k" "u2 ! j = LHALF t"
    "\<And>k. k \<noteq> j \<Longrightarrow> u2 ! k = u1 ! k"
    using u1 jl by (auto simp: u2_def)
  have dig2: "dig u2 j (n + 1)"
    using u1(3) u2 by (auto simp: dig_def) (metis LHALF_digit le_neq_implies_less Suc_leI)
  have v2: "val u2 (j + 1) n = val u1 (j + 1) n"
    using u2 by (intro val_cong) auto
  have "val u2 j (n + 1) = uint (LHALF t) * ?P + val u1 (j + 1) n"
    using val_Suc_low [of u2 j n] v2 u2(3) by simp
  also have "\<dots> = ?U - uint q0 * ?V + (if uint b \<le> uint (u ! j) then 0 else B * ?P)"
    unfolding sd(2) u1(5) U by (simp add: algebra_simps del: val.simps)
  finally have val2: "val u2 j (n + 1) = \<dots>" .
  have lt2: "val u2 j (n + 1) < B ^ (n + 1)" by (rule val_less [OF dig2])
  have V1: "?V \<le> B ^ n" using val_less [OF v] by simp
  have Vpos: "0 < ?V" using top val_nonneg [of u j n] by linarith
  have Umod: "?U - ?U div ?V * ?V = ?U mod ?V" by (simp add: minus_div_mult_eq_mod)
  have st: "(qh, u') = (if HHALF t \<noteq> 0
      then (case add_back v j n 0 u2 of (c, w) \<Rightarrow> (q0 - 1, w[j := LHALF (w ! j + c)]))
      else (q0, u2))"
    using step unfolding divide_step_def Let_def q0_def [symmetric] ms prod.case t_def u2_def
    by (rule sym)
  show ?thesis
  proof (cases "HHALF t = 0")
    case True
    then have eq: "qh = q0" "u' = u2" and le: "uint b \<le> uint (u ! j)"
      using st sd(1) by simp_all
    have "0 \<le> ?U - uint q0 * ?V"
      using val2 le val_nonneg [of u2 j "n + 1"] by simp
    then have "uint q0 * ?V div ?V \<le> ?U div ?V"
      using Vpos by (intro zdiv_mono1) auto
    then have "uint q0 = ?U div ?V"
      using q0 Vpos by simp
    then show ?thesis
      using eq u2 dig2 val2 le Umod by simp
  next
    case False
    then have gt: "\<not> uint b \<le> uint (u ! j)" using sd(1) by simp
    obtain c w where ab: "add_back v j n 0 u2 = (c, w)" by (cases "add_back v j n 0 u2")
    have eq: "qh = q0 - 1" "u' = w[j := LHALF (w ! j + c)]"
      using st ab False by simp_all
    have d2: "dig u2 (j + 1) n" by (rule digI [OF dig2]) auto
    have len2: "n + j < length u2" using len u2 by simp
    note a = add_back_spec [OF ab d2 v _ len2, simplified]
    have w: "length w = length u" "\<And>k. k \<le> j \<or> j + n < k \<Longrightarrow> w ! k = u2 ! k" "dig w (j + 1) n"
      "uint c \<le> 1" "val w (j + 1) n = val u2 (j + 1) n + ?V - uint c * ?P"
      using a u2(1) by auto
    have neg: "?U - uint q0 * ?V < 0"
      using val2 gt lt2 by simp
    have "uint q0 \<noteq> ?U div ?V"
      using neg Umod pos_mod_sign [OF Vpos, of ?U] by auto
    then have qq: "uint q0 = ?U div ?V + 1" using q0 by simp
    have "0 \<le> ?U div ?V"
      using Vpos by (simp add: pos_imp_zdiv_nonneg_iff del: val.simps)
    then have "q0 \<noteq> 0" using qq by auto
    then have qh: "uint qh = ?U div ?V" using eq qq uint_minus_one by simp
    have wj: "w ! j = LHALF t" using w(2) u2(3) by simp
    let ?z = "uint (LHALF t) + uint c"
    have z: "uint (w ! j + c) = ?z"
      using w(4) LHALF_digit [of t] by (simp add: wj uint_word_ariths del: LHALF_digit)
    define e where "e = ?z div B"
    have ze: "?z mod B = ?z - e * B" by (simp add: e_def minus_div_mult_eq_mod)
    have u': "length u' = length u" "\<And>k. k < j \<or> j + n < k \<Longrightarrow> u' ! k = u ! k"
      "u' ! j = LHALF (w ! j + c)" "\<And>k. k \<noteq> j \<Longrightarrow> u' ! k = w ! k"
      using eq w u2 jl by auto
    have dig': "dig u' j (n + 1)"
      using w(3) u' by (auto simp: dig_def) (metis LHALF_digit le_neq_implies_less Suc_leI)
    have "uint (u' ! j) = ?z - e * B"
      by (simp only: u'(3) uint_LHALF [of "w ! j + c"] z ze)
    moreover have "val u' (j + 1) n = val w (j + 1) n"
      using u' by (intro val_cong) auto
    ultimately have "val u' j (n + 1) = (?z - e * B) * ?P + val w (j + 1) n"
      using val_Suc_low [of u' j n] by (simp only: Suc_eq_plus1)
    also have "\<dots> = val u2 j (n + 1) + ?V - e * (B * ?P)"
      using val_Suc_low [of u2 j n] unfolding w(5) u2(3) Suc_eq_plus1
      by (simp add: algebra_simps del: val.simps add_Suc_right)
    also have "\<dots> = ?U mod ?V + (1 - e) * (B * ?P)"
      unfolding val2 if_not_P [OF gt] qq Umod [symmetric] by (simp add: algebra_simps del: val.simps)
    finally have val': "val u' j (n + 1) = ?U mod ?V + (1 - e) * (B * ?P)" .
    have bounds: "0 \<le> val u' j (n + 1)" "val u' j (n + 1) < B * ?P"
      using val_less [OF dig'] by simp_all
    have mod: "0 \<le> ?U mod ?V" "?U mod ?V < B * ?P"
      using pos_mod_sign [OF Vpos, of ?U] pos_mod_bound [OF Vpos, of ?U] V1 by simp_all
    have "e = 1"
    proof (rule ccontr)
      assume "e \<noteq> 1"
      then consider "1 \<le> 1 - e" | "1 - e \<le> - 1" by linarith
      then show False
      proof cases
        case 1
        then have "1 * (B * ?P) \<le> (1 - e) * (B * ?P)" by (rule mult_right_mono) simp
        then show False using val' bounds mod by linarith
      next
        case 2
        then have "(1 - e) * (B * ?P) \<le> - 1 * (B * ?P)" by (rule mult_right_mono) simp
        then show False using val' bounds mod by linarith
      qed
    qed
    then show ?thesis
      using qh u' dig' val' by simp
  qed
qed

end
