(* ===== verification/Qdivrem_Correct.thy ===== *)
theory Qdivrem_Correct imports Qdivrem_Proof "HOL-Library.Signed_Division" begin

text \<open>
  Correctness of qdivrem.c, continued: the loop over the digits, normalisation and its undoing,
  and the routine as a whole.
\<close>

unbundle bit_operations_syntax

section \<open>D7: the loop over the digits of the quotient\<close>

lemma dig_1 [simp]: "dig xs a (Suc 0) \<longleftrightarrow> uint (xs ! a) < B"
  by (auto simp: dig_def less_Suc_eq_le dest: antisym)

lemma dig_0 [simp]: "dig xs a 0"
  by (simp add: dig_def)

lemma dig_Suc: "dig xs a (Suc k) \<longleftrightarrow> uint (xs ! a) < B \<and> dig xs (Suc a) k"
  by (auto simp: dig_def) (metis Suc_leI le_neq_implies_less)

lemma assemble:
  fixes Q :: int
  assumes "qj = Q * P + X" and "X * V + T = M * P + R" and "Q * V = U - M"
  shows "qj * V + T = U * P + R"
proof -
  have "qj * V + T = (Q * V) * P + (X * V + T)"
    unfolding assms(1) by (simp add: algebra_simps)
  then show ?thesis
    unfolding assms(2,3) by (simp add: algebra_simps)
qed

lemma divide_loop_unfold:
  assumes "divide_step v n j u = (qh, u1)"
  shows "divide_loop v n m j u q =
    (if j + 1 \<le> m then divide_loop v n m (j + 1) u1 (q[j := qh]) else (u1, q[j := qh]))"
  by (subst divide_loop.simps) (simp add: assms)

lemma divide_loop_spec:
  assumes "divide_loop v n m j u q = (u', q')"
    and "m = j + w" and "2 \<le> n" and "dig v 1 n" and "v ! 1 \<noteq> 0"
    and "dig u j (n + 1 + w)" and "val u j n < val v 1 n" and "n + m < length u" and "m < length q"
  shows "length u' = length u \<and> length q' = length q
    \<and> (\<forall>k<j. u' ! k = u ! k \<and> q' ! k = q ! k) \<and> (\<forall>k. j \<le> k \<and> k \<le> m \<longrightarrow> u' ! k = 0)
    \<and> dig u' (m + 1) n \<and> dig q' j (w + 1)
    \<and> val u' (m + 1) n < val v 1 n
    \<and> val q' j (w + 1) * val v 1 n + val u' (m + 1) n = val u j (n + 1 + w)"
  using assms
proof (induction w arbitrary: j u q)
  case 0
  obtain qh u1 where step: "divide_step v n j u = (qh, u1)" by (cases "divide_step v n j u")
  have d: "dig u j (n + 1)" using "0.prems"(6) by simp
  have V: "0 < val v 1 n" "val v 1 n \<le> B ^ n"
    using "0.prems"(7) val_nonneg [of u j n] val_less [OF "0.prems"(4)] by linarith+
  have "n + j < length u" using "0.prems"(2,8) by simp
  note s = divide_step_spec [OF step "0.prems"(3) d "0.prems"(4,5,7) this]
  have res: "u' = u1" "q' = q[j := qh]"
    using "0.prems"(1,2) by (simp_all add: divide_loop_unfold [OF step])
  have mod: "val u1 j (Suc n) < val v 1 n"
    using s V by simp
  have "dig u1 j (Suc n)" and "val u1 j (Suc n) < B ^ n"
    using s mod V(2) by (simp, linarith)
  then have top: "u1 ! j = 0" by (rule val_top_0_iff)
  then have low: "val u1 (j + 1) n = val u1 j (Suc n)"
    using val_Suc_low [of u1 j n] by simp
  have qj: "q' ! j = qh" using "0.prems"(2,9) res by simp
  have "uint qh < B"
    using s "0.prems"(6,7) V digD [OF d, of "j + n"]
    by (auto intro!: int_div_less)
  moreover have "dig u' (j + 1) n"
    unfolding res by (rule digI [of u1 j "n + 1"]) (use s in auto)
  moreover have "val q' j 1 * val v 1 n + val u' (j + 1) n = val u j (n + 1)"
    using s low res qj by (simp add: div_mult_mod_eq del: val.simps(2)) (simp add: div_mult_mod_eq)
  moreover have "dig q' j 1"
    using \<open>uint qh < B\<close> qj by simp
  ultimately show ?case
    using s res "0.prems"(2) top low mod by auto
next
  case (Suc w)
  obtain qh u1 where step: "divide_step v n j u = (qh, u1)" by (cases "divide_step v n j u")
  let ?U = "val u j (n + 1)" and ?V = "val v 1 n"
  have d: "dig u j (n + 1)" by (rule digI [OF Suc.prems(6)]) auto
  have V: "0 < ?V" "?V \<le> B ^ n"
    using Suc.prems(7) val_nonneg [of u j n] val_less [OF Suc.prems(4)] by linarith+
  have len: "n + j < length u" using Suc.prems(2,8) by simp
  note s = divide_step_spec [OF step Suc.prems(3) d Suc.prems(4,5,7) len]
  have rec: "divide_loop v n m (j + 1) u1 (q[j := qh]) = (u', q')"
    using Suc.prems(1,2) by (simp add: divide_loop_unfold [OF step])
  have mod: "val u1 j (Suc n) < ?V"
    using s V by simp
  have "dig u1 j (Suc n)" and "val u1 j (Suc n) < B ^ n"
    using s mod V(2) by (simp, linarith)
  then have top: "u1 ! j = 0" by (rule val_top_0_iff)
  then have low: "val u1 (j + 1) n = val u1 j (Suc n)"
    using val_Suc_low [of u1 j n] by simp
  have dig1: "dig u1 (j + 1) (n + 1 + w)"
  proof -
    have "uint (u1 ! k) < B" if "j + 1 \<le> k" "k < j + 1 + (n + 1 + w)" for k
    proof (cases "k \<le> j + n")
      case True
      then show ?thesis using s that by (auto simp: dig_def)
    next
      case False
      then show ?thesis using s that digD [OF Suc.prems(6), of k] by simp
    qed
    then show ?thesis by (simp add: dig_def)
  qed
  have len1: "n + m < length u1" "m < length (q[j := qh])"
    using s Suc.prems(8,9) by simp_all
  have "m = j + 1 + w" using Suc.prems(2) by simp
  note IH = Suc.IH [OF rec this Suc.prems(3,4,5) dig1 mod [folded low] len1]
  have qj: "q' ! j = qh" using IH Suc.prems(2,9) by simp
  have qB: "uint qh < B"
    using s Suc.prems(7) V digD [OF d, of "j + n"] by (auto intro!: int_div_less)
  have "val u1 (j + 1 + n) (w + 1) = val u (j + 1 + n) (w + 1)"
    using s by (intro val_cong) auto
  then have u1: "val u1 (j + 1) (n + 1 + w)
      = (?U mod ?V) * B ^ (w + 1) + val u (j + 1 + n) (w + 1)"
    using val_split [of u1 "j + 1" n "w + 1"] low s
    by (simp add: add.commute add.left_commute del: val.simps)
  have u: "val u j (n + 1 + Suc w) = ?U * B ^ (w + 1) + val u (j + 1 + n) (w + 1)"
    using val_split [of u j "n + 1" "w + 1"]
    by (simp add: add.commute add.left_commute del: val.simps)
  have main: "val q' j (Suc w + 1) * ?V + val u' (m + 1) n = val u j (n + 1 + Suc w)"
    unfolding u
  proof (rule assemble)
    show "val q' j (Suc w + 1) = uint qh * B ^ (w + 1) + val q' (j + 1) (w + 1)"
      using val_Suc_low [of q' j "w + 1"] qj by (simp del: val.simps)
    show "val q' (j + 1) (w + 1) * ?V + val u' (m + 1) n
        = (?U mod ?V) * B ^ (w + 1) + val u (j + 1 + n) (w + 1)"
      using IH u1 by simp
    show "uint qh * ?V = ?U - ?U mod ?V"
      using s by (simp add: minus_mod_eq_div_mult del: val.simps)
  qed
  have q: "length q' = length q" "\<And>k. k < j \<Longrightarrow> q' ! k = q ! k" "dig q' (j + 1) (w + 1)"
    using IH by auto
  have "dig q' j (Suc w + 1)"
    using q(3) qj qB by (simp add: dig_Suc)
  moreover have "u' ! k = 0" if "j \<le> k" "k \<le> m" for k
    using IH top that by (cases "k = j") auto
  ultimately show ?case
    using IH s q main by auto
qed

section \<open>D1: normalisation\<close>

lemma uint_push_bit_small:
  "uint (x::u32) < B \<Longrightarrow> k \<le> 16 \<Longrightarrow> uint (push_bit k x) = uint x * 2 ^ k"
proof -
  assume x: "uint x < B" and k: "k \<le> 16"
  have "uint x * 2 ^ k \<le> 65535 * 2 ^ 16"
    using x k by (intro mult_mono power_increasing) auto
  moreover have "0 \<le> uint x * 2 ^ k" by simp
  ultimately have "take_bit 32 (uint x * 2 ^ k) = uint x * 2 ^ k"
    by (intro take_bit_int_eq_self) simp_all
  then show ?thesis
    unfolding unsigned_push_bit_eq by (simp add: push_bit_eq_mult)
qed

lemma normalize_spec:
  assumes "1 \<le> uint t" and "uint t < B"
  shows "\<exists>k. normalize t d = Some (d + k) \<and> 32768 \<le> uint t * 2 ^ k \<and> uint t * 2 ^ k < B"
  using assms
proof (induction "nat (65536 - uint t)" arbitrary: t d rule: less_induct)
  case less
  show ?case
  proof (cases "t < 0x8000")
    case False
    then have "normalize t d = Some (d + 0)" and "32768 \<le> uint t"
      by (simp_all add: normalize.simps [of t d] word_less_def)
    then show ?thesis
      using less.prems by (intro exI [of _ 0]) simp
  next
    case True
    have t2: "uint (push_bit 1 t) = uint t * 2"
      using uint_push_bit_small [OF less.prems(2), of 1] by simp
    have small: "uint t < 32768" using True by (simp add: word_less_def)
    have "\<exists>k. normalize (push_bit 1 t) (d + 1) = Some (d + 1 + k)
        \<and> 32768 \<le> uint (push_bit 1 t) * 2 ^ k \<and> uint (push_bit 1 t) * 2 ^ k < B"
    proof (rule less.hyps)
      show "nat (65536 - uint (push_bit 1 t)) < nat (65536 - uint t)"
        unfolding t2 using less.prems small by simp
      show "1 \<le> uint (push_bit 1 t)" "uint (push_bit 1 t) < B"
        unfolding t2 using less.prems small by linarith+
    qed
    then obtain k where k: "normalize (push_bit 1 t) (d + 1) = Some (d + 1 + k)"
      "32768 \<le> uint (push_bit 1 t) * 2 ^ k" "uint (push_bit 1 t) * 2 ^ k < B" by blast
    have "normalize t d = Some (d + Suc k)"
      using k(1) True by (simp add: normalize.simps [of t d])
    then show ?thesis
      using k(2,3) unfolding t2 by (intro exI [of _ "Suc k"]) (simp add: mult.assoc)
  qed
qed

text \<open>The shifted-in digit of \<open>__shl\<close> and of its undoing: two disjoint bit fields.\<close>

lemma or_fields:
  assumes x: "\<And>i. bit (x::u32) i \<Longrightarrow> k \<le> i" and y: "uint y < 2 ^ k"
  shows "uint (x OR y) = uint x + uint y"
proof -
  have "x OR y = x + y"
    using x digit_bits [OF y] by (intro uint_or_disjoint) fastforce
  moreover have "uint (x OR y) = uint x OR uint y"
    by (simp add: unsigned_or_eq)
  moreover have "uint x OR uint y = uint x + uint y"
    using x digit_bits [OF y]
    by (intro disjunctive_add [symmetric]) (fastforce simp: bit_uint_iff)
  ultimately show ?thesis by simp
qed

lemma uint_LHALF_push:
  assumes "uint x < B" and "k \<le> 16"
  shows "uint (LHALF (push_bit k x)) = uint x * 2 ^ k mod B"
  using assms by (simp add: uint_LHALF uint_push_bit_small)

lemma uint_drop_bit_32: "uint (drop_bit k x :: u32) = uint x div 2 ^ k"
  unfolding unsigned_drop_bit_eq using uint32_less [of x]
  by (simp add: drop_bit_eq_div take_bit_int_eq_self)

lemma bit_LHALF_push: "bit (LHALF (push_bit k x)) i \<Longrightarrow> k \<le> i"
  by (simp add: LHALF_def bit_simps)

lemma shl_digit:
  assumes "uint x < B" and "uint y < B" and "1 \<le> k" and "k \<le> 15"
  shows "uint (LHALF (push_bit k x) OR drop_bit (16 - k) y)
    = uint x * 2 ^ k mod B + uint y * 2 ^ k div B"
proof -
  have p: "(2::int) ^ (16 - k) * 2 ^ k = B"
    using assms by (simp flip: power_add)
  have y: "uint y * 2 ^ k div B = uint y div 2 ^ (16 - k)"
    unfolding p [symmetric] by simp
  have "uint y < 2 ^ k * 2 ^ (16 - k)"
    using assms(2) p by (simp add: mult.commute)
  then have "uint (drop_bit (16 - k) y) < 2 ^ k"
    unfolding uint_drop_bit_32 by (intro int_div_less) simp_all
  then have "uint (LHALF (push_bit k x) OR drop_bit (16 - k) y)
      = uint (LHALF (push_bit k x)) + uint (drop_bit (16 - k) y)"
    by (intro or_fields) (auto dest: bit_LHALF_push)
  then show ?thesis
    using assms by (simp add: uint_LHALF_push uint_drop_bit_32 y)
qed

lemma shl_loop_spec:
  assumes "len = i + w" and "len < length p" and "dig p i (w + 1)" and "1 \<le> k" and "k \<le> 15"
  shows "length (shl_loop p i len k) = length p
    \<and> (\<forall>l. l < i \<or> len < l \<longrightarrow> shl_loop p i len k ! l = p ! l)
    \<and> dig (shl_loop p i len k) i (w + 1)
    \<and> val (shl_loop p i len k) i (w + 1)
      = val p i (w + 1) * 2 ^ k - (uint (p ! i) * 2 ^ k div B) * B ^ (w + 1)"
  using assms
proof (induction w arbitrary: i p)
  case 0
  let ?x = "LHALF (push_bit k (p ! i))"
  have "uint (p ! i) < B" using digD [OF "0.prems"(3)] by simp
  then have "uint ?x = uint (p ! i) * 2 ^ k mod B"
    using "0.prems"(5) by (intro uint_LHALF_push) simp_all
  moreover have "shl_loop p i len k = p[i := ?x]"
    using "0.prems"(1) by (simp add: shl_loop.simps [of p i])
  ultimately show ?case
    using "0.prems"(1,2) by (auto simp: minus_div_mult_eq_mod)
next
  case (Suc w)
  let ?x = "LHALF (push_bit k (p ! i)) OR drop_bit (16 - k) (p ! (i + 1))"
  define p1 where "p1 = p[i := ?x]"
  define r where "r = shl_loop p1 (i + 1) len k"
  have d: "uint (p ! i) < B" "uint (p ! (i + 1)) < B"
    using digD [OF Suc.prems(3)] by simp_all
  have x: "uint ?x = uint (p ! i) * 2 ^ k mod B + uint (p ! (i + 1)) * 2 ^ k div B"
    using d Suc.prems by (intro shl_digit) simp_all
  have eq: "shl_loop p i len k = r"
    using Suc.prems(1) by (simp add: shl_loop.simps [of p i] r_def p1_def)
  have p1: "length p1 = length p" "\<And>l. l \<noteq> i \<Longrightarrow> p1 ! l = p ! l" "p1 ! i = ?x"
    using Suc.prems(1,2) by (simp_all add: p1_def)
  have "len = i + 1 + w" "len < length p1" using Suc.prems(1,2) p1 by simp_all
  moreover have "dig p1 (i + 1) (w + 1)"
    using Suc.prems(3) p1 by (auto simp: dig_def)
  ultimately have IH: "length r = length p1"
    "\<And>l. l < i + 1 \<or> len < l \<Longrightarrow> r ! l = p1 ! l" "dig r (i + 1) (w + 1)"
    "val r (i + 1) (w + 1)
      = val p1 (i + 1) (w + 1) * 2 ^ k - (uint (p1 ! (i + 1)) * 2 ^ k div B) * B ^ (w + 1)"
    using Suc.IH [of "i + 1" p1] Suc.prems(4,5) unfolding r_def by blast+
  have ri: "r ! i = ?x" using IH(2) p1 by simp
  have same: "val p1 (i + 1) (w + 1) = val p (i + 1) (w + 1)"
    using p1 by (intro val_cong) auto
  have "uint ?x < B"
  proof -
    have p: "(2::int) ^ (16 - k) * 2 ^ k = B"
      using Suc.prems by (simp flip: power_add)
    have "B = 2 ^ k * 2 ^ (16 - k)" using p by (simp add: mult.commute)
    then have "uint (p ! (i + 1)) * 2 ^ k div B < 2 ^ k"
      using d(2) by (intro int_div_less) simp_all
    moreover have "uint (p ! i) * 2 ^ k mod B = (uint (p ! i) mod 2 ^ (16 - k)) * 2 ^ k"
      unfolding p [symmetric] by (simp add: mult_mod_left)
    moreover have "(uint (p ! i) mod 2 ^ (16 - k) + 1) * 2 ^ k \<le> 2 ^ (16 - k) * 2 ^ k"
    proof (rule mult_right_mono)
      show "uint (p ! i) mod 2 ^ (16 - k) + 1 \<le> 2 ^ (16 - k)"
        by (rule zless_imp_add1_zle, rule pos_mod_bound) simp
    qed simp
    ultimately show ?thesis unfolding x p distrib_right by linarith
  qed
  then have dig: "dig r i (Suc w + 1)"
    using IH(3) ri by (simp add: dig_Suc)
  have "val r i (Suc (w + 1)) = uint ?x * B ^ (w + 1) + val r (i + 1) (w + 1)"
    using val_Suc_low [of r i "w + 1"] ri by simp
  also have "\<dots> = (uint (p ! i) * 2 ^ k mod B) * B ^ (w + 1) + val p (i + 1) (w + 1) * 2 ^ k"
    unfolding x IH(4) same using p1(2) [of "i + 1"] by (simp add: algebra_simps del: val.simps)
  also have "\<dots> = (uint (p ! i) * B ^ (w + 1) + val p (i + 1) (w + 1)) * 2 ^ k
      - (uint (p ! i) * 2 ^ k div B) * (B * B ^ (w + 1))"
    unfolding minus_div_mult_eq_mod [symmetric] by (simp add: algebra_simps del: val.simps)
  also have "uint (p ! i) * B ^ (w + 1) + val p (i + 1) (w + 1) = val p i (Suc (w + 1))"
    using val_Suc_low [of p i "w + 1"] by simp
  finally have main: "val r i (Suc (w + 1))
      = val p i (Suc (w + 1)) * 2 ^ k - (uint (p ! i) * 2 ^ k div B) * B ^ Suc (w + 1)" by simp
  show ?case
    unfolding eq using IH p1 dig main Suc.prems(1) by auto
qed

section \<open>The remainder, shifted back\<close>

lemma unshift_digit:
  assumes "uint a < B" and "uint z < B" and "1 \<le> d" and "d \<le> 15"
  shows "uint (drop_bit d z OR LHALF (push_bit (16 - d) a)) = (uint a * B + uint z) div 2 ^ d mod B"
proof -
  have p: "(2::int) ^ (16 - d) * 2 ^ d = B"
    using assms by (simp flip: power_add)
  have lo: "uint (drop_bit d z) < 2 ^ (16 - d)"
    unfolding uint_drop_bit_32 using assms(2) p by (intro int_div_less) simp_all
  have "uint (drop_bit d z OR LHALF (push_bit (16 - d) a))
      = uint (LHALF (push_bit (16 - d) a) OR drop_bit d z)"
    by (simp add: or.commute)
  also have "\<dots> = uint (LHALF (push_bit (16 - d) a)) + uint (drop_bit d z)"
    using lo by (intro or_fields) (auto dest: bit_LHALF_push)
  also have "\<dots> = uint a * 2 ^ (16 - d) mod B + uint z div 2 ^ d"
    using assms by (simp add: uint_LHALF_push uint_drop_bit_32)
  also have "\<dots> = (uint a * 2 ^ (16 - d) + uint z div 2 ^ d) mod B"
  proof -
    have hi: "uint a * 2 ^ (16 - d) mod B = (uint a mod 2 ^ d) * 2 ^ (16 - d)"
      using p by (metis mult.commute mult_mod_left)
    have "(uint a mod 2 ^ d + 1) * 2 ^ (16 - d) \<le> 2 ^ d * 2 ^ (16 - d)"
      by (intro mult_right_mono, rule zless_imp_add1_zle, rule pos_mod_bound) simp_all
    then have "uint a * 2 ^ (16 - d) mod B + uint z div 2 ^ d < B"
      using lo p unfolding hi uint_drop_bit_32 distrib_right by (simp add: mult.commute)
    moreover have "0 \<le> uint a * 2 ^ (16 - d) mod B + uint z div 2 ^ d"
      by (simp add: pos_imp_zdiv_nonneg_iff)
    ultimately have "(uint a * 2 ^ (16 - d) mod B + uint z div 2 ^ d) mod B
        = uint a * 2 ^ (16 - d) mod B + uint z div 2 ^ d"
      by (intro mod_pos_pos_trivial)
    then show ?thesis by (simp add: mod_simps)
  qed
  also have "uint a * 2 ^ (16 - d) + uint z div 2 ^ d = (uint a * B + uint z) div 2 ^ d"
    unfolding p [symmetric] by (simp add: mult.assoc [symmetric])
  finally show ?thesis .
qed

lemma shift_mod_digit:
  assumes "d \<le> 16"
  shows "((W mod B) * B + z) div 2 ^ d mod B = (W * B + z) div 2 ^ d mod (B::int)"
proof -
  have p: "(2::int) ^ (16 - d) * 2 ^ d = B"
    using assms by (simp flip: power_add)
  define q r where "q = W div B" and "r = W mod B"
  have W: "W = q * B + r" by (simp add: q_def r_def)
  have "(q * 2 ^ (16 - d) * B) * 2 ^ d = q * (2 ^ (16 - d) * 2 ^ d) * B"
    by (simp only: ac_simps)
  then have "W * B + z = r * B + z + (q * 2 ^ (16 - d) * B) * 2 ^ d"
    unfolding p W by (simp add: algebra_simps)
  then have "W * B + z = (W mod B) * B + z + ((W div B) * 2 ^ (16 - d) * B) * 2 ^ d"
    unfolding q_def r_def .
  then have "(W * B + z) div 2 ^ d = ((W mod B) * B + z) div 2 ^ d + (W div B) * 2 ^ (16 - d) * B"
    by (simp only: div_mult_self1) simp
  then show ?thesis by simp
qed

lemma unshift_spec:
  assumes "dig u m (k + 1)" and "1 \<le> d" and "d \<le> 15" and "m + k < length u"
  shows "length (unshift u d m k) = length u \<and> (\<forall>l. l < m \<longrightarrow> unshift u d m k ! l = u ! l)
    \<and> (\<forall>l. m + k < l \<longrightarrow> unshift u d m k ! l = u ! l) \<and> unshift u d m k ! m = 0
    \<and> dig (unshift u d m k) (m + 1) k
    \<and> val (unshift u d m k) (m + 1) k = val u m (k + 1) div 2 ^ d mod B ^ k"
  using assms
proof (induction k arbitrary: u)
  case 0
  then show ?case by simp
next
  case (Suc k)
  let ?y = "drop_bit d (u ! (m + Suc k)) OR LHALF (push_bit (16 - d) (u ! (m + k)))"
  define u1 where "u1 = u[m + Suc k := ?y]"
  define r where "r = unshift u1 d m k"
  let ?W = "val u m (k + 1)" and ?z = "uint (u ! (m + Suc k))"
  have y: "uint ?y = (uint (u ! (m + k)) * B + ?z) div 2 ^ d mod B"
    using Suc.prems by (intro unshift_digit) (auto simp: dig_def)
  have u1: "length u1 = length u" "\<And>l. l \<noteq> m + Suc k \<Longrightarrow> u1 ! l = u ! l" "u1 ! (m + Suc k) = ?y"
    using Suc.prems(4) by (simp_all add: u1_def)
  have "dig u1 m (k + 1)" using Suc.prems(1) u1 by (auto simp: dig_def)
  moreover have "m + k < length u1" using Suc.prems(4) u1 by simp
  ultimately have IH: "length r = length u1" "\<And>l. l < m \<Longrightarrow> r ! l = u1 ! l"
    "\<And>l. m + k < l \<Longrightarrow> r ! l = u1 ! l" "r ! m = 0" "dig r (m + 1) k"
    "val r (m + 1) k = val u1 m (k + 1) div 2 ^ d mod B ^ k"
    using Suc.IH [of u1] Suc.prems(2,3) unfolding r_def by blast+
  have same: "val u1 m (k + 1) = ?W" using u1 by (intro val_cong) auto
  have rl: "r ! (m + Suc k) = ?y" using IH(3) u1 by simp
  let ?X = "(?W * B + ?z) div 2 ^ d"
  have X: "?X div B = ?W div 2 ^ d"
  proof -
    have "?X div B = (?W * B + ?z) div (2 ^ d * B)"
      by (simp only: zdiv_zmult2_eq [of B] zero_le_numeral)
    also have "\<dots> = (?W * B + ?z) div (B * 2 ^ d)"
      by (simp only: mult.commute)
    also have "\<dots> = (?W * B + ?z) div B div 2 ^ d"
      by (rule zdiv_zmult2_eq) simp
    finally have "?X div B = (?W * B + ?z) div B div 2 ^ d" .
    moreover have "(?W * B + ?z) div B = ?W"
      using digD [OF Suc.prems(1), of "m + Suc k"] by (simp add: div_add1_eq del: val.simps)
    ultimately show ?thesis by simp
  qed
  have wm: "?W mod B = uint (u ! (m + k))"
    using digD [OF Suc.prems(1), of "m + k"] by (simp add: mod_add_eq [symmetric] mod_pos_pos_trivial)
  have y': "uint ?y = ?X mod B"
    using shift_mod_digit [of d ?W ?z] Suc.prems(3) unfolding y wm by simp
  have "val r (m + 1) (Suc k) = (?W div 2 ^ d mod B ^ k) * B + ?X mod B"
    using IH(6) rl same y' by (simp add: add.commute add.left_commute)
  also have "\<dots> = B * (?X div B mod B ^ k) + ?X mod B"
    by (simp only: X mult.commute)
  also have "\<dots> = ?X mod (B * B ^ k)"
    by (rule zmod_zmult2_eq [symmetric]) simp
  finally have main: "val r (m + 1) (Suc k) = val u m (Suc k + 1) div 2 ^ d mod B ^ Suc k"
    by (simp add: add.commute add.left_commute)
  have "uint ?y < B" unfolding y by simp
  then have "dig r (m + 1) (Suc k)"
    using IH(5) rl by (auto simp: dig_def less_Suc_eq)
  then show ?case
    using IH u1 main by (simp add: r_def u1_def)
qed

section \<open>Stripping leading zeros\<close>

lemma val_digits_of: "val (x # digits_of q) 1 4 = uint q"
proof -
  have half: "uint (HHALF w) * B + uint (LHALF w) = uint w" for w
    by (simp add: uint_HHALF uint_LHALF)
  have "val (x # digits_of q) 1 4 = (uint (HHALF (ul_high q)) * B + uint (LHALF (ul_high q))) * B\<^sup>2
      + (uint (HHALF (ul_low q)) * B + uint (LHALF (ul_low q)))"
    by (simp add: digits_of_def numeral_eq_Suc eval_nat_numeral)
  then show ?thesis
    unfolding half using quad_ul [of q] by simp
qed

lemma dig_digits_of: "dig (x # digits_of q) 1 4"
  by (simp add: dig_def digits_of_def nth_Cons' all_less_Suc_shift)

lemma strip_v_spec:
  assumes "strip_v vs vo n = (vo', n')" and "vo + n = 4" and "2 \<le> n"
  shows "(n' = 1 \<and> vo' = 2 \<and> val vs (vo + 1) n = uint (vs ! 4))
    \<or> (2 \<le> n' \<and> vo' + n' = 4 \<and> vs ! (vo' + 1) \<noteq> 0 \<and> val vs (vo' + 1) n' = val vs (vo + 1) n)"
  using assms
proof (induction vs vo n rule: strip_v.induct)
  case (1 vs vo)
  then show ?case by simp
next
  case (2 vs vo n)
  show ?case
  proof (cases "vs ! (vo + 1) = 0")
    case False
    then show ?thesis using 2 by auto
  next
    case zero: True
    have low: "val vs (vo + 1) (Suc n) = val vs (Suc (vo + 1)) n"
      using val_Suc_low [of vs "vo + 1" n] zero by simp
    show ?thesis
    proof (cases "n = 1")
      case True
      moreover have "vo = 2" using 2 True by simp
      moreover have "vs ! 3 = 0" using zero \<open>vo = 2\<close> by (simp add: numeral_3_eq_3)
      moreover have "val vs 3 2 = uint (vs ! 3) * B + uint (vs ! 4)"
        using val_2 [of vs 3] by simp
      moreover have "vo + 1 = 3" and "Suc n = 2" using \<open>vo = 2\<close> True by simp_all
      moreover have "vo' = vo" and "n' = 1" using 2(2) zero True by simp_all
      ultimately show ?thesis by simp
    next
      case False
      then have "strip_v vs (vo + 1) n = (vo', n')" and "vo + 1 + n = 4" and "2 \<le> n"
        using 2 zero by auto
      then show ?thesis
        using "2.IH" [OF zero False] low by (simp add: add.commute add.left_commute)
    qed
  qed
qed

lemma strip_u_spec:
  assumes "length us = 5" and "uo \<le> 4" and "0 < val us (uo + 1) (4 - uo)" and "\<forall>i\<le>uo. us ! i = 0"
  shows "\<exists>uo'. strip_u us uo m = Some (uo', m + int uo - int uo') \<and> uo \<le> uo' \<and> uo' \<le> 3
    \<and> (\<forall>i\<le>uo'. us ! i = 0) \<and> val us (uo' + 1) (4 - uo') = val us (uo + 1) (4 - uo)"
  using assms
proof (induction us uo m rule: strip_u.induct)
  case (1 us uo m)
  have lt: "uo < 4"
    using "1.prems"(2,3) by (cases "uo = 4") auto
  show ?case
  proof (cases "us ! (uo + 1) = 0")
    case False
    then show ?thesis
      using "1.prems" lt by (intro exI [of _ uo]) (simp add: strip_u.simps [of us uo m])
  next
    case True
    have "4 - uo = Suc (4 - (uo + 1))" using lt by simp
    then have low: "val us (uo + 1) (4 - uo) = val us (uo + 1 + 1) (4 - (uo + 1))"
      using val_Suc_low [of us "uo + 1" "4 - (uo + 1)"] True by simp
    have zeros: "\<forall>i\<le>uo + 1. us ! i = 0"
      using "1.prems"(4) True by (auto simp: le_Suc_eq)
    have in_range: "uo + 1 < length us" using "1.prems"(1) lt by simp
    obtain uo' where "strip_u us (uo + 1) (m - 1) = Some (uo', m - 1 + int (uo + 1) - int uo')"
      "uo + 1 \<le> uo'" "uo' \<le> 3" "\<forall>i\<le>uo'. us ! i = 0"
      "val us (uo' + 1) (4 - uo') = val us (uo + 1 + 1) (4 - (uo + 1))"
      using "1.IH" [OF in_range True "1.prems"(1) _ _ zeros] lt "1.prems"(3) low by auto
    then show ?thesis
      using True in_range low by (intro exI [of _ uo']) (simp add: strip_u.simps [of us uo m])
  qed
qed

section \<open>A divisor of one digit\<close>

lemma long_division_digit:
  fixes X u t :: int
  assumes "0 < t" and "0 \<le> u"
  shows "(X * B + u) div t = (X div t) * B + ((X mod t) * B + u) div t"
    and "(X * B + u) mod t = ((X mod t) * B + u) mod t"
    and "u < B \<Longrightarrow> ((X mod t) * B + u) div t < B"
proof -
  define q r where "q = X div t" and "r = X mod t"
  have X: "X = q * t + r" by (simp add: q_def r_def)
  have eq: "X * B + u = (r * B + u) + (q * B) * t"
    unfolding X by (simp add: algebra_simps)
  show "(X * B + u) div t = (X div t) * B + ((X mod t) * B + u) div t"
    unfolding eq q_def [symmetric] r_def [symmetric] using assms(1) by (simp only: div_mult_self1)
  show "(X * B + u) mod t = ((X mod t) * B + u) mod t"
    unfolding eq r_def [symmetric] by (simp only: mod_mult_self1)
  assume "u < B"
  have "r + 1 \<le> t" using assms(1) by (simp add: r_def zless_imp_add1_zle)
  then have "(r + 1) * B \<le> t * B" by simp
  then show "((X mod t) * B + u) div t < B"
    unfolding r_def [symmetric] using \<open>u < B\<close> assms(1) by (intro int_div_less) simp_all
qed

lemma divide_short_spec:
  assumes d: "dig u 1 4" and t: "uint t < B" "t \<noteq> 0"
  shows "divide_short u t arq = (q, r) \<Longrightarrow> uint q = val u 1 4 div uint t
    \<and> map_option uint r = (if arq then Some (val u 1 4 mod uint t) else None)"
proof -
  let ?t = "uint t"
  let ?u = "\<lambda>i. uint (u ! i)"
  have t0: "0 < ?t" using t(2) by (simp add: word_neq_0_conv word_less_def)
  have ud: "?u 1 < B" "?u 2 < B" "?u 3 < B" "?u 4 < B" using d by (auto simp: dig_def)
  define X1 X2 X3 X4 where "X1 = ?u 1" and "X2 = X1 * B + ?u 2"
    and "X3 = X2 * B + ?u 3" and "X4 = X3 * B + ?u 4"
  have X4: "val u 1 4 = X4"
    by (simp add: X1_def X2_def X3_def X4_def numeral_eq_Suc)
  define r1 where "r1 = COMBINE (u ! 1 mod t) (u ! 2)"
  define r2 where "r2 = COMBINE (r1 mod t) (u ! 3)"
  define r3 where "r3 = COMBINE (r2 mod t) (u ! 4)"
  have small: "uint (x mod t) < B" for x
    using t(1) pos_mod_bound [OF t0, of "uint x"] by (simp add: uint_mod_distrib)
  have m2: "X2 mod ?t = (X1 mod ?t * B + ?u 2) mod ?t"
    unfolding X2_def by (rule long_division_digit(2)) (use t0 in auto)
  have m3: "X3 mod ?t = (X2 mod ?t * B + ?u 3) mod ?t"
    unfolding X3_def by (rule long_division_digit(2)) (use t0 in auto)
  have r1: "uint r1 = (X1 mod ?t) * B + ?u 2"
    unfolding r1_def uint_COMBINE [OF small ud(2)] by (simp add: uint_mod_distrib X1_def)
  have r2: "uint r2 = (X2 mod ?t) * B + ?u 3"
    unfolding r2_def uint_COMBINE [OF small ud(3)] by (simp add: uint_mod_distrib r1 m2)
  have r3: "uint r3 = (X3 mod ?t) * B + ?u 4"
    unfolding r3_def uint_COMBINE [OF small ud(4)] by (simp add: uint_mod_distrib r2 m3)
  have q: "uint (u ! 1 div t) < B" "uint (r1 div t) < B" "uint (r2 div t) < B" "uint (r3 div t) < B"
    using ud long_division_digit(3) [OF t0, of "?u 2" X1] long_division_digit(3) [OF t0, of "?u 3" X2]
      long_division_digit(3) [OF t0, of "?u 4" X3] long_division_digit(3) [OF t0, of "?u 1" 0]
    by (simp_all add: uint_div_distrib r1 r2 r3)
  assume "divide_short u t arq = (q, r)"
  then have qr: "q = quad (COMBINE (u ! 1 div t) (r1 div t)) (COMBINE (r2 div t) (r3 div t))"
    "r = (if arq then Some (ucast (r3 mod t)) else None)"
    unfolding divide_short_def Let_def r1_def r2_def r3_def by blast+
  have e2: "X2 div ?t = X1 div ?t * B + uint r1 div ?t"
    unfolding X2_def r1 by (rule long_division_digit(1)) (use t0 in auto)
  have e3: "X3 div ?t = X2 div ?t * B + uint r2 div ?t"
    unfolding X3_def r2 by (rule long_division_digit(1)) (use t0 in auto)
  have e4: "X4 div ?t = X3 div ?t * B + uint r3 div ?t"
    unfolding X4_def r3 by (rule long_division_digit(1)) (use t0 in auto)
  have "uint q = X4 div ?t"
    unfolding qr word_quad uint_COMBINE [OF q(1,2)] uint_COMBINE [OF q(3,4)] e4 e3 e2
    by (simp add: uint_div_distrib X1_def)
  moreover have "uint (ucast (r3 mod t) :: u64) = X4 mod ?t"
  proof -
    have "uint r3 mod ?t = X4 mod ?t"
      unfolding X4_def r3 by (rule long_division_digit(2) [symmetric]) (use t0 in auto)
    moreover have "uint (ucast (r3 mod t) :: u64) = uint (r3 mod t)"
      using small [of r3] by (simp add: unsigned_ucast_eq take_bit_int_eq_self)
    ultimately show ?thesis by (simp add: uint_mod_distrib)
  qed
  ultimately show ?thesis
    unfolding X4 by (simp add: qr(2))
qed

section \<open>Algorithm D\<close>

lemma val_Cons: "val (x # xs) (Suc a) k = val xs a k"
  by (induction k) auto

lemma dig_Cons: "dig (x # xs) (Suc a) k = dig xs a k"
  by (induction k arbitrary: a) (simp_all add: dig_Suc)

text \<open>Step D1 on divisor and dividend: both are multiplied by \<open>2^d\<close>.\<close>

lemma normalized_divisor:
  assumes "length v = n + 1" and "2 \<le> n" and "dig v 1 n"
    and "32768 \<le> uint (v ! 1) * 2 ^ d" and "uint (v ! 1) * 2 ^ d < B" and "d \<le> 15"
  defines "v1 \<equiv> if d > 0 then v ! 0 # shl (tl v) (n - 1) d else v"
  shows "dig v1 1 n" and "val v1 1 n = val v 1 n * 2 ^ d" and "v1 ! 1 \<noteq> 0"
    and "32768 * B ^ (n - 1) \<le> val v1 1 n"
proof -
  have vt: "v = v ! 0 # tl v" using assms(1) by (cases v) auto
  have n1: "n - 1 + 1 = n" using assms(2) by simp
  show dig: "dig v1 1 n" and val: "val v1 1 n = val v 1 n * 2 ^ d"
  proof (atomize (full), cases "d = 0")
    case True
    then show "dig v1 1 n \<and> val v1 1 n = val v 1 n * 2 ^ d"
      using assms(3) by (simp add: v1_def)
  next
    case False
    have t1: "tl v ! 0 = v ! 1" using assms(1,2) by (simp add: nth_tl)
    have "dig (tl v) 0 (n - 1 + 1)"
      unfolding n1 using assms(3) dig_Cons [of "v ! 0" "tl v" 0 n] vt by simp
    then have s: "dig (shl (tl v) (n - 1) d) 0 n"
      "val (shl (tl v) (n - 1) d) 0 n = val (tl v) 0 n * 2 ^ d - uint (v ! 1) * 2 ^ d div B * B ^ n"
      using shl_loop_spec [of "n - 1" 0 "n - 1" "tl v" d] assms(1,2,6) False t1
      unfolding n1 by (simp_all add: shl_def)
    have "uint (v ! 1) * 2 ^ d div B = 0"
      using assms(5) by (intro div_pos_pos_trivial) simp_all
    moreover have "val v 1 n = val (tl v) 0 n"
      using val_Cons [of "v ! 0" "tl v" 0 n] vt by simp
    ultimately show "dig v1 1 n \<and> val v1 1 n = val v 1 n * 2 ^ d"
      using s False by (simp add: v1_def dig_Cons val_Cons)
  qed
  have n2: "Suc (n - 1) = n" using assms(2) by simp
  have top: "val v 1 n = uint (v ! 1) * B ^ (n - 1) + val v 2 (n - 1)"
    using val_Suc_low [of v 1 "n - 1"] unfolding n2 by (simp add: numeral_2_eq_2)
  have "32768 * B ^ (n - 1) \<le> (uint (v ! 1) * 2 ^ d) * B ^ (n - 1)"
    using assms(4) by (intro mult_right_mono) simp_all
  moreover have "0 \<le> val v 2 (n - 1) * 2 ^ d" by simp
  moreover have "(uint (v ! 1) * B ^ (n - 1) + val v 2 (n - 1)) * 2 ^ d
      = (uint (v ! 1) * 2 ^ d) * B ^ (n - 1) + val v 2 (n - 1) * 2 ^ d"
    by (simp only: algebra_simps)
  ultimately show big: "32768 * B ^ (n - 1) \<le> val v1 1 n"
    unfolding val top by linarith
  show "v1 ! 1 \<noteq> 0"
  proof
    assume "v1 ! 1 = 0"
    then have "val v1 1 n = val v1 2 (n - 1)"
      using val_Suc_low [of v1 1 "n - 1"] unfolding n2 by (simp add: numeral_2_eq_2)
    moreover have "val v1 2 (n - 1) < B ^ (n - 1)"
      by (rule val_less) (rule digI [OF dig], use assms(2) in auto)
    moreover have "1 * B ^ (n - 1) \<le> 32768 * B ^ (n - 1)"
      by (rule mult_right_mono) simp_all
    ultimately show False using big by linarith
  qed
qed

lemma normalized_dividend:
  assumes "length u = l + 1" and "dig u 0 (l + 1)" and "u ! 0 = 0" and "d \<le> 15"
  defines "u1 \<equiv> if d > 0 then shl u l d else u"
  shows "length u1 = l + 1" and "dig u1 0 (l + 1)" and "val u1 0 (l + 1) = val u 0 (l + 1) * 2 ^ d"
proof -
  have "length u1 = l + 1 \<and> dig u1 0 (l + 1) \<and> val u1 0 (l + 1) = val u 0 (l + 1) * 2 ^ d"
  proof (cases "d = 0")
    case True
    then show ?thesis using assms by (simp add: u1_def)
  next
    case False
    then show ?thesis
      using shl_loop_spec [of l 0 l u d] assms by (simp add: shl_def u1_def del: val.simps)
  qed
  then show "length u1 = l + 1" "dig u1 0 (l + 1)" "val u1 0 (l + 1) = val u 0 (l + 1) * 2 ^ d"
    by blast+
qed

lemma shift_le_15:
  assumes "1 \<le> x" and "x * 2 ^ d < (B::int)"
  shows "d \<le> 15"
proof (rule ccontr)
  assume "\<not> d \<le> 15"
  then have "(2::int) ^ 16 \<le> 2 ^ d" by (intro power_increasing) auto
  also have "\<dots> \<le> x * 2 ^ d" using assms(1) by simp
  finally show False using assms(2) by simp
qed

text \<open>
  Knuth's algorithm from D1 on: \<open>v\<close> of \<open>n\<close> digits with a non-zero leading one, \<open>u\<close> of
  \<open>m + n\<close> digits below its \<open>u[0] = 0\<close>.
\<close>

lemma knuth_d:
  assumes v: "length v = n + 1" "2 \<le> n" "dig v 1 n" "v ! 1 \<noteq> 0"
    and u: "length u = m + n + 1" "dig u 0 (m + n + 1)" "u ! 0 = 0"
    and q: "length q = m + 1"
    and d: "32768 \<le> uint (v ! 1) * 2 ^ d" "uint (v ! 1) * 2 ^ d < B" "d \<le> 15"
    and r: "divide_loop (if d > 0 then v ! 0 # shl (tl v) (n - 1) d else v) n m 0
        (if d > 0 then shl u (m + n) d else u) q = (u', q')"
  shows "length q' = m + 1 \<and> dig q' 0 (m + 1)
    \<and> val q' 0 (m + 1) = val u 0 (m + n + 1) div val v 1 n
    \<and> (let u2 = (if d \<noteq> 0 then unshift u' d m n else u') in
        length u2 = m + n + 1 \<and> (\<forall>i\<le>m. u2 ! i = 0) \<and> dig u2 (m + 1) n
        \<and> val u2 (m + 1) n = val u 0 (m + n + 1) mod val v 1 n)"
proof -
  define v1 u1 where "v1 = (if d > 0 then v ! 0 # shl (tl v) (n - 1) d else v)"
    and "u1 = (if d > 0 then shl u (m + n) d else u)"
  define U V where "U = val u 0 (m + n + 1)" and "V = val v 1 n"
  note nv = normalized_divisor [OF v(1-3) d, folded v1_def V_def]
  note nu = normalized_dividend [OF u d(3), folded u1_def U_def]
  have V0: "0 < V"
  proof -
    have "0 < (32768::int) * B ^ (n - 1)" by simp
    then have "0 < V * 2 ^ d" using nv(2,4) by linarith
    then show ?thesis by (simp add: zero_less_mult_iff)
  qed
  have U: "U < B ^ (m + n)" "0 \<le> U"
  proof -
    have "U = val u 1 (m + n)"
      unfolding U_def using val_Suc_low [of u 0 "m + n"] u(3) by simp
    moreover have "val u 1 (m + n) < B ^ (m + n)"
      by (rule val_less) (rule digI [OF u(2)], auto)
    ultimately show "U < B ^ (m + n)" by simp
  qed (simp add: U_def)
  have top: "val u1 0 n < val v1 1 n"
  proof -
    have "val u1 0 (n + (m + 1)) = val u1 0 n * B ^ (m + 1) + val u1 n (m + 1)"
      using val_split [of u1 0 n "m + 1"] by simp
    then have "val u1 0 n * B ^ (m + 1) \<le> U * 2 ^ d"
      using nu(3) val_nonneg [of u1 n "m + 1"]
      unfolding add.commute [of m n] add.assoc by linarith
    also have "U * 2 ^ d < B ^ (m + n) * 2 ^ d"
      using U by simp
    also have "(2::int) ^ d \<le> 2 ^ 15" using d(3) by (intro power_increasing) auto
    then have "B ^ (m + n) * 2 ^ d \<le> B ^ (m + n) * 32768"
      by (intro mult_left_mono) simp_all
    also have "B ^ (m + n) * 32768 = (32768 * B ^ (n - 1)) * B ^ (m + 1)"
    proof -
      have "m + n = (n - 1) + (m + 1)" using v(2) by simp
      then show ?thesis by (simp only: power_add)
    qed
    also have "\<dots> \<le> val v1 1 n * B ^ (m + 1)"
      by (rule mult_right_mono [OF nv(4)]) simp
    finally show ?thesis by (simp add: mult_less_cancel_right del: val.simps)
  qed
  have loop: "divide_loop v1 n m 0 u1 q = (u', q')"
    using r by (simp add: v1_def u1_def)
  have digs: "dig u1 0 (n + 1 + m)" using nu(2) by (simp add: add.commute add.left_commute)
  have D: "length u' = m + n + 1" "length q' = m + 1" "\<forall>k\<le>m. u' ! k = 0"
    "dig u' (m + 1) n" "dig q' 0 (m + 1)" "val u' (m + 1) n < val v1 1 n"
    "val q' 0 (m + 1) * val v1 1 n + val u' (m + 1) n = U * 2 ^ d"
    using divide_loop_spec [OF loop _ v(2) nv(1) nv(3) digs top] nu q
    by (auto simp: add.commute add.left_commute simp del: val.simps)
  define Q R' where "Q = val q' 0 (m + 1)" and "R' = val u' (m + 1) n"
  have eq: "U * 2 ^ d = Q * (V * 2 ^ d) + R'" and less: "R' < V * 2 ^ d" and R0: "0 \<le> R'"
    using D(6,7) unfolding nv(2) Q_def R'_def by (simp_all del: val.simps)
  have "(U * 2 ^ d) div (V * 2 ^ d) = Q"
    unfolding eq using less R0 V0 by (subst div_mult_self3) (simp_all add: div_pos_pos_trivial)
  then have Qeq: "Q = U div V" by simp
  have "(U * 2 ^ d) mod (V * 2 ^ d) = R'"
    unfolding eq using less R0 by (subst mod_mult_self3) (simp add: mod_pos_pos_trivial)
  then have Req: "R' = (U mod V) * 2 ^ d" by (simp flip: mult_mod_left)
  have "let u2 = (if d \<noteq> 0 then unshift u' d m n else u') in
        length u2 = m + n + 1 \<and> (\<forall>i\<le>m. u2 ! i = 0) \<and> dig u2 (m + 1) n
        \<and> val u2 (m + 1) n = U mod V"
  proof (cases "d = 0")
    case True
    then show ?thesis using D Req R'_def by simp
  next
    case False
    have "uint (u' ! m) = 0" using D(3) by simp
    then have low: "val u' m (n + 1) = R'" and "dig u' m (n + 1)"
      unfolding R'_def using val_Suc_low [of u' m n] D(4) by (simp_all add: dig_Suc)
    then have S: "length (unshift u' d m n) = length u'"
      "\<forall>l. l < m \<longrightarrow> unshift u' d m n ! l = u' ! l" "unshift u' d m n ! m = 0"
      "dig (unshift u' d m n) (m + 1) n"
      "val (unshift u' d m n) (m + 1) n = R' div 2 ^ d mod B ^ n"
      using unshift_spec [of u' m n d] False d(3) D(1) by simp_all
    have "U mod V < B ^ n"
    proof -
      have "U mod V < V" using V0 by simp
      also have "V < B ^ n" unfolding V_def by (rule val_less) (rule v(3))
      finally show ?thesis .
    qed
    then have "val (unshift u' d m n) (m + 1) n = U mod V"
      unfolding S(5) Req using V0 by (simp add: mod_pos_pos_trivial)
    moreover have "\<forall>i\<le>m. unshift u' d m n ! i = 0"
      using S(2,3) D(3) by (auto simp: le_less)
    ultimately show ?thesis using S(1,4) D(1) False by simp
  qed
  then show ?thesis
    using D(2,5) Qeq unfolding U_def V_def Q_def by (simp del: val.simps)
qed

lemma four_digits_val:
  assumes "dig s 1 4"
  shows "uint (four_digits s) = val s 1 4"
  using assms unfolding four_digits_def word_quad
  by (simp add: uint_COMBINE dig_def numeral_eq_Suc) 

lemma zero_below_replicate:
  "i \<le> length q \<Longrightarrow> zero_below q i = replicate i 0 @ drop i q"
  by (induction i arbitrary: q) (simp_all add: drop_update_cancel Cons_nth_drop_Suc [symmetric] replicate_append_same)

lemma val_zeros: "\<forall>i. a \<le> i \<and> i < a + k \<longrightarrow> xs ! i = 0 \<Longrightarrow> val xs a k = 0"
  by (induction k) auto

lemma val_append_zeros:
  "val (xs @ ys) (length xs + a) k = val ys a k"
  by (induction k) (simp_all add: nth_append)

lemma dig_append: "dig (xs @ ys) (length xs + a) k = dig ys a k"
  by (induction k arbitrary: a) (simp_all add: dig_Suc nth_append flip: add_Suc_right)

lemma four_digits_tail:
  assumes "length xs = a" and "1 \<le> a" and "\<forall>i<a. xs ! i = 0" and "dig ys 0 k" and "a + k = 5"
  shows "uint (four_digits (xs @ ys)) = val ys 0 k"
proof -
  let ?s = "xs @ ys"
  have z: "\<forall>i. 1 \<le> i \<and> i < 1 + (a - 1) \<longrightarrow> ?s ! i = 0"
    using assms(1-3) by (auto simp: nth_append)
  have "(a - 1) + k = 4" using assms(2,5) by simp
  then have "val ?s 1 4 = val ?s 1 (a - 1) * B ^ k + val ?s a k"
    using val_split [of ?s 1 "a - 1" k] assms(2) by simp
  also have "val ?s a k = val ys 0 k"
    using val_append_zeros [of xs ys 0 k] assms(1) by simp
  finally have v: "val ?s 1 4 = val ys 0 k"
    using val_zeros [OF z] by simp
  have "dig ?s a k"
    using dig_append [of xs ys 0 k] assms(1,4) by simp
  then have "dig ?s 1 4"
    using z assms(2,5) by (auto simp: dig_def) (metis One_nat_def Suc_leI linorder_not_less nat_less_le unsigned_0 zero_less_numeral le_neq_implies_less)
  then show ?thesis
    using v by (simp add: four_digits_val del: val.simps)
qed

lemma four_digits_split:
  assumes "length xs + k + n = 5" and "1 \<le> length xs + k" and "length ys = k + n"
    and "\<forall>i<length xs. xs ! i = 0" and "\<forall>i<k. ys ! i = 0" and "dig ys k n"
  shows "uint (four_digits (xs @ ys)) = val ys k n"
proof -
  have len: "length (take k ys) = k" using assms(3) by simp
  have "four_digits (xs @ ys) = four_digits ((xs @ take k ys) @ drop k ys)" by simp
  moreover have "dig (drop k ys) 0 n" "val (drop k ys) 0 n = val ys k n"
    using dig_append [of "take k ys" "drop k ys" 0 n] val_append_zeros [of "take k ys" "drop k ys" 0 n]
      assms(6) unfolding len by simp_all
  moreover have "\<forall>i<length xs + k. (xs @ take k ys) ! i = 0"
    using assms(4,5) len by (auto simp: nth_append)
  ultimately show ?thesis
    using four_digits_tail [of "xs @ take k ys" "length xs + k" "drop k ys" n] assms(1,2) len
    by simp
qed

section \<open>The routine\<close>

text \<open>What the pieces of \<open>qdivrem\<close> are when the divisor has at least two digits.\<close>

lemma qdivrem_long:
  assumes le: "vq \<le> uq" and s: "strip_v (junk # digits_of vq) 0 4 = (vo, n)" and n: "2 \<le> n"
    and von: "vo + n = 4" and lead: "(junk # digits_of vq) ! (vo + 1) \<noteq> 0"
    and vval: "val (junk # digits_of vq) (vo + 1) n = uint vq"
  shows "qdivrem junk uq vq arq = Some (Inr (uq div vq, if arq then Some (uq mod vq) else None))"
proof -
  define uspace v where "uspace = 0 # digits_of uq" and "v = drop vo (junk # digits_of vq)"
  have lens: "length uspace = 5" "length (junk # digits_of vq) = 5"
    by (simp_all add: uspace_def digits_of_def)
  have vdig0: "dig (junk # digits_of vq) (vo + 1) n"
    by (rule digI [OF dig_digits_of]) (use von in auto)
  have vsplit: "junk # digits_of vq = take vo (junk # digits_of vq) @ v"
    by (simp add: v_def)
  have tlen: "length (take vo (junk # digits_of vq)) = vo" using von lens by simp
  have v: "length v = n + 1" "dig v 1 n" "v ! 1 \<noteq> 0" "val v 1 n = uint vq"
    using vdig0 lead vval dig_append [of "take vo (junk # digits_of vq)" v 1 n]
      val_append_zeros [of "take vo (junk # digits_of vq)" v 1 n] lens von
    unfolding vsplit [symmetric] tlen by (simp_all add: v_def)
  have "vq \<noteq> 0"
  proof
    assume "vq = 0"
    then have "val v 1 n < B ^ (n - 1)" using v(4) by simp
    moreover have "Suc (n - 1) = n" using n by simp
    ultimately have "v ! 1 = 0"
      using val_top_0_iff [of v 1 "n - 1"] v(2) by simp
    then show False using v(3) by simp
  qed
  have vpos: "0 < uint vq" using \<open>vq \<noteq> 0\<close> by (simp add: word_neq_0_conv word_less_def)
  have ule: "uint vq \<le> uint uq" using le by (simp add: word_le_def)
  have "val uspace 1 4 = uint uq" unfolding uspace_def by (rule val_digits_of)
  then obtain uo where uo: "strip_u uspace 0 (4 - int n) = Some (uo, 4 - int n - int uo)"
    "uo \<le> 3" "\<forall>i\<le>uo. uspace ! i = 0" "val uspace (uo + 1) (4 - uo) = uint uq"
    using strip_u_spec [of uspace 0 "4 - int n"] lens(1) vpos ule by (auto simp: uspace_def)
  have small: "n + uo \<le> 4"
  proof (rule ccontr)
    assume "\<not> n + uo \<le> 4"
    then have "B ^ (4 - uo) \<le> B ^ (n - 1)" by (intro power_increasing) auto
    moreover have "val uspace (uo + 1) (4 - uo) < B ^ (4 - uo)"
      by (rule val_less) (rule digI [OF dig_digits_of [of 0 uq, folded uspace_def]], use uo(2) in auto)
    moreover have "\<not> val v 1 n < B ^ (n - 1)"
      using val_top_0_iff [of v 1 "n - 1"] v(2,3) n by auto
    ultimately show False using uo(4) v(4) ule by linarith
  qed
  define m u where "m = 4 - n - uo" and "u = drop uo uspace"
  have m: "nat (4 - int n - int uo) = m" "m + n + uo = 4" using small by (simp_all add: m_def)
  have usplit: "uspace = take uo uspace @ u" by (simp add: u_def)
  have ulen: "length (take uo uspace) = uo" using uo(2) lens by simp
  have u: "length u = m + n + 1" "u ! 0 = 0"
    using lens(1) uo(2,3) m(2) by (simp_all add: u_def)
  have "dig uspace (uo + 1) (m + n)" "dig uspace uo (Suc (m + n))"
    using digI [OF dig_digits_of [of 0 uq, folded uspace_def], of "uo + 1" "m + n"] uo(2,3) m(2)
    by (auto simp: dig_Suc)
  then have ud: "dig u 0 (m + n + 1)"
    using dig_append [of "take uo uspace" u 0 "Suc (m + n)"] unfolding usplit [symmetric] ulen by simp
  have mn: "m + n = 4 - uo" using m(2) by simp
  have uv: "val u 0 (m + n + 1) = uint uq"
  proof -
    have "val u 1 (m + n) = uint uq"
      using val_append_zeros [of "take uo uspace" u 1 "m + n"] uo(4)
      unfolding usplit [symmetric] ulen mn [symmetric] by simp
    then show ?thesis using val_Suc_low [of u 0 "m + n"] u(2) by (simp del: val.simps)
  qed
  define q where "q = drop (4 - m) (zero_below (replicate 5 junk) (4 - m))"
  have zb: "zero_below (replicate 5 junk) (4 - m) = replicate (4 - m) 0 @ drop (4 - m) (replicate 5 junk)"
    by (rule zero_below_replicate) simp
  have q: "length q = m + 1" "take (4 - m) (zero_below (replicate 5 junk) (4 - m)) = replicate (4 - m) 0"
    unfolding q_def zb using m(2) by simp_all
  have lead1: "1 \<le> uint (v ! 1)" "uint (v ! 1) < B"
    using v(2,3) n by (auto simp: dig_def word_neq_0_conv word_less_def)
  obtain d where d: "normalize (v ! 1) 0 = Some d" "32768 \<le> uint (v ! 1) * 2 ^ d"
    "uint (v ! 1) * 2 ^ d < B"
    using normalize_spec [OF lead1, of 0] by auto
  have d15: "d \<le> 15" by (rule shift_le_15 [OF lead1(1) d(3)])
  obtain u' q' where loop: "divide_loop (if d > 0 then v ! 0 # shl (tl v) (n - 1) d else v) n m 0
      (if d > 0 then shl u (m + n) d else u) q = (u', q')"
    by force
  note K = knuth_d [OF v(1) n v(2,3) u(1) ud u(2) q(1) d(2,3) d15 loop, unfolded uv v(4)]
  define u2 where "u2 = (if d \<noteq> 0 then unshift u' d m n else u')"
  have K: "length q' = m + 1" "dig q' 0 (m + 1)" "val q' 0 (m + 1) = uint uq div uint vq"
    "length u2 = m + n + 1" "\<forall>i\<le>m. u2 ! i = 0" "dig u2 (m + 1) n"
    "val u2 (m + 1) n = uint uq mod uint vq"
    using K unfolding u2_def Let_def by blast+
  have quo: "four_digits (replicate (4 - m) 0 @ q') = uq div vq"
    unfolding word_uint_eq_iff uint_div_distrib K(3) [symmetric]
    by (rule four_digits_tail [OF _ _ _ K(2)]) (use m(2) n in auto)
  have rem: "four_digits (take uo uspace @ u2) = uq mod vq"
    unfolding word_uint_eq_iff uint_mod_distrib K(7) [symmetric]
    by (rule four_digits_split) (use m(2) ulen K(4,5,6) uo(2,3) in auto)
  have "(vo, n) = strip_v (junk # digits_of vq) 0 4" using s by simp
  have code: "qdivrem junk uq vq arq =
      Some (Inr (four_digits (replicate (4 - m) 0 @ q'),
        if arq then Some (four_digits (take uo uspace @ u2)) else None))"
  proof -
    have "\<not> uq < vq" "n \<noteq> 1" using le n by (simp_all add: not_less)
    then show ?thesis
      unfolding qdivrem_def Let_def s uspace_def [symmetric] prod.case
      using \<open>vq \<noteq> 0\<close> uo(1)
      by (simp only: if_False option.case prod.case m(1) u_def [symmetric] v_def [symmetric]
          q_def [symmetric] q(2) d(1) loop) (simp add: u2_def)
  qed
  show ?thesis unfolding code quo rem ..
qed

lemma qdivrem_short:
  assumes le: "vq \<le> uq" "vq \<noteq> 0" and s: "strip_v (junk # digits_of vq) 0 4 = (2, 1)"
    and v: "val (junk # digits_of vq) 1 4 = uint ((junk # digits_of vq) ! 4)"
  shows "qdivrem junk uq vq arq = Some (Inr (uq div vq, if arq then Some (uq mod vq) else None))"
proof -
  let ?t = "(junk # digits_of vq) ! 4"
  have t: "uint ?t = uint vq" using v val_digits_of [of junk vq] by simp
  have "1 \<le> (4::nat) \<and> 4 < 1 + (4::nat)" by simp
  then have "uint ?t < B" using dig_digits_of [of junk vq] unfolding dig_def by blast
  moreover have "?t \<noteq> 0" using t le(2) by (metis unsigned_0 word_uint_eq_iff)
  ultimately obtain q r where d: "divide_short (0 # digits_of uq) ?t arq = (q, r)"
    and qr: "uint q = uint uq div uint vq"
      "map_option uint r = (if arq then Some (uint uq mod uint vq) else None)"
    using divide_short_spec [OF dig_digits_of [of 0 uq], of ?t arq] t val_digits_of [of 0 uq]
    by (metis surj_pair)
  have "q = uq div vq" using qr(1) by (simp add: word_uint_eq_iff uint_div_distrib)
  moreover have "r = (if arq then Some (uq mod vq) else None)"
    using qr(2) by (cases r) (auto simp: word_uint_eq_iff uint_mod_distrib split: if_splits)
  moreover have "qdivrem junk uq vq arq = Some (Inr (q, r))"
  proof -
    have "\<not> uq < vq" "(2::nat) + 2 = 4" using le(1) by (simp_all add: not_less)
    then show ?thesis
      using le(2) unfolding qdivrem_def Let_def s prod.case d by (simp only: if_False if_True d refl)
  qed
  ultimately show ?thesis by simp
qed

lemma qdivrem_zero: "qdivrem junk uq 0 arq = Some (Inl Divide_error)"
  by (simp add: qdivrem_def)

lemma qdivrem_div_mod:
  assumes "vq \<noteq> 0"
  shows "qdivrem junk uq vq arq = Some (Inr (uq div vq, if arq then Some (uq mod vq) else None))"
proof (cases "uq < vq")
  case True
  then have "uq div vq = 0" "uq mod vq = uq"
    by (simp_all add: word_uint_eq_iff uint_div_distrib uint_mod_distrib word_less_def)
  then show ?thesis using assms True by (simp add: qdivrem_def)
next
  case False
  then have le: "vq \<le> uq" by simp
  obtain vo n where s: "strip_v (junk # digits_of vq) 0 4 = (vo, n)" by force
  have "val (junk # digits_of vq) 1 4 = uint vq" by (rule val_digits_of)
  with strip_v_spec [OF s] consider
      (short) "n = 1" "vo = 2" "val (junk # digits_of vq) 1 4 = uint ((junk # digits_of vq) ! 4)"
    | (long) "2 \<le> n" "vo + n = 4" "(junk # digits_of vq) ! (vo + 1) \<noteq> 0"
      "val (junk # digits_of vq) (vo + 1) n = uint vq"
    by auto
  then show ?thesis
  proof cases
    case short
    then show ?thesis using qdivrem_short [OF le assms] s by simp
  next
    case long
    then show ?thesis using qdivrem_long [OF le s] by simp
  qed
qed

section \<open>The entry points of the compiler\<close>

lemma umoddi3_mod: "b \<noteq> 0 \<Longrightarrow> umoddi3 junk a b = Some (Inr (a mod b))"
  by (simp add: umoddi3_def qdivrem_div_mod)

lemma udivdi3_div: "b \<noteq> 0 \<Longrightarrow> udivdi3 junk a b = Some (Inr (a div b))"
  by (simp add: udivdi3_def qdivrem_div_mod)

lemma uint_abs_word:
  "uint (if sint a < 0 then - a else a) = \<bar>sint (a::u64)\<bar>"
proof -
  have w: "word_of_int \<bar>sint a\<bar> = (if sint a < 0 then - a else a)"
    by simp
  have "- (2 ^ 63) \<le> sint a" "sint a < 2 ^ 63"
    using sint_ge [of a] sint_lt [of a] by simp_all
  then have "uint (word_of_int \<bar>sint a\<bar> :: u64) = \<bar>sint a\<bar>"
    by (simp add: uint_word_of_int take_bit_int_eq_self)
  then show ?thesis unfolding w .
qed

text \<open>
  C division truncates toward zero; the smallest number divided by \<open>-1\<close> wraps to itself.
\<close>

lemma divdi3_sdiv:
  assumes "b \<noteq> 0"
  shows "divdi3 junk a b = Some (Inr (word_of_int (sint a sdiv sint b)))"
proof -
  let ?a = "if sint a < 0 then - a else a" and ?b = "if sint b < 0 then - b else b"
  have "?b \<noteq> 0" using assms by simp
  then have code: "divdi3 junk a b = Some (Inr (if (sint a < 0) \<noteq> (sint b < 0)
      then - (?a div ?b) else ?a div ?b))"
    unfolding divdi3_def Let_def by (simp add: qdivrem_div_mod)
  have d: "?a div ?b = word_of_int (\<bar>sint a\<bar> div \<bar>sint b\<bar>)"
    by (metis uint_abs_word uint_div_distrib word_of_int_uint)
  have "sint b \<noteq> 0" using assms by (simp add: signed_eq_0_iff)
  then have "sint a sdiv sint b
      = (if (sint a < 0) \<noteq> (sint b < 0) then - (\<bar>sint a\<bar> div \<bar>sint b\<bar>) else \<bar>sint a\<bar> div \<bar>sint b\<bar>)"
    by (simp add: signed_divide_int_def sgn_if)
  then show ?thesis
    unfolding code d by simp
qed

text \<open>
  C8. For any two 64-bit operands \<open>__qdivrem\<close> terminates; with a divisor of 0 it traps, otherwise
  it returns the exact quotient and, when asked, the exact remainder, whatever the stack held.
\<close>

theorem qdivrem_correct:
  "qdivrem junk uq vq arq = Some
    (if vq = 0 then Inl Divide_error else Inr (uq div vq, if arq then Some (uq mod vq) else None))"
  by (simp add: qdivrem_zero qdivrem_div_mod)

text \<open>
  C23. \<open>__divdi3\<close> is the signed division of C: the quotient truncated toward zero, at 64 bits
  (the smallest number divided by \<open>-1\<close> wraps), or the trap.
\<close>

theorem divdi3_truncates:
  "divdi3 junk a b =
    Some (if b = 0 then Inl Divide_error else Inr (word_of_int (sint a sdiv sint b)))"
proof (cases "b = 0")
  case True
  then show ?thesis by (simp add: divdi3_def qdivrem_zero)
qed (simp add: divdi3_sdiv)

end
