(* ===== verification/Machine_Memory.thy ===== *)
theory Machine_Memory imports Bender_Prelude begin

text \<open>
  Physical memory and the libc routines that work on it: memcpy.c, memset.c, memcmp.c, strlen.c.

  The program runs on the bare machine with a flat 32-bit address space and no paging, so its
  memory is a total function from 32-bit addresses to bytes, and pointer arithmetic wraps at
  2^32 as it does on the processor. Multi-byte fields are little endian. The inline assembly
  \<open>rep movsb\<close> and \<open>rep stosb\<close> is the recursion on its count register, byte by byte and
  upwards (the direction flag is clear, as the i386 ABI has it), so that an overlapping copy does
  what the processor does.
\<close>

unbundle bit_operations_syntax

type_synonym mem = "u32 \<Rightarrow> u8"

section \<open>Runs of bytes\<close>

primrec read_bytes :: "mem \<Rightarrow> u32 \<Rightarrow> nat \<Rightarrow> u8 list" where
  "read_bytes m p 0 = []"
| "read_bytes m p (Suc n) = m p # read_bytes m (p + 1) n"

primrec write_bytes :: "mem \<Rightarrow> u32 \<Rightarrow> u8 list \<Rightarrow> mem" where
  "write_bytes m p [] = m"
| "write_bytes m p (b # bs) = write_bytes (m(p := b)) (p + 1) bs"

text \<open>\<open>in_region p n a\<close>: the address \<open>a\<close> is one of the \<open>n\<close> addresses from \<open>p\<close> on.
  \<open>fits p n\<close>: they do not wrap round. \<open>apart p n q k\<close>: two such runs have no address in common.\<close>

definition in_region :: "u32 \<Rightarrow> nat \<Rightarrow> u32 \<Rightarrow> bool" where
  "in_region p n a \<longleftrightarrow> unat (a - p) < n"

definition fits :: "u32 \<Rightarrow> nat \<Rightarrow> bool" where
  "fits p n \<longleftrightarrow> unat p + n \<le> 2 ^ 32"

definition apart :: "u32 \<Rightarrow> nat \<Rightarrow> u32 \<Rightarrow> nat \<Rightarrow> bool" where
  "apart p n q k \<longleftrightarrow> unat p + n \<le> unat q \<or> unat q + k \<le> unat p"

section \<open>Little-endian fields\<close>

primrec le_bytes :: "nat \<Rightarrow> 'a::len word \<Rightarrow> u8 list" where
  "le_bytes 0 v = []"
| "le_bytes (Suc n) v = ucast v # le_bytes n (drop_bit 8 v)"

primrec of_le_bytes :: "u8 list \<Rightarrow> 'a::len word" where
  "of_le_bytes [] = 0"
| "of_le_bytes (b # bs) = ucast b OR push_bit 8 (of_le_bytes bs)"

definition load16 :: "mem \<Rightarrow> u32 \<Rightarrow> u16" where
  "load16 m p = of_le_bytes (read_bytes m p 2)"

definition load32 :: "mem \<Rightarrow> u32 \<Rightarrow> u32" where
  "load32 m p = of_le_bytes (read_bytes m p 4)"

definition load64 :: "mem \<Rightarrow> u32 \<Rightarrow> u64" where
  "load64 m p = of_le_bytes (read_bytes m p 8)"

definition store16 :: "mem \<Rightarrow> u32 \<Rightarrow> u16 \<Rightarrow> mem" where
  "store16 m p v = write_bytes m p (le_bytes 2 v)"

definition store32 :: "mem \<Rightarrow> u32 \<Rightarrow> u32 \<Rightarrow> mem" where
  "store32 m p v = write_bytes m p (le_bytes 4 v)"

section \<open>memcpy, memset, memcmp, strlen\<close>

primrec rep_movsb :: "mem \<Rightarrow> u32 \<Rightarrow> u32 \<Rightarrow> nat \<Rightarrow> mem" where
  "rep_movsb m d s 0 = m"
| "rep_movsb m d s (Suc n) = rep_movsb (m(d := m s)) (d + 1) (s + 1) n"

definition memcpy :: "mem \<Rightarrow> u32 \<Rightarrow> u32 \<Rightarrow> u32 \<Rightarrow> mem" where
  "memcpy m dest src n = rep_movsb m dest src (unat n)"

primrec rep_stosb :: "mem \<Rightarrow> u32 \<Rightarrow> u8 \<Rightarrow> nat \<Rightarrow> mem" where
  "rep_stosb m d c 0 = m"
| "rep_stosb m d c (Suc n) = rep_stosb (m(d := c)) (d + 1) c n"

definition memset :: "mem \<Rightarrow> u32 \<Rightarrow> u32 \<Rightarrow> u32 \<Rightarrow> mem" where
  "memset m dst c n = rep_stosb m dst (ucast c) (unat n)"

text \<open>
  A pointer that is only read is a stream of bytes, so that string literals need no address:
  \<open>at m p\<close> is the memory from \<open>p\<close> on, \<open>lit s\<close> a literal followed by its NUL.
\<close>

type_synonym stream = "nat \<Rightarrow> u8"

definition at :: "mem \<Rightarrow> u32 \<Rightarrow> stream" where
  "at m p = (\<lambda>i. m (p + of_nat i))"

definition lit :: "string \<Rightarrow> stream" where
  "lit s = (\<lambda>i. if i < length s then of_char (s ! i) else 0)"

text \<open>\<open>while (n-- && (res == 0)) res = *(p1++) - *(p2++);\<close> with plain, hence signed, chars.\<close>

fun memcmp_loop :: "stream \<Rightarrow> stream \<Rightarrow> nat \<Rightarrow> nat \<Rightarrow> int \<Rightarrow> int" where
  "memcmp_loop p1 p2 i 0 res = res"
| "memcmp_loop p1 p2 i (Suc n) res =
     (if res = 0 then memcmp_loop p1 p2 (Suc i) n (sint (p1 i) - sint (p2 i)) else res)"

definition memcmp :: "stream \<Rightarrow> stream \<Rightarrow> u32 \<Rightarrow> int" where
  "memcmp s1 s2 n = memcmp_loop s1 s2 0 (unat n) 0"

partial_function (option) strlen_loop :: "mem \<Rightarrow> u32 \<Rightarrow> u32 \<Rightarrow> u32 option" where
  "strlen_loop m s n = (if m s \<noteq> 0 then strlen_loop m (s + 1) (n + 1) else Some n)"

definition strlen :: "mem \<Rightarrow> u32 \<Rightarrow> u32 option" where
  "strlen m s = strlen_loop m s 0"

text \<open>The string \<open>s\<close>, without its NUL, is stored at \<open>p\<close>.\<close>

primrec cstr :: "mem \<Rightarrow> u32 \<Rightarrow> u8 list \<Rightarrow> bool" where
  "cstr m p [] = (m p = 0)"
| "cstr m p (c # cs) = (c \<noteq> 0 \<and> m p = c \<and> cstr m (p + 1) cs)"

section \<open>Lemmas: runs of bytes\<close>

lemma length_read_bytes [simp]: "length (read_bytes m p n) = n"
  by (induction n arbitrary: p) auto

lemma length_le_bytes [simp]: "length (le_bytes n v) = n"
  by (induction n arbitrary: v) auto

lemma nth_read_bytes: "i < n \<Longrightarrow> read_bytes m p n ! i = m (p + of_nat i)"
proof (induction n arbitrary: p i)
  case 0
  then show ?case by simp
next
  case (Suc n)
  then show ?case by (cases i) (auto simp: ac_simps)
qed

lemma read_bytes_append: "read_bytes m p (a + b) = read_bytes m p a @ read_bytes m (p + of_nat a) b"
  by (induction a arbitrary: p) (auto simp: ac_simps)

lemma write_bytes_append:
  "write_bytes m p (as @ bs) = write_bytes (write_bytes m p as) (p + of_nat (length as)) bs"
  by (induction as arbitrary: m p) (auto simp: ac_simps)

lemma read_bytes_cong:
  "(\<And>i. i < n \<Longrightarrow> m (p + of_nat i) = m' (q + of_nat i)) \<Longrightarrow> read_bytes m p n = read_bytes m' q n"
  by (rule nth_equalityI) (auto simp: nth_read_bytes)

lemma word_sub_Suc:
  assumes "a \<noteq> (p::u32)"
  shows "unat (a - p) = Suc (unat (a - (p + 1)))"
proof -
  have "unat (a - p - 1) = unat (a - p) - 1"
    by (rule unat_minus_one) (use assms in simp)
  moreover have "unat (a - p) \<noteq> 0"
    using assms by (simp add: unat_eq_0)
  ultimately show ?thesis
    by (simp add: diff_diff_eq)
qed

lemma write_bytes_apply:
  "length bs \<le> 2 ^ 32 \<Longrightarrow>
   write_bytes m p bs a = (if in_region p (length bs) a then bs ! unat (a - p) else m a)"
proof (induction bs arbitrary: m p)
  case Nil
  then show ?case by (simp add: in_region_def)
next
  case (Cons b bs)
  have IH: "write_bytes (m(p := b)) (p + 1) bs a =
      (if in_region (p + 1) (length bs) a then bs ! unat (a - (p + 1)) else (m(p := b)) a)"
    using Cons.prems by (intro Cons.IH) simp
  show ?case
  proof (cases "a = p")
    case True
    have "unat (p - (p + 1)) = 4294967295"
      by simp
    then have "\<not> in_region (p + 1) (length bs) a"
      using Cons.prems True by (simp add: in_region_def)
    then show ?thesis
      using IH True by (simp add: in_region_def)
  next
    case False
    then show ?thesis
      using IH word_sub_Suc [OF False] by (simp add: in_region_def)
  qed
qed

lemma write_bytes_outside:
  "length bs \<le> 2 ^ 32 \<Longrightarrow> \<not> in_region p (length bs) a \<Longrightarrow> write_bytes m p bs a = m a"
  by (simp add: write_bytes_apply)

lemma fits_length: "fits p n \<Longrightarrow> n \<le> 2 ^ 32"
  by (simp add: fits_def)

lemma in_region_nat:
  assumes "fits p n"
  shows "in_region p n a \<longleftrightarrow> unat p \<le> unat a \<and> unat a < unat p + n"
proof (cases "p \<le> a")
  case True
  then show ?thesis
    by (auto simp: in_region_def unat_sub word_le_nat_alt)
next
  case False
  then have "unat (a - p) = 2 ^ 32 + unat a - unat p"
    by (simp add: unat_sub_if' word_le_nat_alt)
  with False show ?thesis
    using assms by (auto simp: in_region_def fits_def word_le_nat_alt)
qed

lemma in_region_offset:
  assumes "fits q k" and "i < k"
  shows "unat (q + of_nat i) = unat q + i"
  by (rule unat_add_of_nat) (use assms in \<open>simp add: fits_def\<close>)

lemma apart_not_in_region:
  assumes "apart p n q k" and "fits p n" and "fits q k" and "i < k"
  shows "\<not> in_region p n (q + of_nat i)"
  using assms in_region_offset [OF assms(3,4)] by (auto simp: in_region_nat apart_def)

lemma apart_sym: "apart p n q k \<longleftrightarrow> apart q k p n"
  by (auto simp: apart_def)

lemma read_write_same [mem_simps]:
  assumes "length bs = n" and "n \<le> 2 ^ 32"
  shows "read_bytes (write_bytes m p bs) p n = bs"
proof (rule nth_equalityI)
  fix i assume i: "i < length (read_bytes (write_bytes m p bs) p n)"
  then have "unat (of_nat i :: u32) = i"
    using assms by (intro unat_of_nat_small) simp
  then show "read_bytes (write_bytes m p bs) p n ! i = bs ! i"
    using i assms by (simp add: nth_read_bytes write_bytes_apply in_region_def)
qed (use assms in simp)

lemma read_write_apart [mem_simps]:
  assumes "apart p (length bs) q k" and "fits p (length bs)" and "fits q k"
  shows "read_bytes (write_bytes m p bs) q k = read_bytes m q k"
  by (rule read_bytes_cong)
    (use assms apart_not_in_region fits_length in \<open>auto intro!: write_bytes_outside\<close>)

lemma read_write_within:
  assumes "off + length bs \<le> k" and "fits q k"
  shows "read_bytes (write_bytes m (q + of_nat off) bs) q k
    = take off (read_bytes m q k) @ bs @ drop (off + length bs) (read_bytes m q k)"
proof -
  let ?p = "q + of_nat off" and ?n = "length bs"
  define l where "l = k - off - ?n"
  have k: "k = off + (?n + l)" using assms(1) by (simp add: l_def)
  let ?m = "write_bytes m ?p bs"
  have len: "?n \<le> 2 ^ 32" and k32: "k \<le> 2 ^ 32" using assms by (simp_all add: fits_def)
  have outside: "?m (q + of_nat i) = m (q + of_nat i)" if "i < k" "i < off \<or> off + ?n \<le> i" for i
  proof (rule write_bytes_outside [OF len])
    have i: "unat (of_nat i :: u32) = i" using that k32 by (intro unat_of_nat_small) simp
    show "\<not> in_region ?p ?n (q + of_nat i)"
    proof (cases "?n = 0")
      case False
      then have "0 < ?n" by simp
      then have "off < 2 ^ 32" using assms(1) k32 by linarith
      then have o: "unat (of_nat off :: u32) = off" by (intro unat_of_nat_small) simp
      have "q + of_nat i - ?p = of_nat i - of_nat off" by simp
      moreover have "?n \<le> unat (of_nat i - of_nat off :: u32)"
        using that(2) i o assms(1) k32 by (auto simp: unat_sub_if' word_le_nat_alt)
      ultimately show ?thesis by (simp add: in_region_def)
    qed (simp add: in_region_def)
  qed
  have "read_bytes ?m q off = read_bytes m q off"
    by (rule read_bytes_cong) (use outside k in simp)
  moreover have "read_bytes ?m ?p ?n = bs" by (rule read_write_same [OF refl len])
  moreover have "read_bytes ?m (?p + of_nat ?n) l = read_bytes m (?p + of_nat ?n) l"
  proof (rule read_bytes_cong)
    fix i assume "i < l"
    then show "?m (?p + of_nat ?n + of_nat i) = m (?p + of_nat ?n + of_nat i)"
      using outside [of "off + (?n + i)"] k by (simp add: ac_simps)
  qed
  ultimately show ?thesis
    unfolding k read_bytes_append by simp
qed

lemma write_read_id: "n \<le> 2 ^ 32 \<Longrightarrow> write_bytes m p (read_bytes m p n) = m"
  by (rule ext) (auto simp: write_bytes_apply in_region_def nth_read_bytes)

lemma read_bytes_1 [simp]: "read_bytes m p 1 = [m p]"
  by (simp add: One_nat_def)

section \<open>Lemmas: little-endian fields\<close>

lemma of_le_bytes_le_bytes: "(of_le_bytes (le_bytes n v) :: 'a::len word) = take_bit (8 * n) v"
proof (induction n arbitrary: v)
  case 0
  then show ?case by simp
next
  case (Suc n)
  have "(of_le_bytes (le_bytes (Suc n) v) :: 'a word)
      = ucast (ucast v :: u8) OR push_bit 8 (take_bit (8 * n) (drop_bit 8 v))"
    by (simp add: Suc.IH)
  also have "\<dots> = take_bit (8 * Suc n) v"
    by (rule bit_word_eqI) (auto simp: bit_simps)
  finally show ?case .
qed

lemma of_le_bytes_16 [simp]: "of_le_bytes (le_bytes 2 (v::u16)) = v"
  by (simp only: of_le_bytes_le_bytes) (rule bit_word_eqI, simp add: bit_simps)

lemma of_le_bytes_32 [simp]: "of_le_bytes (le_bytes 4 (v::u32)) = v"
  by (simp only: of_le_bytes_le_bytes) (rule bit_word_eqI, simp add: bit_simps)

lemma of_le_bytes_64 [simp]: "of_le_bytes (le_bytes 8 (v::u64)) = v"
  by (simp only: of_le_bytes_le_bytes) (rule bit_word_eqI, simp add: bit_simps)

lemma le_bytes_of_le_bytes:
  "length bs = n \<Longrightarrow> 8 * n \<le> LENGTH('a) \<Longrightarrow> le_bytes n (of_le_bytes bs :: 'a::len word) = bs"
proof (induction bs arbitrary: n)
  case Nil
  then show ?case by simp
next
  case (Cons b bs)
  define w where "w = (of_le_bytes bs :: 'a word)"
  have n: "n = Suc (length bs)" and len: "8 * length bs \<le> LENGTH('a)" "8 \<le> LENGTH('a)"
    using Cons.prems by simp_all
  have high: "take_bit (8 * length bs) w = w"
    by (metis Cons.IH len(1) of_le_bytes_le_bytes w_def)
  have small: "bit w i \<Longrightarrow> i < 8 * length bs" for i
    by (metis bit_take_bit_iff high)
  have "ucast (ucast b OR push_bit 8 w :: 'a word) = b"
    using len(2) by (intro bit_word_eqI) (auto simp: bit_simps)
  moreover have "drop_bit 8 (ucast b OR push_bit 8 w) = w"
    using small Cons.prems(2) n
    by (intro bit_word_eqI) (fastforce simp: bit_simps dest: bit_imp_le_length)
  ultimately show ?case
    using Cons.IH [OF refl len(1)] by (simp add: n w_def)
qed

lemma load_store_16 [mem_simps]: "load16 (store16 m p v) p = v"
  by (simp add: load16_def store16_def read_write_same)

lemma load_store_32 [mem_simps]: "load32 (store32 m p v) p = v"
  by (simp add: load32_def store32_def read_write_same)

section \<open>Lemmas: memcpy and memset\<close>

lemma rep_movsb_eq:
  assumes "n \<le> unat (d - s) \<or> d = s" and "n \<le> 2 ^ 32"
  shows "rep_movsb m d s n = write_bytes m d (read_bytes m s n)"
  using assms
proof (induction n arbitrary: m d s)
  case 0
  then show ?case by simp
next
  case (Suc n)
  let ?m = "m(d := m s)"
  have keep: "read_bytes ?m (s + 1) n = read_bytes m (s + 1) n"
  proof (cases "d = s")
    case True
    then show ?thesis by simp
  next
    case False
    show ?thesis
    proof (rule read_bytes_cong)
      fix i assume i: "i < n"
      have "s + 1 + of_nat i \<noteq> d"
      proof
        assume "s + 1 + of_nat i = d"
        then have "d - s = of_nat (Suc i)"
          by (simp add: algebra_simps flip: \<open>s + 1 + of_nat i = d\<close>)
        then have "unat (d - s) = unat (of_nat (Suc i) :: u32)"
          by (rule arg_cong)
        also have "\<dots> = Suc i"
          using i Suc.prems(2) by (intro unat_of_nat_small) simp
        finally show False
          using Suc.prems(1) False i by simp
      qed
      then show "?m (s + 1 + of_nat i) = m (s + 1 + of_nat i)"
        by simp
    qed
  qed
  have "rep_movsb ?m (d + 1) (s + 1) n = write_bytes ?m (d + 1) (read_bytes ?m (s + 1) n)"
    by (rule Suc.IH) (use Suc.prems in auto)
  then show ?case
    by (simp add: keep)
qed

lemma rep_movsb_outside: "\<not> in_region d n a \<Longrightarrow> rep_movsb m d s n a = m a"
proof (induction n arbitrary: m d s)
  case (Suc n)
  then have "a \<noteq> d" by (auto simp: in_region_def)
  moreover have "\<not> in_region (d + 1) n a" using Suc.prems word_sub_Suc [OF \<open>a \<noteq> d\<close>] by (simp add: in_region_def)
  ultimately show ?case using Suc.IH by simp
qed simp

lemma memcpy_eq:
  assumes "unat n \<le> unat (d - s) \<or> d = s"
  shows "memcpy m d s n = write_bytes m d (read_bytes m s (unat n))"
  unfolding memcpy_def
  by (rule rep_movsb_eq) (use assms unat32_bound [of n] in \<open>auto intro: less_imp_le\<close>)

lemma apart_forward:
  assumes "apart d n s n" and "fits d n" and "fits s n" and "0 < n"
  shows "n \<le> unat (d - s)"
proof (cases "s \<le> d")
  case True
  then show ?thesis
    using assms by (auto simp: apart_def unat_sub word_le_nat_alt)
next
  case False
  then show ?thesis
    using assms by (auto simp: apart_def fits_def unat_sub_if' word_le_nat_alt)
qed

lemma memcpy_apart:
  assumes "apart d (unat n) s (unat n)" and "fits d (unat n)" and "fits s (unat n)"
  shows "memcpy m d s n = write_bytes m d (read_bytes m s (unat n))"
proof (cases "unat n = 0")
  case True
  then show ?thesis by (simp add: memcpy_def)
next
  case False
  then show ?thesis
    using assms by (intro memcpy_eq disjI1 apart_forward) auto
qed

lemma rep_stosb_eq: "rep_stosb m d c n = write_bytes m d (replicate n c)"
  by (induction n arbitrary: m d) auto

lemma memset_eq: "memset m d c n = write_bytes m d (replicate (unat n) (ucast c))"
  by (simp add: memset_def rep_stosb_eq)

section \<open>Lemmas: memcmp and strings\<close>

lemma sint_eq_iff: "sint (a::'a::len word) = sint b \<longleftrightarrow> a = b"
  by (auto intro: signed_word_eqI)

text \<open>\<open>memcmp\<close> orders bytes as signed characters, not as the unsigned ones of the C standard.\<close>

lemma memcmp_signed: "memcmp (\<lambda>_. 0x80) (\<lambda>_. 0x7F) 1 < 0"
  by (simp add: memcmp_def)

lemma memcmp_loop_nonzero: "res \<noteq> 0 \<Longrightarrow> memcmp_loop p1 p2 i n res = res"
  by (cases n) auto

lemma memcmp_loop_0_iff:
  "memcmp_loop p1 p2 i n res = 0 \<longleftrightarrow> res = 0 \<and> (\<forall>j<n. p1 (i + j) = p2 (i + j))"
proof (induction n arbitrary: i res)
  case 0
  then show ?case by simp
next
  case (Suc n)
  then show ?case
    by (cases "res = 0") (simp_all add: all_less_Suc_shift memcmp_loop_nonzero sint_eq_iff)
qed

lemma memcmp_0_iff: "memcmp p1 p2 n = 0 \<longleftrightarrow> (\<forall>j<unat n. p1 j = p2 j)"
  by (simp add: memcmp_def memcmp_loop_0_iff)

lemma memcmp_lit:
  assumes "unat n = length s"
  shows "memcmp (at m p) (lit s) n = 0 \<longleftrightarrow> read_bytes m p (length s) = map of_char s"
  using assms by (auto simp: memcmp_0_iff list_eq_iff_nth_eq nth_read_bytes at_def lit_def)

lemma strlen_loop_cstr: "cstr m p s \<Longrightarrow> strlen_loop m p n = Some (n + of_nat (length s))"
  by (induction s arbitrary: p n) (auto simp: strlen_loop.simps [of m] ac_simps)

lemma strlen_cstr: "cstr m p s \<Longrightarrow> strlen m p = Some (of_nat (length s))"
  by (simp add: strlen_def strlen_loop_cstr)

lemma cstr_at: "cstr m p s \<Longrightarrow> i < length s \<Longrightarrow> m (p + of_nat i) = s ! i \<and> s ! i \<noteq> 0"
proof (induction s arbitrary: p i)
  case Nil
  then show ?case by simp
next
  case (Cons c s)
  then show ?case by (cases i) (auto simp: add.assoc [symmetric])
qed

lemma cstr_end: "cstr m p s \<Longrightarrow> m (p + of_nat (length s)) = 0"
proof (induction s arbitrary: p)
  case Nil
  then show ?case by simp
next
  case (Cons c s)
  then have "m (p + 1 + of_nat (length s)) = 0" by simp
  then show ?case by (simp add: ac_simps)
qed

lemma cstr_short:
  assumes "cstr m p s"
  shows "length s < 2 ^ 32"
proof (rule ccontr)
  let ?z = "p + of_nat (length s)"
  define i where "i = unat (?z - p)"
  assume "\<not> length s < 2 ^ 32"
  moreover have "i < 2 ^ 32"
    unfolding i_def by (rule unat32_bound)
  ultimately have i: "i < length s" by simp
  have "p + of_nat i = ?z"
    by (simp add: i_def)
  then show False
    using cstr_at [OF assms i] cstr_end [OF assms] by simp
qed

lemma cstr_read: "cstr m p s \<Longrightarrow> read_bytes m p (Suc (length s)) = s @ [0]"
  by (rule nth_equalityI)
    (auto simp: nth_read_bytes nth_append cstr_at cstr_end less_Suc_eq simp del: read_bytes.simps)

lemma cstr_iff_read:
  "cstr m p s \<longleftrightarrow> read_bytes m p (Suc (length s)) = s @ [0] \<and> 0 \<notin> set s"
proof (induction s arbitrary: p)
  case Nil
  then show ?case by simp
next
  case (Cons c s)
  then show ?case by auto
qed

lemma cstr_unique: "cstr m p s \<Longrightarrow> cstr m p t \<Longrightarrow> s = t"
proof (induction s arbitrary: p t)
  case Nil
  then show ?case by (cases t) auto
next
  case (Cons c s)
  then show ?case by (cases t) auto
qed

lemma cstr_cong:
  "read_bytes m p (Suc (length s)) = read_bytes m' q (Suc (length s)) \<Longrightarrow> cstr m p s = cstr m' q s"
  by (simp only: cstr_iff_read)

end
