(* ===== verification/Console.thy ===== *)
theory Console imports Machine_Memory begin

text \<open>
  The machine the program runs on and its two output devices: the inline port accesses of
  asm.h, the serial line of serial.c, and \<open>out_char\<close> and \<open>out_string\<close> of util.c, which write the
  VGA text window and the serial line.

  The VGA window at 0xb8000 is a device of its own, not memory that anything else is kept in; it
  is addressed as the code addresses it. A device answers a port read with a function of
  everything that has been read and written on the ports before (\<open>io\<close>, the latest event first),
  so every deterministic device is a value of \<open>port_in8\<close>, \<open>port_in16\<close> and \<open>port_in32\<close>.
\<close>

unbundle bit_operations_syntax

section \<open>The machine\<close>

datatype io_event =
    InB u16 u8
  | InW u16 u16
  | InL u16 u32
  | OutB u16 u8
  | OutW u16 u16
  | OutL u16 u32

record machine =
  ram :: mem
  vga :: mem
  col :: u32
  serial_base :: u16
  output_enabled :: bool
  io :: "io_event list"
  port_in8 :: "io_event list \<Rightarrow> u16 \<Rightarrow> u8"
  port_in16 :: "io_event list \<Rightarrow> u16 \<Rightarrow> u16"
  port_in32 :: "io_event list \<Rightarrow> u16 \<Rightarrow> u32"

section \<open>asm.h\<close>

definition inb :: "u16 \<Rightarrow> machine \<Rightarrow> u8 \<times> machine" where
  "inb port s = (let res = port_in8 s (io s) port in (res, s\<lparr>io := InB port res # io s\<rparr>))"

definition inw :: "u16 \<Rightarrow> machine \<Rightarrow> u16 \<times> machine" where
  "inw port s = (let res = port_in16 s (io s) port in (res, s\<lparr>io := InW port res # io s\<rparr>))"

definition inl :: "u16 \<Rightarrow> machine \<Rightarrow> u32 \<times> machine" where
  "inl port s = (let res = port_in32 s (io s) port in (res, s\<lparr>io := InL port res # io s\<rparr>))"

definition outb :: "u16 \<Rightarrow> u8 \<Rightarrow> machine \<Rightarrow> machine" where
  "outb port value s = s\<lparr>io := OutB port value # io s\<rparr>"

definition outw :: "u16 \<Rightarrow> u16 \<Rightarrow> machine \<Rightarrow> machine" where
  "outw port value s = s\<lparr>io := OutW port value # io s\<rparr>"

definition outl :: "u16 \<Rightarrow> u32 \<Rightarrow> machine \<Rightarrow> machine" where
  "outl port value s = s\<lparr>io := OutL port value # io s\<rparr>"

section \<open>bda.h\<close>

text \<open>The BIOS data area at 0x400: \<open>com_port[4]\<close>, \<open>lpt_port[4]\<close>, \<open>equipment\<close>.\<close>

definition bda_com0 :: u32 where "bda_com0 = 0x400"

definition bda_equipment :: u32 where "bda_equipment = 0x410"

definition serial_ports :: "mem \<Rightarrow> u32" where
  "serial_ports m = ucast (drop_bit 9 (load16 m bda_equipment)) AND 0x7"

section \<open>serial.c\<close>

text \<open>The registers, as offsets from the base port, and the bits written to them.\<close>

definition THR :: u16 where "THR = 0"
definition IER :: u16 where "IER = 1"
definition FCR :: u16 where "FCR = 2"
definition LCR :: u16 where "LCR = 3"
definition MCR :: u16 where "MCR = 4"
definition LSR :: u16 where "LSR = 5"
definition DLR_LOW :: u16 where "DLR_LOW = 0"
definition DLR_HIGH :: u16 where "DLR_HIGH = 1"

definition FCR_FIFO_ENABLE :: u8 where "FCR_FIFO_ENABLE = push_bit 0 1"
definition FCR_RECV_FIFO_RESET :: u8 where "FCR_RECV_FIFO_RESET = push_bit 1 1"
definition FCR_TMIT_FIFO_RESET :: u8 where "FCR_TMIT_FIFO_RESET = push_bit 2 1"
definition LCR_DATA_BITS_8 :: u8 where "LCR_DATA_BITS_8 = push_bit 0 3"
definition LCR_STOP_BITS_1 :: u8 where "LCR_STOP_BITS_1 = push_bit 2 0"
definition LCR_DLAB :: u8 where "LCR_DLAB = push_bit 7 1"
definition MCR_DTR :: u8 where "MCR_DTR = push_bit 0 1"
definition MCR_RTS :: u8 where "MCR_RTS = push_bit 1 1"
definition LSR_TMIT_HOLD_EMPTY :: u8 where "LSR_TMIT_HOLD_EMPTY = push_bit 5 1"

text \<open>
  \<open>while (!(inb(serial_base + LSR) & LSR_TMIT_HOLD_EMPTY))\<close> with the counter \<open>max_tries\<close>; the
  result says whether the line is ready.
\<close>

fun await_empty :: "nat \<Rightarrow> machine \<Rightarrow> bool \<times> machine" where
  "await_empty max_tries s =
     (let (x, s) = inb (serial_base s + LSR) s
      in if x AND LSR_TMIT_HOLD_EMPTY \<noteq> 0 then (True, s)
         else case max_tries of
                0 \<Rightarrow> (False, s\<lparr>output_enabled := False\<rparr>)
              | Suc n \<Rightarrow> await_empty n s)"

declare await_empty.simps [simp del]

definition serial_send :: "u32 \<Rightarrow> machine \<Rightarrow> machine" where
  "serial_send c s =
     (if \<not> output_enabled s then s
      else let (ready, s) = await_empty 0x10000 s
           in if ready then outb (serial_base s + THR) (ucast c) s else s)"

definition serial_init_port :: "u16 \<Rightarrow> machine \<Rightarrow> machine" where
  "serial_init_port base_port s =
     (let s = s\<lparr>output_enabled := True\<rparr>;
          s = s\<lparr>serial_base := base_port\<rparr>;
          s = outb (serial_base s + LCR) LCR_DLAB s;
          s = outb (serial_base s + DLR_LOW) 1 s;
          s = outb (serial_base s + DLR_HIGH) 0 s;
          s = outb (serial_base s + LCR) (LCR_DATA_BITS_8 OR LCR_STOP_BITS_1) s;
          s = outb (serial_base s + IER) 0 s;
          s = outb (serial_base s + FCR)
                (FCR_FIFO_ENABLE OR FCR_RECV_FIFO_RESET OR FCR_TMIT_FIFO_RESET) s;
          s = outb (serial_base s + MCR) (MCR_DTR OR MCR_RTS) s
      in s)"

definition serial_init :: "machine \<Rightarrow> machine" where
  "serial_init s = serial_init_port (load16 (ram s) bda_com0) s"

definition serial_disable :: "machine \<Rightarrow> machine" where
  "serial_disable s = s\<lparr>output_enabled := False\<rparr>"

section \<open>out_char and out_string of util.c\<close>

text \<open>\<open>BASE(ROW)\<close>: the address of a row of 80 cells of 2 bytes.\<close>

definition BASE :: "u32 \<Rightarrow> u32" where
  "BASE row = 0xb8000 + row * 160"

definition out_char :: "u32 \<Rightarrow> machine \<Rightarrow> machine" where
  "out_char value s =
     (let s = (if value \<noteq> 0x0A
               then s\<lparr>vga := store16 (vga s) (BASE 24 + 2 * col s) (0x0f00 OR ucast value),
                      col := col s + 1\<rparr>
               else s);
          s = (if col s \<ge> 80 \<or> value = 0x0A
               then (let p = BASE 0;
                         v = memcpy (vga s) p (p + 2 * 80) (24 * 160);
                         v = memset v (BASE 24) 0 160
                     in s\<lparr>col := 0, vga := v\<rparr>)
               else s);
          s = serial_send value s
      in if value = 0x0A then serial_send 0x0D s else s)"

text \<open>A \<open>char\<close> passed as an \<open>unsigned\<close> is sign-extended.\<close>

definition char_arg :: "u8 \<Rightarrow> u32" where
  "char_arg c = scast c"

text \<open>\<open>for (; *value; value++) out_char(*value);\<close> on the string stored at \<open>value\<close>.\<close>

partial_function (option) out_string :: "u32 \<Rightarrow> machine \<Rightarrow> (fault + unit \<times> machine) option" where
  "out_string value s =
     (let c = ram s value
      in if c \<noteq> 0 then out_string (value + 1) (out_char (char_arg c) s) else Some (Inr ((), s)))"

declare out_string.simps [code]

text \<open>The same loop on a literal.\<close>

definition out_lit :: "string \<Rightarrow> machine \<Rightarrow> machine" where
  "out_lit cs s = fold (\<lambda>c. out_char (char_arg (of_char c))) cs s"

section \<open>What output leaves alone\<close>

text \<open>
  \<open>quiet s s'\<close>: \<open>s'\<close> differs from \<open>s\<close> only in what the output devices own (the VGA window, the
  cursor, whether the serial line is still on, which is never switched on) and in the history of port accesses.
\<close>

definition quiet :: "machine \<Rightarrow> machine \<Rightarrow> bool" where
  "quiet s s' \<longleftrightarrow> ram s' = ram s \<and> serial_base s' = serial_base s
     \<and> port_in8 s' = port_in8 s \<and> port_in32 s' = port_in32 s
     \<and> (output_enabled s' \<longrightarrow> output_enabled s)"

lemma quiet_refl [simp, intro]: "quiet s s"
  by (simp add: quiet_def)

lemma quiet_trans [trans]: "quiet s t \<Longrightarrow> quiet t u \<Longrightarrow> quiet s u"
  by (simp add: quiet_def)

lemma quiet_inb: "quiet s (snd (inb p s))"
  by (simp add: quiet_def inb_def Let_def)

lemma quiet_inl: "quiet s (snd (inl p s))"
  by (simp add: quiet_def inl_def Let_def)

lemma quiet_outb: "quiet s (outb p v s)"
  by (simp add: quiet_def outb_def)

lemma quiet_outl: "quiet s (outl p v s)"
  by (simp add: quiet_def outl_def)

lemma quiet_await: "quiet s (snd (await_empty n s))"
proof (induction n arbitrary: s)
  case 0
  show ?case by (subst await_empty.simps) (simp add: inb_def Let_def quiet_def)
next
  case (Suc n)
  have "quiet s (snd (await_empty n (snd (inb (serial_base s + LSR) s))))"
    using quiet_inb Suc.IH by (rule quiet_trans)
  then show ?case
    by (subst await_empty.simps) (simp add: quiet_inb split_beta Let_def)
qed

lemma quiet_serial_send: "quiet s (serial_send c s)"
  using quiet_await [of s 65536] quiet_trans [OF quiet_await quiet_outb]
  by (simp add: serial_send_def split_beta Let_def)

lemma quiet_upd [simp]:
  "quiet s (t\<lparr>vga := v\<rparr>) = quiet s t" "quiet s (t\<lparr>col := c\<rparr>) = quiet s t"
  by (simp_all add: quiet_def)

lemma quiet_off [intro]: "quiet s t \<Longrightarrow> quiet s (t\<lparr>output_enabled := False\<rparr>)"
  by (simp add: quiet_def)

lemma quiet_out_char: "quiet s (out_char v s)"
proof -
  have trans: "quiet s t \<Longrightarrow> quiet s (serial_send c t)" for t c
    using quiet_serial_send by (rule quiet_trans [rotated])
  show ?thesis
    unfolding out_char_def Let_def by (auto intro!: trans)
qed

lemma quiet_out_lit: "quiet s (out_lit cs s)"
  unfolding out_lit_def
  by (induction cs arbitrary: s) (auto intro: quiet_trans [OF quiet_out_char])

end
