(* ===== verification/Console_Proof.thy ===== *)
theory Console_Proof imports Console begin

text \<open>
  What the output devices do: the text window scrolls by whole lines and the cursor stays in the
  last one; a byte goes out on the serial line at most once, after a bounded number of polls, and
  a line that never gets ready is switched off.
\<close>

section \<open>The text window\<close>

text \<open>The window: 25 rows of 160 bytes.\<close>

definition screen :: "machine \<Rightarrow> u8 list" where
  "screen s = read_bytes (vga s) 0xb8000 4000"

definition scroll_up :: "u8 list \<Rightarrow> u8 list" where
  "scroll_up w = drop 160 w @ replicate 160 0"

definition put_cell :: "u32 \<Rightarrow> u32 \<Rightarrow> u8 list \<Rightarrow> u8 list" where
  "put_cell c v w = w[3840 + 2 * unat c := ucast v, 3841 + 2 * unat c := ucast (drop_bit 8 (0xf00 OR ucast v :: u16))]"

lemma serial_send_screen [simp]:
  "vga (serial_send c s) = vga s" "col (serial_send c s) = col s"
proof -
  have "vga (snd (await_empty n s)) = vga s \<and> col (snd (await_empty n s)) = col s" for n s
  proof (induction n arbitrary: s)
    case 0
    show ?case by (subst (1 2) await_empty.simps) (simp add: inb_def Let_def)
  next
    case (Suc n)
    show ?case
      using Suc by (subst (1 2) await_empty.simps) (simp add: inb_def Let_def split_beta)
  qed
  then show "vga (serial_send c s) = vga s" "col (serial_send c s) = col s"
    by (simp_all add: serial_send_def split_beta outb_def)
qed

lemma scroll_window:
  "read_bytes (memset (memcpy v 0xb8000 (0xb8000 + 160) 3840) 0xb8f00 0 160) 0xb8000 4000
    = scroll_up (read_bytes v 0xb8000 4000)"
proof -
  let ?v = "memcpy v 0xb8000 (0xb8000 + 160) 3840"
  have copy: "?v = write_bytes v (0xb8000 + of_nat 0) (read_bytes v (0xb8000 + 160) 3840)"
    by (subst memcpy_eq) simp_all
  have w1: "read_bytes ?v 0xb8000 4000
      = read_bytes v (0xb8000 + 160) 3840 @ drop 3840 (read_bytes v 0xb8000 4000)"
    unfolding copy by (subst read_write_within) (simp_all add: fits_def)
  have set: "memset ?v 0xb8f00 0 160 = write_bytes ?v (0xb8000 + of_nat 3840) (replicate 160 0)"
    unfolding memset_eq by simp
  have w2: "read_bytes (memset ?v 0xb8f00 0 160) 0xb8000 4000
      = take 3840 (read_bytes ?v 0xb8000 4000) @ replicate 160 0"
    unfolding set by (subst read_write_within) (simp_all add: fits_def)
  have "read_bytes v 0xb8000 4000 = read_bytes v 0xb8000 160 @ read_bytes v (0xb8000 + of_nat 160) 3840"
    using read_bytes_append [of v "0xb8000" 160 3840] by simp
  then have "drop 160 (read_bytes v 0xb8000 4000) = read_bytes v (0xb8000 + 160) 3840" by simp
  then show ?thesis
    unfolding scroll_up_def w2 w1 by simp
qed

lemma put_window:
  assumes "col s < 80"
  shows "read_bytes (store16 (vga s) (0xb8000 + 24 * 160 + 2 * col s) (0xf00 OR ucast v)) 0xb8000 4000
    = put_cell (col s) v (screen s)"
proof -
  have c: "unat (col s) < 80" using assms by (simp add: word_less_nat_alt)
  define off where "off = 3840 + 2 * unat (col s)"
  have p: "0xb8000 + 24 * 160 + 2 * col s = 0xb8000 + of_nat off"
    by (simp add: off_def)
  have v: "ucast (0xf00 OR ucast v :: u16) = (ucast v :: u8)"
    by (rule bit_word_eqI) (auto simp: bit_simps numeral_eq_Suc less_Suc_eq)
  have le: "le_bytes 2 (0xf00 OR ucast v :: u16) = [ucast v, ucast (drop_bit 8 (0xf00 OR ucast v :: u16))]"
    using v by (simp add: numeral_2_eq_2)
  have "read_bytes (store16 (vga s) (0xb8000 + 24 * 160 + 2 * col s) (0xf00 OR ucast v)) 0xb8000 4000
      = take off (screen s) @ [ucast v, ucast (drop_bit 8 (0xf00 OR ucast v :: u16))]
        @ drop (off + 2) (screen s)"
    unfolding p store16_def le screen_def
    by (subst read_write_within) (use c in \<open>simp_all add: fits_def off_def\<close>)
  also have "\<dots> = put_cell (col s) v (screen s)"
  proof -
    have "length (screen s) = 4000" by (simp add: screen_def)
    then have "off + 1 < length (screen s)" using c by (simp add: off_def)
    then show ?thesis
      unfolding put_cell_def off_def [symmetric] by (simp add: upd_conv_take_nth_drop off_def take_update_swap)
  qed
  finally show ?thesis .
qed

lemma out_char_window:
  assumes "col s < 80"
  shows "screen (out_char v s) =
      (if v = 0x0A then scroll_up (screen s)
       else if col s = 79 then scroll_up (put_cell (col s) v (screen s))
       else put_cell (col s) v (screen s))"
    and "col (out_char v s) = (if v = 0x0A \<or> col s = 79 then 0 else col s + 1)"
proof -
  have full: "80 \<le> col s + 1 \<longleftrightarrow> col s = 79"
  proof -
    have "unat (col s) < 80" using assms by (simp add: word_less_nat_alt)
    then show ?thesis
      by (auto simp: word_le_nat_alt unat_add_no_wrap word_unat_eq_iff)
  qed
  note put = put_window [OF assms, of v, unfolded screen_def]
  have base: "BASE 24 = 0xb8000 + 24 * 160" "BASE 0 = 0xb8000" by (simp_all add: BASE_def)
  have "screen (out_char v s) =
      (if v = 0x0A then scroll_up (screen s)
       else if col s = 79 then scroll_up (put_cell (col s) v (screen s))
       else put_cell (col s) v (screen s))
    \<and> col (out_char v s) = (if v = 0x0A \<or> col s = 79 then 0 else col s + 1)"
    using assms put scroll_window [of "vga s"]
      scroll_window [of "store16 (vga s) (0xb8000 + 24 * 160 + 2 * col s) (0xf00 OR ucast v)"]
    unfolding out_char_def Let_def screen_def base
    by (cases "v = 0x0A"; cases "col s = 79") (simp_all add: full)
  then show "screen (out_char v s) =
      (if v = 0x0A then scroll_up (screen s)
       else if col s = 79 then scroll_up (put_cell (col s) v (screen s))
       else put_cell (col s) v (screen s))"
    and "col (out_char v s) = (if v = 0x0A \<or> col s = 79 then 0 else col s + 1)"
    by blast+
qed

text \<open>
  C20. Printing a character on the text window: a newline, or a character in the last of the 80
  columns, moves the 25 lines up by one and clears the last one; any other character changes its
  own cell of the last line only and moves the cursor by one. The cursor stays within the line.
\<close>

theorem out_char_screen:
  assumes "col s < 80"
  shows "screen (out_char v s) =
      (if v = 0x0A then scroll_up (screen s)
       else if col s = 79 then scroll_up (put_cell (col s) v (screen s))
       else put_cell (col s) v (screen s))
    \<and> col (out_char v s) = (if v = 0x0A \<or> col s = 79 then 0 else col s + 1)
    \<and> col (out_char v s) < 80"
proof -
  have "col s + 1 < 80" if "col s \<noteq> 79"
  proof -
    have "unat (col s) < 80" "unat (col s) \<noteq> 79"
      using assms that by (simp_all add: word_less_nat_alt word_unat_eq_iff)
    then show ?thesis by (simp add: word_less_nat_alt unat_add_no_wrap)
  qed
  then show ?thesis
    using out_char_window [OF assms] by simp
qed

text \<open>A machine with empty memory and devices that always answer 0.\<close>

definition still_machine :: machine where
  "still_machine = \<lparr>ram = (\<lambda>_. 0), vga = (\<lambda>_. 0), col = 0, serial_base = 0, output_enabled = False,
     io = [], port_in8 = (\<lambda>_ _. 0), port_in16 = (\<lambda>_ _. 0), port_in32 = (\<lambda>_ _. 0)\<rparr>"

lemma still_machine_simps [simp]:
  "ram still_machine = (\<lambda>_. 0)" "col still_machine = 0" "output_enabled still_machine = False"
  "io still_machine = []"
  by (simp_all add: still_machine_def)

lemma out_char_screen_witness:
  "screen (out_char 0x41 still_machine) = put_cell 0 0x41 (screen still_machine)
    \<and> col (out_char 0x41 still_machine) = 1"
  using out_char_screen [of still_machine "0x41"] by simp

text \<open>
  The cursor is in the last line. From there on, output writes nothing outside the window, and the cursor stays in the line;
  from a column behind it the first character would be written behind the window.
\<close>

definition in_line :: "machine \<Rightarrow> bool" where
  "in_line s \<longleftrightarrow> col s < 80"

definition keeps_window :: "machine \<Rightarrow> machine \<Rightarrow> bool" where
  "keeps_window s s' \<longleftrightarrow> (in_line s \<longrightarrow> in_line s' \<and> (\<forall>a. \<not> in_region 0xb8000 4000 a \<longrightarrow> vga s' a = vga s a))"

lemma scroll_outside:
  assumes "\<not> in_region 0xb8000 4000 a"
  shows "memset (memcpy v 0xb8000 (0xb8000 + 160) 3840) 0xb8f00 0 160 a = v a"
proof -
  have f: "fits 0xb8000 4000" "fits 0xb8000 3840" "fits 0xb8f00 160" by (simp_all add: fits_def)
  have "\<not> in_region 0xb8000 3840 a" "\<not> in_region 0xb8f00 160 a"
    using assms unfolding in_region_nat [OF f(1)] in_region_nat [OF f(2)] in_region_nat [OF f(3)] by auto
  then show ?thesis by (subst memcpy_eq) (simp_all add: memset_eq write_bytes_outside)
qed

lemma put_outside:
  assumes "col s < 80" and "\<not> in_region 0xb8000 4000 a"
  shows "store16 (vga s) (0xb8000 + 24 * 160 + 2 * col s) v a = vga s a"
proof -
  have c: "unat (col s) < 80" using assms(1) by (simp add: word_less_nat_alt)
  have u: "unat (0xb8000 + 24 * 160 + 2 * col s) = 0xb8f00 + 2 * unat (col s)"
    using unat_add_of_nat [of "0xb8f00 :: u32" "2 * unat (col s)"] c by simp
  have f: "fits 0xb8000 4000" "fits (0xb8000 + 24 * 160 + 2 * col s) 2" using c u by (simp_all add: fits_def)
  have "\<not> in_region (0xb8000 + 24 * 160 + 2 * col s) 2 a"
    using assms(2) c unfolding in_region_nat [OF f(1)] in_region_nat [OF f(2)] u by auto
  then show ?thesis unfolding store16_def by (rule write_bytes_outside [rotated, of _ "le_bytes 2 v", simplified])
qed

lemma keeps_window_out_char: "keeps_window s (out_char v s)"
  unfolding keeps_window_def in_line_def
proof (intro impI conjI allI)
  assume c: "col s < 80"
  then show "col (out_char v s) < 80"
    using unat_add_no_wrap [of "col s" 1] by (auto simp: out_char_window(2) word_less_nat_alt word_unat_eq_iff)
  fix a :: u32 assume a: "\<not> in_region 0xb8000 4000 a"
  note put = put_outside [OF c a] and scroll = scroll_outside [OF a]
  have base: "BASE 24 = 0xb8000 + 24 * 160" "BASE 0 = 0xb8000" by (simp_all add: BASE_def)
  show "vga (out_char v s) a = vga s a"
    using put scroll [of "vga s"] scroll [of "store16 (vga s) (0xb8000 + 24 * 160 + 2 * col s) (0xf00 OR ucast v)"]
    unfolding out_char_def Let_def base by (simp split del: if_split) simp
qed

section \<open>The serial line\<close>

text \<open>The line-status reads of one \<open>serial_send\<close>, none of which but the last shows the ready bit.\<close>

definition polls :: "u16 \<Rightarrow> io_event list \<Rightarrow> bool \<Rightarrow> bool" where
  "polls base es ready \<longleftrightarrow> es \<noteq> []
     \<and> (\<forall>e\<in>set es. \<exists>x. e = InB (base + LSR) x)
     \<and> (\<forall>e\<in>set (tl es). \<exists>x. e = InB (base + LSR) x \<and> x AND LSR_TMIT_HOLD_EMPTY = 0)
     \<and> (\<exists>x. hd es = InB (base + LSR) x \<and> (x AND LSR_TMIT_HOLD_EMPTY \<noteq> 0) = ready)"

lemma await_empty_polls:
  "\<exists>es ready. polls (serial_base s) es ready \<and> length es \<le> n + 1 \<and> (ready \<or> length es = n + 1)
    \<and> await_empty n s = (ready,
        if ready then s\<lparr>io := es @ io s\<rparr> else s\<lparr>io := es @ io s, output_enabled := False\<rparr>)"
proof (induction n arbitrary: s)
  case 0
  let ?x = "port_in8 s (io s) (serial_base s + LSR)"
  show ?case
    by (intro exI [of _ "[InB (serial_base s + LSR) ?x]"] exI [of _ "?x AND LSR_TMIT_HOLD_EMPTY \<noteq> 0"],
        subst await_empty.simps) (simp add: inb_def Let_def polls_def)
next
  case (Suc n)
  let ?x = "port_in8 s (io s) (serial_base s + LSR)"
  let ?e = "InB (serial_base s + LSR) ?x"
  show ?case
  proof (cases "?x AND LSR_TMIT_HOLD_EMPTY = 0")
    case False
    then show ?thesis
      by (intro exI [of _ "[?e]"] exI [of _ True], subst await_empty.simps)
        (simp add: inb_def Let_def polls_def)
  next
    case True
    let ?s = "s\<lparr>io := ?e # io s\<rparr>"
    obtain es ready where IH: "polls (serial_base s) es ready" "length es \<le> n + 1"
      "ready \<or> length es = n + 1" "await_empty n ?s = (ready,
        if ready then ?s\<lparr>io := es @ io ?s\<rparr> else ?s\<lparr>io := es @ io ?s, output_enabled := False\<rparr>)"
      using Suc.IH [of ?s] by auto
    then have "polls (serial_base s) (es @ [?e]) ready"
      using True by (cases es) (auto simp: polls_def)
    moreover have "await_empty (Suc n) s = await_empty n ?s"
      using True by (subst await_empty.simps) (simp add: inb_def Let_def)
    ultimately show ?thesis
      using IH by (intro exI [of _ "es @ [?e]"] exI [of _ ready]) auto
  qed
qed

text \<open>
  C21. \<open>serial_send\<close> never hangs: it polls the line status at most 65537 times. If the line gets
  ready the byte is written to it exactly once; if not, serial output is switched off and nothing
  is written. A line that is off is not touched at all, and nothing else of the machine changes.
\<close>

theorem serial_send_bounded:
  "(if output_enabled s
    then \<exists>es ready. polls (serial_base s) es ready \<and> length es \<le> 65537
      \<and> (ready \<or> length es = 65537)
      \<and> serial_send c s =
        (if ready then s\<lparr>io := OutB (serial_base s + THR) (ucast c) # es @ io s\<rparr>
         else s\<lparr>io := es @ io s, output_enabled := False\<rparr>)
    else serial_send c s = s)"
proof -
  obtain es ready where "polls (serial_base s) es ready" "length es \<le> 65536 + 1"
    "ready \<or> length es = 65536 + 1" "await_empty 65536 s = (ready,
      if ready then s\<lparr>io := es @ io s\<rparr> else s\<lparr>io := es @ io s, output_enabled := False\<rparr>)"
    using await_empty_polls by blast
  moreover have "serial_send c s = (if ready then s\<lparr>io := OutB (serial_base s + THR) (ucast c) # es @ io s\<rparr>
      else s\<lparr>io := es @ io s, output_enabled := False\<rparr>)" if "output_enabled s"
    using that calculation(4) unfolding serial_send_def by (cases ready) (simp_all add: outb_def)
  ultimately have "output_enabled s \<Longrightarrow> ?thesis"
    by (simp only: if_True) (intro exI [of _ es] exI [of _ ready], simp)
  moreover have "\<not> output_enabled s \<Longrightarrow> ?thesis"
    by (simp add: serial_send_def)
  ultimately show ?thesis by blast
qed

end
