(* ===== verification/Printf.thy ===== *)
theory Printf imports Console Qdivrem begin

text \<open>
  printf.c. A format is always a literal of the program, so it is a \<open>string\<close> without its NUL.
  An argument is one of the kinds \<open>va_arg\<close> asks for: a 32-bit word (an \<open>int\<close>, an \<open>unsigned\<close>, a
  pointer), a 64-bit one, or a literal where the program passes one for \<open>%s\<close>. Asking for a
  missing argument or one of another kind is undefined in C and \<open>None\<close> here.

  The 64-bit divisions are the compiler's calls of \<open>__umoddi3\<close> and \<open>__udivdi3\<close>.
\<close>

unbundle bit_operations_syntax

datatype va =
    Va_word u32
  | Va_quad u64
  | Va_lit string

datatype fmt_state = PLAIN | INFMT

definition hex :: "u8 list" where
  "hex = map of_char ''0123456789abcdef''"

section \<open>Digits\<close>

text \<open>
  \<open>do *s++ = '0' + ull % 10U; while (ull /= 10U);\<close>: \<open>buf\<close> up to \<open>s\<close> is the list, first
  element first, so the last digit of the number comes first.
\<close>

partial_function (option) dec_loop ::
    "(u64 \<Rightarrow> u64 \<Rightarrow> (fault + u64) option) \<Rightarrow> (u64 \<Rightarrow> u64 \<Rightarrow> (fault + u64) option) \<Rightarrow> u64 \<Rightarrow> u8 list
     \<Rightarrow> (fault + u8 list) option" where
  "dec_loop udiv umod ull buf =
     (case umod ull 10 of
        None \<Rightarrow> None
      | Some (Inl e) \<Rightarrow> Some (Inl e)
      | Some (Inr r) \<Rightarrow>
          (let buf = buf @ [0x30 + ucast r]
           in case udiv ull 10 of
                None \<Rightarrow> None
              | Some (Inl e) \<Rightarrow> Some (Inl e)
              | Some (Inr ull) \<Rightarrow>
                  if ull \<noteq> 0 then dec_loop udiv umod ull buf else Some (Inr buf)))"

text \<open>\<open>do *s++ = hex[ull & 0xF]; while (ull >>= 4);\<close>\<close>

partial_function (option) hex_loop :: "u64 \<Rightarrow> u8 list \<Rightarrow> u8 list option" where
  "hex_loop ull buf =
     (let buf = buf @ [hex ! unat (ull AND 0xF)]; ull = drop_bit 4 ull
      in if ull \<noteq> 0 then hex_loop ull buf else Some buf)"

text \<open>\<open>while ((s - buf) < fill--) out_char('0');\<close>: the comparison is unsigned.\<close>

function pad_loop :: "u32 \<Rightarrow> u32 \<Rightarrow> machine \<Rightarrow> machine" where
  "pad_loop n fill s = (if n < fill then pad_loop n (fill - 1) (out_char 0x30 s) else s)"
  by pat_completeness auto
termination
proof (relation "measure (\<lambda>(n, fill, s). unat fill)")
  fix n fill :: u32 and s :: machine
  assume "n < fill"
  then have "fill \<noteq> 0" by auto
  then show "((n, fill - 1, out_char 0x30 s), n, fill, s) \<in> measure (\<lambda>(n, fill, s). unat fill)"
    by (simp add: unat_minus_one unat_gt_0)
qed simp

declare pad_loop.simps [simp del]

text \<open>From the label \<open>dumpbuf\<close>: padding, then the digits backwards.\<close>

definition dumpbuf :: "u8 list \<Rightarrow> u32 \<Rightarrow> machine \<Rightarrow> machine" where
  "dumpbuf buf fill s =
     fold (\<lambda>c. out_char (char_arg c)) (rev buf) (pad_loop (of_nat (length buf)) fill s)"

section \<open>Fetching arguments\<close>

definition va_uint :: "u32 \<Rightarrow> va list \<Rightarrow> (u64 \<times> va list) option" where
  "va_uint longness ap =
     (case ap of
        Va_word w # ap \<Rightarrow> if longness < 2 then Some (ucast w, ap) else None
      | Va_quad q # ap \<Rightarrow> if longness < 2 then None else Some (q, ap)
      | _ \<Rightarrow> None)"

section \<open>vprintf\<close>

definition conversion_d :: "u32 \<Rightarrow> u32 \<Rightarrow> va list \<Rightarrow> (machine, va list) comp" where
  "conversion_d longness fill ap =
     andthen (reads (\<lambda>s. va_uint longness ap)) (\<lambda>(ull, ap).
     andthen (\<lambda>s. case dec_loop (udivdi3 0) (umoddi3 0) ull [] of
                None \<Rightarrow> None | Some (Inl e) \<Rightarrow> Some (Inl e) | Some (Inr buf) \<Rightarrow> Some (Inr (buf, s))) (\<lambda>buf.
     andthen (modifies (dumpbuf buf fill)) (\<lambda>_.
     ret ap)))"

definition conversion_x :: "u32 \<Rightarrow> u32 \<Rightarrow> va list \<Rightarrow> (machine, va list) comp" where
  "conversion_x longness fill ap =
     andthen (reads (\<lambda>s. va_uint longness ap)) (\<lambda>(ull, ap).
     andthen (reads (\<lambda>s. hex_loop ull [])) (\<lambda>buf.
     andthen (modifies (dumpbuf buf fill)) (\<lambda>_.
     ret ap)))"

definition conversion_c :: "va list \<Rightarrow> (machine, va list) comp" where
  "conversion_c ap =
     (case ap of
        Va_word w # ap \<Rightarrow> andthen (modifies (out_char w)) (\<lambda>_. ret ap)
      | _ \<Rightarrow> (\<lambda>s. None))"

definition conversion_s :: "va list \<Rightarrow> (machine, va list) comp" where
  "conversion_s ap =
     (case ap of
        Va_word p # ap \<Rightarrow> andthen (out_string p) (\<lambda>_. ret ap)
      | Va_lit cs # ap \<Rightarrow> andthen (modifies (out_lit cs)) (\<lambda>_. ret ap)
      | _ \<Rightarrow> (\<lambda>s. None))"

text \<open>The loop over the format, with its state machine and the variables it carries.\<close>

primrec vprintf :: "string \<Rightarrow> va list \<Rightarrow> fmt_state \<Rightarrow> u32 \<Rightarrow> u32 \<Rightarrow> (machine, unit) comp" where
  "vprintf [] ap state longness fill = ret ()"
| "vprintf (c # fmt) ap state longness fill =
     (case state of
        PLAIN \<Rightarrow>
          if c = CHR ''%'' then vprintf fmt ap INFMT 0 0
          else andthen (modifies (out_char (char_arg (of_char c)))) (\<lambda>_. vprintf fmt ap PLAIN 0 0)
      | INFMT \<Rightarrow>
          if c \<in> set ''0123456789''
          then vprintf fmt ap INFMT longness (of_char c - of_char (CHR ''0''))
          else if c = CHR ''l'' then vprintf fmt ap INFMT (longness + 1) fill
          else if c = CHR ''c''
          then andthen (conversion_c ap) (\<lambda>ap. vprintf fmt ap PLAIN longness fill)
          else if c = CHR ''s''
          then andthen (conversion_s ap) (\<lambda>ap. vprintf fmt ap PLAIN longness fill)
          else if c = CHR ''d'' \<or> c = CHR ''u''
          then andthen (conversion_d longness fill ap) (\<lambda>ap. vprintf fmt ap PLAIN longness fill)
          else if c = CHR ''p'' \<or> c = CHR ''x''
          then andthen (conversion_x longness fill ap) (\<lambda>ap. vprintf fmt ap PLAIN longness fill)
          else vprintf fmt ap INFMT longness fill)"

definition printf :: "string \<Rightarrow> va list \<Rightarrow> (machine, unit) comp" where
  "printf fmt ap = vprintf fmt ap PLAIN 0 0"

declare dec_loop.simps [code] hex_loop.simps [code]

end
