(* ===== verification/Platform.thy ===== *)
theory Platform imports Printf begin

text \<open>
  The parts of util.c and reboot.c that deal with time and with the end of the program: waiting with
  the interval timer, the reset through the keyboard controller, and \<open>__exit\<close>; and the macro \<open>assert\<close> of util.h that ends there.
\<close>

unbundle bit_operations_syntax

section \<open>wait\<close>

text \<open>
  \<open>while (ms > 0)\<close> with the variables \<open>ms\<close> and \<open>old\<close>. What is subtracted from \<open>ms\<close> is an
  \<open>unsigned char\<close>, so \<open>ms\<close> stays in the range of an \<open>int\<close>.
\<close>

partial_function (option) wait_loop :: "int \<Rightarrow> u8 \<Rightarrow> machine \<Rightarrow> (fault + unit \<times> machine) option" where
  "wait_loop ms old s =
     (if ms > 0 then
        let s = outb 0x43 0 s;
            (state, s) = inb 0x40 s
        in wait_loop (ms - uint (old - state)) state s
      else Some (Inr ((), s)))"

text \<open>
  \<open>ms *= 1193\<close> is a multiplication of 32-bit \<open>int\<close>s. C gives a program in which it overflows no meaning, so no
  result is claimed for one.
\<close>

definition wait :: "int \<Rightarrow> (machine, unit) comp" where
  "wait ms s =
     (if - (2 ^ 31) \<le> ms * 1193 \<and> ms * 1193 < 2 ^ 31
      then wait_loop (ms * 1193) 0 (outb 0x40 0 (outb 0x43 0x14 s))
      else None)"

section \<open>reboot\<close>

text \<open>\<open>kb_wait\<close>: \<open>n\<close> rounds are left.\<close>

primrec kb_wait_loop :: "nat \<Rightarrow> (machine, unit) comp" where
  "kb_wait_loop 0 = ret ()"
| "kb_wait_loop (Suc n) =
     andthen (runs (inb 0x64)) (\<lambda>x.
     if x AND 0x02 = 0 then ret ()
     else andthen (wait 1) (\<lambda>_. kb_wait_loop n))"

definition kb_wait :: "(machine, unit) comp" where
  "kb_wait = kb_wait_loop 0x10000"

text \<open>The loop that pulses the reset line.\<close>

primrec pulse_loop :: "nat \<Rightarrow> (machine, unit) comp" where
  "pulse_loop 0 = ret ()"
| "pulse_loop (Suc n) =
     andthen kb_wait (\<lambda>_.
     andthen (modifies (outb 0x64 0xFE)) (\<lambda>_.
     andthen (wait 1) (\<lambda>_. pulse_loop n)))"

text \<open>
  \<open>while (1) {}\<close>: the processor stays in this loop and nothing changes any more. It is a result of its own, with the
  machine as it stays, and not a missing one, so that what has been done before it can be seen.
\<close>

datatype halted = Spinning

definition spin :: "(machine, halted) comp" where
  "spin = ret Spinning"

definition reboot :: "(machine, halted) comp" where
  "reboot =
     andthen (modifies (out_lit ''Reset!\<newline>'')) (\<lambda>_.
     andthen (pulse_loop 10) (\<lambda>_.
     andthen (modifies (out_lit ''Reboot didn't work.\<newline>'')) (\<lambda>_.
     spin)))"

section \<open>__exit\<close>

primrec delay_loop :: "nat \<Rightarrow> (machine, unit) comp" where
  "delay_loop 0 = ret ()"
| "delay_loop (Suc n) =
     andthen (wait 1000) (\<lambda>_.
     andthen (modifies (out_char (char_arg (of_char (CHR ''.''))))) (\<lambda>_. delay_loop n))"

text \<open>It is \<open>_Noreturn\<close>: its only result is how it stays in \<open>reboot\<close>.\<close>

definition exit_program :: "u32 \<Rightarrow> (machine, halted) comp" where
  "exit_program status =
     andthen (printf ''\<newline>Exit with status %u.\<newline>Rebooting...\<newline>'' [Va_word status]) (\<lambda>_.
     andthen (delay_loop 300) (\<lambda>_.
     andthen (printf ''-> OK, reboot now!\<newline>'' []) (\<lambda>_.
     reboot)))"

section \<open>assert\<close>

text \<open>
  The macro \<open>assert(X, msg, args...)\<close> of util.h: \<open>expr\<close>, \<open>file\<close> and \<open>line\<close> are the stringified \<open>X\<close>, \<open>__FILE__\<close>
  and \<open>__LINE__\<close>. The message is the end of the format. The code after it is reached with the result \<open>None\<close> only.
\<close>

definition assert_macro :: "bool \<Rightarrow> string \<Rightarrow> string \<Rightarrow> u32 \<Rightarrow> string \<Rightarrow> va list \<Rightarrow> (machine, halted option) comp" where
  "assert_macro X expr file line msg args =
     (if \<not> X then
        andthen (printf (''Assertion \"%s\" failed at %s:%d\<newline>'' @ msg) ([Va_lit expr, Va_lit file, Va_word line] @ args)) (\<lambda>_.
        andthen (exit_program 0xbad) (\<lambda>h. ret (Some h)))
      else ret None)"

declare wait_loop.simps [code]

end
