(* ===== verification/Mbi.thy ===== *)
theory Mbi imports Printf begin

text \<open>
  mbi.h and mbi.c: the Multiboot1 information and the relocation of the boot modules. The
  structures stay in memory, where the boot loader put them; a structure is named by its address
  and a field is a 32-bit load or store at its offset. Loops over the memory map follow the size
  fields found there and need not end (\<open>None\<close>).
\<close>

unbundle bit_operations_syntax

section \<open>mbi.h\<close>

definition MBI_MAGIC :: u32 where "MBI_MAGIC = 0x2badb002"
definition MBI_FLAG_MEM :: u32 where "MBI_FLAG_MEM = push_bit 0 1"
definition MBI_FLAG_CMDLINE :: u32 where "MBI_FLAG_CMDLINE = push_bit 2 1"
definition MBI_FLAG_MODS :: u32 where "MBI_FLAG_MODS = push_bit 3 1"
definition MBI_FLAG_MMAP :: u32 where "MBI_FLAG_MMAP = push_bit 6 1"
definition MMAP_AVAILABLE :: u32 where "MMAP_AVAILABLE = 1"

text \<open>\<open>struct mbi\<close>\<close>

definition mbi_flags :: "mem \<Rightarrow> u32 \<Rightarrow> u32" where "mbi_flags m mbi = load32 m mbi"
definition mbi_cmdline :: "mem \<Rightarrow> u32 \<Rightarrow> u32" where "mbi_cmdline m mbi = load32 m (mbi + 16)"
definition mbi_mods_count :: "mem \<Rightarrow> u32 \<Rightarrow> u32" where "mbi_mods_count m mbi = load32 m (mbi + 20)"
definition mbi_mods_addr :: "mem \<Rightarrow> u32 \<Rightarrow> u32" where "mbi_mods_addr m mbi = load32 m (mbi + 24)"
definition mbi_mmap_length :: "mem \<Rightarrow> u32 \<Rightarrow> u32" where "mbi_mmap_length m mbi = load32 m (mbi + 44)"
definition mbi_mmap_addr :: "mem \<Rightarrow> u32 \<Rightarrow> u32" where "mbi_mmap_addr m mbi = load32 m (mbi + 48)"

text \<open>\<open>struct module\<close>: element \<open>i\<close> of the array at \<open>mods\<close>, and its fields.\<close>

definition module_ptr :: "u32 \<Rightarrow> nat \<Rightarrow> u32" where "module_ptr mods i = mods + 16 * of_nat i"
definition mod_start :: "mem \<Rightarrow> u32 \<Rightarrow> u32" where "mod_start m p = load32 m p"
definition mod_end :: "mem \<Rightarrow> u32 \<Rightarrow> u32" where "mod_end m p = load32 m (p + 4)"
definition mod_string :: "mem \<Rightarrow> u32 \<Rightarrow> u32" where "mod_string m p = load32 m (p + 8)"

text \<open>\<open>memory_map_t\<close>: the fields after \<open>size\<close>, addresses and lengths in two halves.\<close>

definition mmap_size :: "mem \<Rightarrow> u32 \<Rightarrow> u32" where "mmap_size m p = load32 m p"
definition mmap_type :: "mem \<Rightarrow> u32 \<Rightarrow> u32" where "mmap_type m p = load32 m (p + 20)"

definition mbi_memory_base_addr :: "mem \<Rightarrow> u32 \<Rightarrow> u64" where
  "mbi_memory_base_addr m p = push_bit 32 (ucast (load32 m (p + 8))) OR ucast (load32 m (p + 4))"

definition mbi_memory_length :: "mem \<Rightarrow> u32 \<Rightarrow> u64" where
  "mbi_memory_length m p = push_bit 32 (ucast (load32 m (p + 16))) OR ucast (load32 m (p + 12))"

definition mbi_memory_map_next :: "mem \<Rightarrow> u32 \<Rightarrow> u32 \<Rightarrow> u32" where
  "mbi_memory_map_next m mmap mmap_end =
     (let nxt = mmap_size m mmap + mmap + 4 in if nxt < mmap_end then nxt else 0)"

section \<open>mbi_find_memory\<close>

text \<open>
  The body of the loop for one entry: the block it offers, rounded to pages, and the block it
  makes of it below \<open>limit_to\<close>. \<open>best\<close> is \<open>*block_start_out\<close>, once a block is found.
\<close>

definition page_block :: "mem \<Rightarrow> u32 \<Rightarrow> (u64 \<times> u64) option" where
  "page_block m mmap =
     (let block_len = mbi_memory_length m mmap;
          block_addr = mbi_memory_base_addr m mmap;
          nblock_addr = (block_addr + 0xFFF) AND NOT 0xFFF
      in if nblock_addr > block_addr + block_len then None
         else Some (nblock_addr, (block_len - (nblock_addr - block_addr)) AND NOT 0xFFF))"

definition take_block :: "mem \<Rightarrow> u32 \<Rightarrow> u32 \<Rightarrow> u64 \<Rightarrow> u32 option \<Rightarrow> u32 option" where
  "take_block m mmap len limit_to best =
     (case page_block m mmap of
        None \<Rightarrow> None
      | Some (block_addr, block_len) \<Rightarrow>
          if mmap_type m mmap = MMAP_AVAILABLE \<and> block_len \<ge> ucast len
             \<and> block_addr \<le> limit_to - ucast len
          then (if (case best of None \<Rightarrow> False | Some start \<Rightarrow> ucast start > block_addr) then None
                else (let top_addr = block_addr + block_len;
                          top_addr = (if top_addr > limit_to then limit_to else top_addr)
                      in Some (ucast top_addr - len)))
          else None)"

partial_function (option) find_loop ::
    "mem \<Rightarrow> u32 \<Rightarrow> u32 \<Rightarrow> u32 \<Rightarrow> bool \<Rightarrow> u64 \<Rightarrow> u32 option \<Rightarrow> u32 option option" where
  "find_loop m mmap mmap_end len highest limit_to best =
     (if mmap \<noteq> 0
      then (case take_block m mmap len limit_to best of
              None \<Rightarrow> find_loop m (mbi_memory_map_next m mmap mmap_end) mmap_end len highest limit_to best
            | Some start \<Rightarrow>
                if \<not> highest then Some (Some start)
                else find_loop m (mbi_memory_map_next m mmap mmap_end) mmap_end len highest limit_to
                       (Some start))
      else Some best)"

text \<open>The result is \<open>*block_start_out\<close> if a block is found; \<open>*block_len_out\<close> is then \<open>len\<close>.\<close>

definition mbi_find_memory :: "mem \<Rightarrow> u32 \<Rightarrow> u32 \<Rightarrow> bool \<Rightarrow> u64 \<Rightarrow> u32 option option" where
  "mbi_find_memory m mbi len highest limit_to =
     (let mmap_end = mbi_mmap_addr m mbi + mbi_mmap_length m mbi
      in if limit_to \<le> ucast len then Some None
         else find_loop m (mbi_mmap_addr m mbi) mmap_end len highest limit_to None)"

section \<open>mbi_relocate_modules\<close>

definition page_round :: "u32 \<Rightarrow> u32" where
  "page_round x = (x + 0xFFF) AND NOT 0xFFF"

text \<open>The first loop, from module \<open>i\<close> on: \<open>minfo\<close> and the final \<open>size\<close>.\<close>

fun measure_modules :: "mem \<Rightarrow> u32 \<Rightarrow> nat \<Rightarrow> nat \<Rightarrow> u32 \<Rightarrow> ((u32 \<times> u32) list \<times> u32) option" where
  "measure_modules m mods i 0 size' = Some ([], size')"
| "measure_modules m mods i (Suc k) size' =
     (let p = module_ptr mods i; modlen = mod_end m p - mod_start m p
      in case strlen m (mod_string m p) of
           None \<Rightarrow> None
         | Some l \<Rightarrow>
             let slen = l + 1
             in map_option (\<lambda>(minfo, size'). ((modlen, slen) # minfo, size'))
                  (measure_modules m mods (Suc i) k (page_round (size' + modlen + slen))))"

text \<open>The overlap check, from module \<open>i\<close> on; \<open>True\<close> is the early return.\<close>

fun overlap_check :: "u32 \<Rightarrow> nat \<Rightarrow> nat \<Rightarrow> u32 \<Rightarrow> (machine, bool) comp" where
  "overlap_check mods i 0 reladdr = ret False"
| "overlap_check mods i (Suc k) reladdr =
     andthen (gets (\<lambda>s. (mod_start (ram s) (module_ptr mods i), mod_end (ram s) (module_ptr mods i)))) (\<lambda>(mstart, mend).
     if mend > reladdr then
       (if reladdr = mstart
        then andthen (printf ''Modules seem to be relocated. Good.\<newline>'' []) (\<lambda>_. ret True)
        else andthen (printf (''Modules might overlap.\<newline>Relocate to %p, but module at %8x-%8x.\<newline>'')
               [Va_word reladdr, Va_word mstart, Va_word (mend - 1)]) (\<lambda>_.
             fail (Assert_failed ''Failed to relocate'')))
     else overlap_check mods (Suc i) k reladdr)"

text \<open>The body of the copy loop for module \<open>i\<close>; the result is the new \<open>block_len\<close>.\<close>

definition copy_module :: "u32 \<Rightarrow> u32 \<Rightarrow> u32 \<times> u32 \<Rightarrow> nat \<Rightarrow> u32 \<Rightarrow> (machine, u32) comp" where
  "copy_module mods block info i block_len =
     (let target_len = fst info; slen = snd info; p = module_ptr mods i;
          block_len = block_len - page_round (slen + target_len)
      in andthen (printf ''Copying %u bytes...\<newline>'' [Va_word target_len]) (\<lambda>_.
         andthen (modifies (\<lambda>s. s\<lparr>ram := memcpy (ram s) (block + block_len) (mod_start (ram s) p) target_len\<rparr>)) (\<lambda>_.
         andthen (modifies (\<lambda>s. s\<lparr>ram := store32 (ram s) p (block + block_len)\<rparr>)) (\<lambda>_.
         andthen (modifies (\<lambda>s. s\<lparr>ram := store32 (ram s) (p + 4) (mod_start (ram s) p + target_len)\<rparr>)) (\<lambda>_.
         andthen (modifies (\<lambda>s. s\<lparr>ram := memcpy (ram s) (block + block_len + target_len) (mod_string (ram s) p) slen\<rparr>)) (\<lambda>_.
         andthen (modifies (\<lambda>s. s\<lparr>ram := store32 (ram s) (p + 8) (block + block_len + target_len)\<rparr>)) (\<lambda>_.
         ret block_len)))))))"

text \<open>The copy loop: \<open>k\<close> modules are left, the last of them first.\<close>

fun copy_modules :: "u32 \<Rightarrow> u32 \<Rightarrow> (u32 \<times> u32) list \<Rightarrow> nat \<Rightarrow> u32 \<Rightarrow> (machine, u32) comp" where
  "copy_modules mods block minfo 0 block_len = ret block_len"
| "copy_modules mods block minfo (Suc i) block_len =
     andthen (copy_module mods block (minfo ! i) i block_len) (\<lambda>block_len.
     copy_modules mods block minfo i block_len)"

definition mbi_relocate_modules :: "u32 \<Rightarrow> u64 \<Rightarrow> u32 \<Rightarrow> (machine, u64) comp" where
  "mbi_relocate_modules mbi phys_max extra_space =
     andthen (gets (\<lambda>s. (mbi_mods_addr (ram s) mbi, mbi_mods_count (ram s) mbi))) (\<lambda>(mods, count).
     andthen (reads (\<lambda>s. measure_modules (ram s) mods 0 (unat count) extra_space)) (\<lambda>(minfo, size').
     andthen (reads (\<lambda>s. mbi_find_memory (ram s) mbi size' True phys_max)) (\<lambda>found.
     case found of
       Some block \<Rightarrow>
         (let block_len = size'; reladdr = block + block_len - size'
          in andthen (overlap_check mods 0 (unat count) reladdr) (\<lambda>relocated.
             if relocated then ret (ucast block)
             else (
               andthen (printf ''Need %8x bytes to relocate modules.\<newline>'' [Va_word size']) (\<lambda>_.
               andthen (printf ''Relocating to %8x: \<newline>'' [Va_word reladdr]) (\<lambda>_.
               andthen (copy_modules mods block minfo (nat (sint (count - 1) + 1)) block_len) (\<lambda>block_len.
               andthen (printf ''\<newline>'' []) (\<lambda>_.
               andthen (asserts (block_len \<ge> extra_space) ''We are left with less space than we should?'') (\<lambda>_.
               ret (ucast block)))))))))
     | None \<Rightarrow>
         andthen (printf ''Cannot relocate. Trying without...\<newline>'' []) (\<lambda>_.
         andthen (reads (\<lambda>s. mbi_find_memory (ram s) mbi extra_space True phys_max)) (\<lambda>found.
         andthen (asserts (found \<noteq> None) ''Cannot find space for extra_space'') (\<lambda>_.
         let block = the found; block_len = extra_space
         in andthen (asserts (block_len \<ge> extra_space) ''We are left with less space than we should?'') (\<lambda>_.
            ret (ucast block))))))))"

section \<open>mbi_pop_module\<close>

text \<open>The module returned, as the values of its four fields.\<close>

record boot_module =
  bm_start :: u32
  bm_end :: u32
  bm_string :: u32
  bm_reserved :: u32

definition mbi_pop_module :: "u32 \<Rightarrow> (machine, boot_module) comp" where
  "mbi_pop_module mbi =
     andthen (gets (\<lambda>s. mbi_mods_count (ram s) mbi)) (\<lambda>count.
     andthen (asserts (count > 0) ''No module to start?'') (\<lambda>_.
     andthen (gets (\<lambda>s. mbi_mods_addr (ram s) mbi)) (\<lambda>p.
     andthen (modifies (\<lambda>s. s\<lparr>ram := store32 (ram s) (mbi + 24) (mbi_mods_addr (ram s) mbi + 16)\<rparr>)) (\<lambda>_.
     andthen (modifies (\<lambda>s. s\<lparr>ram := store32 (ram s) (mbi + 20) (mbi_mods_count (ram s) mbi - 1)\<rparr>)) (\<lambda>_.
     gets (\<lambda>s. \<lparr>bm_start = mod_start (ram s) p, bm_end = mod_end (ram s) p,
                bm_string = mod_string (ram s) p, bm_reserved = load32 (ram s) (p + 12)\<rparr>))))))"

declare find_loop.simps [code]

end
