(* ===== verification/Acpi.thy ===== *)
theory Acpi imports Machine_Memory begin

text \<open>
  acpi.c: the search for the ACPI root pointer in the BIOS data area and the BIOS read-only memory.
  It finds the first paragraph that carries the signature and whose 20 bytes sum up to zero.
\<close>

section \<open>The code\<close>

text \<open>\<open>while (count--) res += *(table++);\<close>\<close>

primrec checksum_loop :: "mem \<Rightarrow> u32 \<Rightarrow> nat \<Rightarrow> u8 \<Rightarrow> u8" where
  "checksum_loop m table 0 res = res"
| "checksum_loop m table (Suc count) res = checksum_loop m (table + 1) count (res + m table)"

definition acpi_checksum :: "mem \<Rightarrow> u32 \<Rightarrow> u32 \<Rightarrow> u8" where
  "acpi_checksum m table count = checksum_loop m table (unat count) 0"

text \<open>The nested function \<open>check\<close>, which leaves through \<open>goto done\<close> when it holds.\<close>

definition rsdp_check :: "mem \<Rightarrow> u32 \<Rightarrow> bool" where
  "rsdp_check m p \<longleftrightarrow> memcmp (at m p) (lit ''RSD PTR '') 8 = 0 \<and> acpi_checksum m p 20 = 0"

text \<open>
  The nested function \<open>find\<close>: \<open>for (cur = start; cur < start + len; cur += 16) check(cur)\<close>; the
  result is the address found, if any.
\<close>

partial_function (option) rsdp_find :: "mem \<Rightarrow> u32 \<Rightarrow> u32 \<Rightarrow> u32 option option" where
  "rsdp_find m cur fin =
     (if cur < fin
      then (if rsdp_check m cur then Some (Some cur) else rsdp_find m (cur + 16) fin)
      else Some None)"

definition acpi_get_rsdp :: "mem \<Rightarrow> u32 option" where
  "acpi_get_rsdp m =
     (case rsdp_find m 0x400 (0x400 + 0x400) of
        None \<Rightarrow> None
      | Some (Some p) \<Rightarrow> Some p
      | Some None \<Rightarrow>
          (case rsdp_find m 0xe0000 (0xe0000 + 0x20000) of
             None \<Rightarrow> None
           | Some (Some p) \<Rightarrow> Some p
           | Some None \<Rightarrow> Some 0))"

text \<open>The fields of the structure that the program reads (acpi.h).\<close>

definition rsdp_rev :: "mem \<Rightarrow> u32 \<Rightarrow> u8" where "rsdp_rev m p = m (p + 15)"
definition rsdp_rsdt :: "mem \<Rightarrow> u32 \<Rightarrow> u32" where "rsdp_rsdt m p = load32 m (p + 16)"
definition rsdp_size :: "mem \<Rightarrow> u32 \<Rightarrow> u32" where "rsdp_size m p = load32 m (p + 20)"

declare rsdp_find.simps [code]

section \<open>What it finds\<close>

text \<open>A root pointer at \<open>p\<close>: signature and checksum.\<close>

definition is_rsdp :: "mem \<Rightarrow> u32 \<Rightarrow> bool" where
  "is_rsdp m p \<longleftrightarrow> read_bytes m p 8 = map of_char ''RSD PTR '' \<and> sum_list (read_bytes m p 20) = 0"

lemma checksum_loop_sum: "checksum_loop m p n res = res + sum_list (read_bytes m p n)"
  by (induction n arbitrary: p res) (auto simp: ac_simps)

lemma acpi_checksum_sum: "acpi_checksum m p n = sum_list (read_bytes m p (unat n))"
  by (simp add: acpi_checksum_def checksum_loop_sum)

lemma rsdp_check_iff: "rsdp_check m p = is_rsdp m p"
proof -
  have "length ''RSD PTR '' = 8" "unat (20 :: u32) = 20" and unat_eight: "unat (8 :: u32) = 8" by simp_all
  then show ?thesis
    using memcmp_lit [of 8 "''RSD PTR ''" m p]
    unfolding rsdp_check_def is_rsdp_def acpi_checksum_sum by (simp only: unat_eight refl simp_thms)
qed

text \<open>The addresses searched, and the first of them at which there is a root pointer.\<close>

definition paragraphs :: "nat \<Rightarrow> nat \<Rightarrow> u32 list" where
  "paragraphs start n = map (\<lambda>i. of_nat (start + 16 * i)) [0..<n]"

lemma paragraphs_Suc: "paragraphs start (Suc n) = of_nat start # paragraphs (start + 16) n"
  by (simp add: paragraphs_def upt_conv_Cons map_Suc_upt [symmetric] comp_def del: upt_Suc)

lemma rsdp_find_first:
  assumes "start + 16 * n < 2 ^ 32"
  shows "rsdp_find m (of_nat start) (of_nat (start + 16 * n)) = Some (List.find (is_rsdp m) (paragraphs start n))"
  using assms
proof (induction n arbitrary: start)
  case 0
  then show ?case by (subst rsdp_find.simps) (simp add: paragraphs_def)
next
  case (Suc n)
  have "(of_nat start :: u32) < of_nat (start + 16 * Suc n)"
    using Suc.prems unfolding word_less_nat_alt by (simp add: unat_of_nat_small del: of_nat_add of_nat_mult)
  moreover have "rsdp_find m (of_nat start + 16) (of_nat (start + 16 * Suc n))
      = Some (List.find (is_rsdp m) (paragraphs (start + 16) n))"
    using Suc.IH [of "start + 16"] Suc.prems by (simp add: ac_simps)
  ultimately show ?case
    unfolding paragraphs_Suc by (subst rsdp_find.simps) (simp add: rsdp_check_iff del: of_nat_add of_nat_mult)
qed

lemma acpi_get_rsdp_find:
  "acpi_get_rsdp m = Some (case List.find (is_rsdp m) (paragraphs 0x400 64 @ paragraphs 0xe0000 8192) of
     None \<Rightarrow> 0 | Some p \<Rightarrow> p)"
proof -
  have find_append: "List.find P (xs @ ys) = (case List.find P xs of None \<Rightarrow> List.find P ys | Some x \<Rightarrow> Some x)"
    for P :: "u32 \<Rightarrow> bool" and xs ys
    by (induction xs) auto
  have "rsdp_find m 0x400 (0x400 + 0x400) = Some (List.find (is_rsdp m) (paragraphs 0x400 64))"
    "rsdp_find m 0xe0000 (0xe0000 + 0x20000) = Some (List.find (is_rsdp m) (paragraphs 0xe0000 8192))"
    using rsdp_find_first [of "0x400" 64 m] rsdp_find_first [of "0xe0000" 8192 m] by simp_all
  then show ?thesis
    unfolding acpi_get_rsdp_def find_append by (simp split: option.split)
qed

text \<open>
  C32. The root pointer search always ends; it returns the first 16-byte boundary, of the BIOS data
  area and then of the BIOS memory from 0xe0000 up to 1M, where the signature and the checksum
  of a root pointer are found, and NULL if there is none.
\<close>

theorem acpi_get_rsdp_first:
  "acpi_get_rsdp m = Some (case List.find (is_rsdp m) (paragraphs 0x400 64 @ paragraphs 0xe0000 8192) of
     None \<Rightarrow> 0 | Some p \<Rightarrow> p)"
  by (rule acpi_get_rsdp_find)

end
