(* ===== verification/Mbi2.thy ===== *)
theory Mbi2 imports Mbi Acpi begin

text \<open>
  mbi2.h and mbi2.c: the Multiboot2 header of a kernel, the builder of the Multiboot2 information
  and the accessors its readers use. The builder is a record of three addresses that is passed
  along; the structures the code fills in local variables are the bytes they consist of.
\<close>

unbundle bit_operations_syntax

section \<open>mbi2.h\<close>

definition MBI2_HEADER_MAGIC :: u32 where "MBI2_HEADER_MAGIC = 0xe85250d6"
definition MBI2_MAGIC :: u32 where "MBI2_MAGIC = 0x36d76289"
definition MBI2_TAG_END :: u32 where "MBI2_TAG_END = 0"
definition MBI2_TAG_CMDLINE :: u32 where "MBI2_TAG_CMDLINE = 1"
definition MBI2_TAG_MODULE :: u32 where "MBI2_TAG_MODULE = 3"
definition MBI2_TAG_MEMORY :: u32 where "MBI2_TAG_MEMORY = 6"
definition MBI2_TAG_RSDP_V1 :: u32 where "MBI2_TAG_RSDP_V1 = 14"
definition MBI2_TAG_RSDP_V2 :: u32 where "MBI2_TAG_RSDP_V2 = 15"

text \<open>\<open>struct mbi2_header\<close>\<close>

definition header_magic :: "mem \<Rightarrow> u32 \<Rightarrow> u32" where "header_magic m h = load32 m h"

definition mbi2_header_checksum :: "mem \<Rightarrow> u32 \<Rightarrow> u32" where
  "mbi2_header_checksum m h = load32 m h + load32 m (h + 4) + load32 m (h + 8) + load32 m (h + 12)"

text \<open>The images of \<open>struct mbi2_boot_info\<close>, \<open>struct mbi2_tag\<close>, \<open>struct mbi2_module\<close>,
  \<open>struct mbi2_memory\<close> and \<open>struct mbi2_memory_entry\<close>.\<close>

definition info_image :: "u32 \<Rightarrow> u32 \<Rightarrow> u8 list" where
  "info_image total_size reserved = le_bytes 4 total_size @ le_bytes 4 reserved"

definition tag_image :: "u32 \<Rightarrow> u32 \<Rightarrow> u8 list" where
  "tag_image type' size' = le_bytes 4 type' @ le_bytes 4 size'"

definition mod_image :: "u32 \<Rightarrow> u32 \<Rightarrow> u8 list" where
  "mod_image start fin = le_bytes 4 start @ le_bytes 4 fin"

definition memory_image :: "u32 \<Rightarrow> u32 \<Rightarrow> u8 list" where
  "memory_image entry_size entry_version = le_bytes 4 entry_size @ le_bytes 4 entry_version"

definition entry_image :: "u64 \<Rightarrow> u64 \<Rightarrow> u32 \<Rightarrow> u8 list" where
  "entry_image addr len type' = le_bytes 8 addr @ le_bytes 8 len @ le_bytes 4 type' @ le_bytes 4 (0::u32)"

definition tag_type :: "mem \<Rightarrow> u32 \<Rightarrow> u32" where "tag_type m tag = load32 m tag"
definition tag_size :: "mem \<Rightarrow> u32 \<Rightarrow> u32" where "tag_size m tag = load32 m (tag + 4)"

definition mbi2_tag_payload :: "u32 \<Rightarrow> u32" where
  "mbi2_tag_payload tag = tag + 8"

definition mbi2_memory_map_first :: "u32 \<Rightarrow> (machine, u32) comp" where
  "mbi2_memory_map_first mem_tag =
     andthen (gets (\<lambda>s. tag_type (ram s) mem_tag)) (\<lambda>type'.
     andthen (asserts (type' = MBI2_TAG_MEMORY) ''Need memory tag, but got something else'') (\<lambda>_.
     let mem = mbi2_tag_payload mem_tag in ret (mem + 8)))"

definition mbi2_memory_map_next :: "u32 \<Rightarrow> u32 \<Rightarrow> (machine, u32) comp" where
  "mbi2_memory_map_next mem_tag mem_entry =
     andthen (gets (\<lambda>s. tag_type (ram s) mem_tag)) (\<lambda>type'.
     andthen (asserts (type' = MBI2_TAG_MEMORY) ''Need memory tag, but got something else'') (\<lambda>_.
     gets (\<lambda>s.
       let mem = mbi2_tag_payload mem_tag;
           fin = mem_tag + tag_size (ram s) mem_tag;
           nxt = mem_entry + load32 (ram s) mem
       in if nxt < fin then nxt else 0)))"

definition mbi2_tag_first :: "u32 \<Rightarrow> u32" where
  "mbi2_tag_first mbi = mbi + 8"

definition mbi2_tag_next :: "mem \<Rightarrow> u32 \<Rightarrow> u32" where
  "mbi2_tag_next m c =
     (let offset = (tag_size m c + (8 - 1)) AND NOT (8 - 1); n = c + offset
      in if tag_type m n = 0 then 0 else n)"

record mbi2_builder =
  bld_start :: u32
  bld_cur :: u32
  bld_end :: u32

section \<open>mbi2_header_find\<close>

partial_function (option) header_loop :: "mem \<Rightarrow> u32 \<Rightarrow> u32 \<Rightarrow> u32 option" where
  "header_loop m cur fin =
     (if cur + 16 \<le> fin
      then (if header_magic m cur = MBI2_HEADER_MAGIC \<and> mbi2_header_checksum m cur = 0 then Some cur
            else header_loop m (cur + 8) fin)
      else Some 0)"

definition mbi2_header_find :: "mem \<Rightarrow> u32 \<Rightarrow> u32 \<Rightarrow> u32 option" where
  "mbi2_header_find m data len = header_loop m data (data + len)"

section \<open>The builder\<close>

definition MBI2_TAG_ALIGNMENT :: u32 where "MBI2_TAG_ALIGNMENT = 8"

definition mbi2_available_bytes :: "mbi2_builder \<Rightarrow> u32" where
  "mbi2_available_bytes bld = bld_end bld - bld_cur bld"

text \<open>What a blob is copied from: a local structure, or \<open>size\<close> bytes at an address.\<close>

datatype blob =
    Local "u8 list"
  | At u32 u32

fun blob_size :: "blob \<Rightarrow> u32" where
  "blob_size (Local bs) = of_nat (length bs)"
| "blob_size (At data size') = size'"

fun copy_blob :: "mem \<Rightarrow> u32 \<Rightarrow> blob \<Rightarrow> mem" where
  "copy_blob m cur (Local bs) = write_bytes m cur bs"
| "copy_blob m cur (At data size') = memcpy m cur data size'"

definition mbi2_add_blob :: "mbi2_builder \<Rightarrow> u32 \<Rightarrow> blob \<Rightarrow> (machine, mbi2_builder) comp" where
  "mbi2_add_blob bld align data =
     andthen (asserts (blob_size data + align \<le> mbi2_available_bytes bld) ''Out of space when building MBI2 info'') (\<lambda>_.
     let misaligned_bytes = bld_cur bld mod align;
         alignment_needed = (if misaligned_bytes = 0 then 0 else align - misaligned_bytes);
         cur = bld_cur bld + alignment_needed
     in andthen (modifies (\<lambda>s. s\<lparr>ram := copy_blob (ram s) cur data\<rparr>)) (\<lambda>_.
        ret (bld\<lparr>bld_cur := cur + blob_size data\<rparr>)))"

definition mbi2_build :: "u64 \<Rightarrow> u32 \<Rightarrow> (machine, mbi2_builder) comp" where
  "mbi2_build phys_addr max_size =
     andthen (asserts (ucast (ucast phys_addr :: u32) = phys_addr) ''MBI2 can only be built in 32-bit accessible memory'') (\<lambda>_.
     andthen (asserts ((ucast phys_addr :: u32) mod MBI2_TAG_ALIGNMENT = 0) ''The MBI2 info start address needs to be aligned'') (\<lambda>_.
     let start_ptr = ucast phys_addr :: u32;
         bld = \<lparr>bld_start = start_ptr, bld_cur = start_ptr, bld_end = start_ptr + max_size\<rparr>
     in mbi2_add_blob bld MBI2_TAG_ALIGNMENT (Local (info_image 0 0))))"

definition mbi2_add_boot_cmdline :: "mbi2_builder \<Rightarrow> u32 \<Rightarrow> (machine, mbi2_builder) comp" where
  "mbi2_add_boot_cmdline bld cmdline =
     andthen (reads (\<lambda>s. strlen (ram s) cmdline)) (\<lambda>l.
     let cmdline_len = l + 1
     in andthen (mbi2_add_blob bld MBI2_TAG_ALIGNMENT (Local (tag_image MBI2_TAG_CMDLINE (8 + cmdline_len)))) (\<lambda>bld.
        mbi2_add_blob bld 1 (At cmdline cmdline_len)))"

definition mbi2_add_module :: "mbi2_builder \<Rightarrow> u64 \<Rightarrow> u64 \<Rightarrow> u32 \<Rightarrow> (machine, mbi2_builder) comp" where
  "mbi2_add_module bld mod_addr mod_fin cmdline =
     andthen (reads (\<lambda>s. strlen (ram s) cmdline)) (\<lambda>l.
     let cmdline_len = l + 1
     in andthen (mbi2_add_blob bld MBI2_TAG_ALIGNMENT (Local (tag_image MBI2_TAG_MODULE (8 + 8 + cmdline_len)))) (\<lambda>bld.
        andthen (mbi2_add_blob bld 1 (Local (mod_image (ucast mod_addr) (ucast mod_fin)))) (\<lambda>bld.
        mbi2_add_blob bld 1 (At cmdline cmdline_len))))"

text \<open>The two loops of \<open>mbi2_add_mbi1_memmap\<close>, over the entries from \<open>cur\<close> on.\<close>

partial_function (option) count_entries :: "mem \<Rightarrow> u32 \<Rightarrow> u32 \<Rightarrow> u32 \<Rightarrow> u32 option" where
  "count_entries m cur mbi1_mmap_end mmap_count =
     (if cur \<noteq> 0
      then count_entries m (mbi_memory_map_next m cur mbi1_mmap_end) mbi1_mmap_end (mmap_count + 1)
      else Some mmap_count)"

definition mmap_entry_image :: "mem \<Rightarrow> u32 \<Rightarrow> u8 list" where
  "mmap_entry_image m cur = entry_image (mbi_memory_base_addr m cur) (mbi_memory_length m cur) (mmap_type m cur)"

partial_function (option) add_entries ::
    "u32 \<Rightarrow> u32 \<Rightarrow> mbi2_builder \<Rightarrow> machine \<Rightarrow> (fault + mbi2_builder \<times> machine) option" where
  "add_entries cur mbi1_mmap_end bld s =
     (if cur \<noteq> 0
      then (case mbi2_add_blob bld 1 (Local (mmap_entry_image (ram s) cur)) s of
              None \<Rightarrow> None
            | Some r \<Rightarrow> (case r of
                Inl e \<Rightarrow> Some (Inl e)
              | Inr x \<Rightarrow> add_entries (mbi_memory_map_next (ram (snd x)) cur mbi1_mmap_end) mbi1_mmap_end (fst x) (snd x)))
      else Some (Inr (bld, s)))"

definition mbi2_add_mbi1_memmap :: "mbi2_builder \<Rightarrow> u32 \<Rightarrow> u32 \<Rightarrow> (machine, mbi2_builder) comp" where
  "mbi2_add_mbi1_memmap bld mbi1_mmap mbi1_mmap_end =
     andthen (reads (\<lambda>s. count_entries (ram s) mbi1_mmap mbi1_mmap_end 0)) (\<lambda>mmap_count.
     andthen (mbi2_add_blob bld MBI2_TAG_ALIGNMENT (Local (tag_image MBI2_TAG_MEMORY (8 + 8 + 24 * mmap_count)))) (\<lambda>bld.
     andthen (mbi2_add_blob bld 1 (Local (memory_image 24 0))) (\<lambda>bld.
     add_entries mbi1_mmap mbi1_mmap_end bld)))"

definition mbi2_add_rsdp :: "mbi2_builder \<Rightarrow> u32 \<Rightarrow> (machine, mbi2_builder) comp" where
  "mbi2_add_rsdp bld rsdp =
     andthen (gets (\<lambda>s. (rsdp_rev (ram s) rsdp, rsdp_size (ram s) rsdp))) (\<lambda>(rev, size').
     let rsdp_len = (if rev \<le> 1 then 20 else size');
         type' = (if rev = 1 then MBI2_TAG_RSDP_V1 else MBI2_TAG_RSDP_V2)
     in andthen (mbi2_add_blob bld MBI2_TAG_ALIGNMENT (Local (tag_image type' (8 + rsdp_len)))) (\<lambda>bld.
        mbi2_add_blob bld 1 (At rsdp rsdp_len)))"

definition mbi2_finish :: "mbi2_builder \<Rightarrow> (machine, u64) comp" where
  "mbi2_finish bld =
     andthen (mbi2_add_blob bld MBI2_TAG_ALIGNMENT (Local (tag_image MBI2_TAG_END 8))) (\<lambda>bld.
     andthen (modifies (\<lambda>s. s\<lparr>ram := store32 (ram s) (bld_start bld) (bld_cur bld - bld_start bld)\<rparr>)) (\<lambda>_.
     ret (ucast (bld_start bld))))"

declare header_loop.simps [code] count_entries.simps [code] add_entries.simps [code]

end
