(* ===== verification/Elf.thy ===== *)
theory Elf imports Mbi2 Printf begin

text \<open>
  elf.h and elf.c: the next kernel is started. Its segments are not loaded by the program itself,
  which they may overwrite, but by machine code that it generates at 0x7C00 and jumps to.
\<close>

unbundle bit_operations_syntax

section \<open>elf.h\<close>

definition ELFMAG :: string where "ELFMAG = CHR 0x7F # ''ELF''"
definition SELFMAG :: u32 where "SELFMAG = 4"
definition EI_CLASS :: u32 where "EI_CLASS = 4"
definition ELFCLASS32 :: u8 where "ELFCLASS32 = 1"
definition ELFCLASS64 :: u8 where "ELFCLASS64 = 2"
definition EM_386 :: u16 where "EM_386 = 3"
definition EM_X86_64 :: u16 where "EM_X86_64 = 62"

text \<open>
  The fields of \<open>struct eh\<close> and \<open>struct ph\<close> (class 32) and of \<open>struct eh64\<close> and \<open>struct ph64\<close>. The
  code is expanded for both by the macro \<open>LOADER\<close>; here it takes the class. Addresses, offsets and
  sizes of class 32 are extended to the 64 bits of the other class: all the code does with them is
  to add, subtract and truncate to 32 bits.
\<close>

datatype elf_class = Elf32 | Elf64

definition e_type :: "mem \<Rightarrow> u32 \<Rightarrow> u16" where "e_type m elf = load16 m (elf + 16)"
definition e_machine :: "mem \<Rightarrow> u32 \<Rightarrow> u16" where "e_machine m elf = load16 m (elf + 18)"
definition e_version :: "mem \<Rightarrow> u32 \<Rightarrow> u32" where "e_version m elf = load32 m (elf + 20)"

fun e_entry :: "elf_class \<Rightarrow> mem \<Rightarrow> u32 \<Rightarrow> u64" where
  "e_entry Elf32 m elf = ucast (load32 m (elf + 24))"
| "e_entry Elf64 m elf = load64 m (elf + 24)"

fun e_phoff :: "elf_class \<Rightarrow> mem \<Rightarrow> u32 \<Rightarrow> u64" where
  "e_phoff Elf32 m elf = ucast (load32 m (elf + 28))"
| "e_phoff Elf64 m elf = load64 m (elf + 32)"

fun e_phentsize :: "elf_class \<Rightarrow> mem \<Rightarrow> u32 \<Rightarrow> u16" where
  "e_phentsize Elf32 m elf = load16 m (elf + 42)"
| "e_phentsize Elf64 m elf = load16 m (elf + 54)"

fun e_phnum :: "elf_class \<Rightarrow> mem \<Rightarrow> u32 \<Rightarrow> u16" where
  "e_phnum Elf32 m elf = load16 m (elf + 44)"
| "e_phnum Elf64 m elf = load16 m (elf + 56)"

definition p_type :: "mem \<Rightarrow> u32 \<Rightarrow> u32" where "p_type m ph = load32 m ph"

fun p_offset :: "elf_class \<Rightarrow> mem \<Rightarrow> u32 \<Rightarrow> u64" where
  "p_offset Elf32 m ph = ucast (load32 m (ph + 4))"
| "p_offset Elf64 m ph = load64 m (ph + 8)"

fun p_paddr :: "elf_class \<Rightarrow> mem \<Rightarrow> u32 \<Rightarrow> u64" where
  "p_paddr Elf32 m ph = ucast (load32 m (ph + 12))"
| "p_paddr Elf64 m ph = load64 m (ph + 24)"

fun p_filesz :: "elf_class \<Rightarrow> mem \<Rightarrow> u32 \<Rightarrow> u64" where
  "p_filesz Elf32 m ph = ucast (load32 m (ph + 16))"
| "p_filesz Elf64 m ph = load64 m (ph + 32)"

fun p_memsz :: "elf_class \<Rightarrow> mem \<Rightarrow> u32 \<Rightarrow> u64" where
  "p_memsz Elf32 m ph = ucast (load32 m (ph + 20))"
| "p_memsz Elf64 m ph = load64 m (ph + 40)"

fun sizeof_ph :: "elf_class \<Rightarrow> u16" where
  "sizeof_ph Elf32 = 32"
| "sizeof_ph Elf64 = 56"

section \<open>Generating code\<close>

datatype reg = EAX | ECX | EDX | EBX | ESP | EBP | ESI | EDI

fun reg_num :: "reg \<Rightarrow> u8" where
  "reg_num EAX = 0" | "reg_num ECX = 1" | "reg_num EDX = 2" | "reg_num EBX = 3"
| "reg_num ESP = 4" | "reg_num EBP = 5" | "reg_num ESI = 6" | "reg_num EDI = 7"

text \<open>The generators go from memory and the pointer \<open>*code\<close> to the new memory and pointer.\<close>

definition byte_out :: "u8 \<Rightarrow> mem \<times> u32 \<Rightarrow> mem \<times> u32" where
  "byte_out byte mc = ((fst mc)(snd mc := byte), snd mc + 1)"

definition gen_mov :: "reg \<Rightarrow> u32 \<Rightarrow> mem \<times> u32 \<Rightarrow> mem \<times> u32" where
  "gen_mov reg constant mc =
     (let mc = byte_out (0xB8 OR reg_num reg) mc
      in (store32 (fst mc) (snd mc) constant, snd mc + 4))"

definition gen_jmp_edx :: "mem \<times> u32 \<Rightarrow> mem \<times> u32" where
  "gen_jmp_edx mc = byte_out 0xE2 (byte_out 0xFF mc)"

definition gen_elf_segment :: "u32 \<Rightarrow> u32 \<Rightarrow> u32 \<Rightarrow> u32 \<Rightarrow> mem \<times> u32 \<Rightarrow> mem \<times> u32" where
  "gen_elf_segment target src len fill mc =
     (let mc = gen_mov EDI target mc;
          mc = gen_mov ESI src mc;
          mc = gen_mov ECX len mc;
          mc = byte_out 0xF3 mc;
          mc = byte_out 0xA4 mc;
          mc = gen_mov ECX fill mc;
          mc = byte_out 0xF3 mc;
          mc = byte_out 0xAA mc
      in mc)"

section \<open>convert_mb1_to_mbi2\<close>

text \<open>The body of the loop over the modules, and the loop.\<close>

definition add_module_at :: "u32 \<Rightarrow> u32 \<Rightarrow> mbi2_builder \<Rightarrow> (machine, mbi2_builder) comp" where
  "add_module_at mbi mod_index bld =
     andthen (gets (\<lambda>s. mbi_mods_addr (ram s) mbi + 16 * mod_index)) (\<lambda>md.
     andthen (gets (\<lambda>s. mod_string (ram s) md)) (\<lambda>str.
     andthen (printf ''Adding module %u: %s\<newline>'' [Va_word mod_index, Va_word str]) (\<lambda>_.
     andthen (gets (\<lambda>s. (mod_start (ram s) md, mod_end (ram s) md, mod_string (ram s) md))) (\<lambda>(start, fin, str).
     mbi2_add_module bld (ucast start) (ucast fin) str))))"

partial_function (option) add_modules ::
    "u32 \<Rightarrow> u32 \<Rightarrow> mbi2_builder \<Rightarrow> machine \<Rightarrow> (fault + mbi2_builder \<times> machine) option" where
  "add_modules mbi mod_index bld s =
     (if mod_index < mbi_mods_count (ram s) mbi
      then (case add_module_at mbi mod_index bld s of
              None \<Rightarrow> None
            | Some r \<Rightarrow> (case r of
                Inl e \<Rightarrow> Some (Inl e)
              | Inr x \<Rightarrow> add_modules mbi (mod_index + 1) (fst x) (snd x)))
      else Some (Inr (bld, s)))"

definition convert_mb1_to_mbi2 :: "u32 \<Rightarrow> u64 \<Rightarrow> u32 \<Rightarrow> (machine, u32) comp" where
  "convert_mb1_to_mbi2 mbi phys_addr len =
     andthen (mbi2_build phys_addr len) (\<lambda>bld.
     andthen (\<lambda>s. if mbi_flags (ram s) mbi AND MBI_FLAG_CMDLINE \<noteq> 0
                  then mbi2_add_boot_cmdline bld (mbi_cmdline (ram s) mbi) s else ret bld s) (\<lambda>bld.
     andthen (\<lambda>s. if mbi_flags (ram s) mbi AND MBI_FLAG_MEM \<noteq> 0
                  then mbi2_add_mbi1_memmap bld (mbi_mmap_addr (ram s) mbi)
                         (mbi_mmap_addr (ram s) mbi + mbi_mmap_length (ram s) mbi) s
                  else ret bld s) (\<lambda>bld.
     andthen (\<lambda>s. if mbi_flags (ram s) mbi AND MBI_FLAG_MODS \<noteq> 0 then add_modules mbi 0 bld s else ret bld s) (\<lambda>bld.
     andthen (reads (\<lambda>s. acpi_get_rsdp (ram s))) (\<lambda>rsdp.
     andthen (if rsdp \<noteq> 0
              then andthen (gets (\<lambda>s. [Va_word rsdp, Va_word (ucast (rsdp_rev (ram s) rsdp)), Va_word (rsdp_rsdt (ram s) rsdp)])) (\<lambda>ap.
                   andthen (printf ''Adding RSDP info: %p (%d) -> %lx\<newline>'' ap) (\<lambda>_.
                   mbi2_add_rsdp bld rsdp))
              else ret bld) (\<lambda>bld.
     andthen (mbi2_finish bld) (\<lambda>info. ret (ucast info))))))))"

section \<open>start_module\<close>

text \<open>The program header \<open>i\<close>, and the loop over the program headers from \<open>i\<close> on.\<close>

definition ph_at :: "elf_class \<Rightarrow> mem \<Rightarrow> u32 \<Rightarrow> nat \<Rightarrow> u32" where
  "ph_at cls m elf i = ucast (ucast elf + e_phoff cls m elf + ucast (of_nat i * ucast (e_phentsize cls m elf) :: u32))"

definition gen_segment :: "elf_class \<Rightarrow> u32 \<Rightarrow> u32 \<Rightarrow> mem \<times> u32 \<Rightarrow> mem \<times> u32" where
  "gen_segment cls elf ph mc =
     (let m = fst mc in
      if p_type m ph \<noteq> 1 then mc
      else gen_elf_segment (ucast (p_paddr cls m ph)) (ucast (ucast elf + p_offset cls m ph))
             (ucast (p_filesz cls m ph)) (ucast (p_memsz cls m ph - p_filesz cls m ph)) mc)"

function gen_segments :: "elf_class \<Rightarrow> u32 \<Rightarrow> nat \<Rightarrow> mem \<times> u32 \<Rightarrow> mem \<times> u32" where
  "gen_segments cls elf i mc =
     (if i < unat (e_phnum cls (fst mc) elf)
      then gen_segments cls elf (Suc i) (gen_segment cls elf (ph_at cls (fst mc) elf i) mc)
      else mc)"
  by pat_completeness auto
termination
proof (relation "measure (\<lambda>(cls, elf, i, mc). 65536 - i)")
  fix cls elf i and mc :: "mem \<times> u32"
  assume "i < unat (e_phnum cls (fst mc) elf)"
  moreover have "unat (e_phnum cls (fst mc) elf) < 65536"
    using unsigned_less [of "e_phnum cls (fst mc) elf", where 'a = nat] by simp
  ultimately show "((cls, elf, Suc i, gen_segment cls elf (ph_at cls (fst mc) elf i) mc), cls, elf, i, mc)
      \<in> measure (\<lambda>(cls, elf, i, mc). 65536 - i)" by simp
qed simp

declare gen_segments.simps [simp del]

text \<open>The macro \<open>LOADER\<close>: the checks, then the code of all segments and the entry point.\<close>

definition LOADER :: "elf_class \<Rightarrow> u32 \<Rightarrow> u32 \<Rightarrow> (machine, u32) comp" where
  "LOADER cls elf code =
     andthen (gets ram) (\<lambda>m.
     andthen (asserts (e_type m elf = 2 \<and> (e_machine m elf = EM_386 \<or> e_machine m elf = EM_X86_64) \<and> e_version m elf = 1)
                ''ELF type incorrect'') (\<lambda>_.
     andthen (asserts (sizeof_ph cls \<le> e_phentsize cls m elf) ''e_phentsize too small'') (\<lambda>_.
     runs (\<lambda>s. let mc = gen_segments cls elf 0 (ram s, code);
                  mc = gen_mov EDX (ucast (e_entry cls (fst mc) elf)) mc
              in (snd mc, s\<lparr>ram := fst mc\<rparr>)))))"

text \<open>From the check of the ELF header to the last generated instruction: the end of the code.\<close>

definition generate_loader :: "u32 \<Rightarrow> u32 \<Rightarrow> (machine, u32) comp" where
  "generate_loader elf magic =
     andthen (gets (\<lambda>s. memcmp (at (ram s) elf) (lit ELFMAG) SELFMAG)) (\<lambda>differ.
     andthen (asserts (differ = 0) ''ELF header incorrect'') (\<lambda>_.
     andthen (gets (\<lambda>s. ram s (elf + EI_CLASS))) (\<lambda>cls.
     andthen (if cls = ELFCLASS32 then LOADER Elf32 elf 0x7C00
              else if cls = ELFCLASS64 then LOADER Elf64 elf 0x7C00
              else fail (Assert_failed ''Invalid ELF class'')) (\<lambda>code.
     runs (\<lambda>s. let mc = gen_jmp_edx (gen_mov EAX magic (ram s, code)) in (snd mc, s\<lparr>ram := fst mc\<rparr>))))))"

text \<open>How \<open>start_module\<close> ends: it returns, or it jumps to EDX with these registers.\<close>

datatype ending =
    Return int
  | Jump u32 u32 u32 \<comment> \<open>EAX, EDX and EBX\<close>

definition mbi2_extra_space_needed :: u32 where
  "mbi2_extra_space_needed = push_bit 10 16"

definition start_module :: "u32 \<Rightarrow> u64 \<Rightarrow> (machine, ending) comp" where
  "start_module mbi phys_max =
     andthen (gets (\<lambda>s. mbi_flags (ram s) mbi AND MBI_FLAG_MODS = 0 \<or> mbi_mods_count (ram s) mbi = 0)) (\<lambda>none.
     if none then andthen (printf ''No module to start.\<newline>'' []) (\<lambda>_. ret (Return (- 1)))
     else
       andthen (mbi_relocate_modules mbi phys_max mbi2_extra_space_needed) (\<lambda>extra_space_addr.
       andthen (mbi_pop_module mbi) (\<lambda>md.
       andthen (asserts (ucast (bm_start md) = bm_start md) ''Module is beyond what we can access'') (\<lambda>_.
       andthen (modifies (\<lambda>s. s\<lparr>ram := store32 (ram s) (mbi + 16) (bm_string md)\<rparr>)) (\<lambda>_.
       andthen (modifies (\<lambda>s. s\<lparr>ram := store32 (ram s) mbi (mbi_flags (ram s) mbi OR MBI_FLAG_CMDLINE)\<rparr>)) (\<lambda>_.
       andthen (reads (\<lambda>s. mbi2_header_find (ram s) (bm_start md) (bm_end md - bm_start md))) (\<lambda>mbi2_header.
       andthen (if mbi2_header \<noteq> 0
                then andthen (printf ''Found MBI2 header. Booting as MBI2.\<newline>'' []) (\<lambda>_.
                     convert_mb1_to_mbi2 mbi extra_space_addr mbi2_extra_space_needed)
                else andthen (printf ''Found no MBI2 header. Booting as MBI1.\<newline>'' []) (\<lambda>_. ret 0)) (\<lambda>mbi2_info.
       andthen (generate_loader (bm_start md) (if mbi2_header \<noteq> 0 then MBI2_MAGIC else MBI_MAGIC)) (\<lambda>_.
       andthen (asserts (mbi2_header = 0 \<or> mbi2_info \<noteq> 0) ''MBI2 info missing'') (\<lambda>_.
       ret (Jump 0 0x7C00 (if mbi2_header \<noteq> 0 then mbi2_info else mbi))))))))))))"

declare add_modules.simps [code]

end
