(* ===== verification/Startup.thy ===== *)
theory Startup imports Platform Elf begin

text \<open>
  start.S: the Multiboot header of the programs, the entry point, which calls main with the values of the boot
  loader and lets it return to \<open>__exit\<close>, and the jump into another Multiboot kernel.
\<close>

unbundle bit_operations_syntax

section \<open>The header\<close>

definition mbheader :: "u32 list" where
  "mbheader = [0x1BADB002, 0x3, - (0x1BADB002 + 0x3)]"

section \<open>The entry point\<close>

text \<open>
  The programs are compiled with \<open>-mregparm=3\<close>: main gets its arguments in EAX and EDX, which is a copy of EBX, and \<open>__exit\<close>
  gets the result of main, which is in EAX when main returns to it. A program either enters other code, with these values in EAX, EDX and
  EBX, or stays in the loop at the end of \<open>reboot\<close>.
\<close>

datatype program_end =
    Enters u32 u32 u32
  | Stays halted

definition start_program :: "(u32 \<Rightarrow> u32 \<Rightarrow> (machine, ending) comp) \<Rightarrow> u32 \<Rightarrow> u32 \<Rightarrow> (machine, program_end) comp" where
  "start_program main_fn eax ebx =
     andthen (main_fn eax ebx) (\<lambda>e.
     case e of
       Return status \<Rightarrow> andthen (exit_program (of_int status)) (\<lambda>h. ret (Stays h))
     | Jump a d b \<Rightarrow> ret (Enters a d b))"

section \<open>jmp_multiboot\<close>

text \<open>The arguments come in EAX and EDX; the first is exchanged with EBX.\<close>

definition jmp_multiboot :: "u32 \<Rightarrow> u32 \<Rightarrow> ending" where
  "jmp_multiboot mbi entry = Jump 0x2BADB002 entry mbi"

end
