(* ===== verification/Libc_String.thy ===== *)
theory Libc_String imports Machine_Memory "HOL-Library.List_Lexorder" begin

text \<open>
  The string routines taken over from FreeBSD's libc: strncmp.c, strncpy.c, strtok.c and
  strtoull.c. A \<open>char\<close> is signed on i386; where the code compares or subtracts characters as
  integers the model does so with \<open>sint\<close>, where it casts to \<open>unsigned char\<close> with \<open>uint\<close>.
  Loops that only a NUL in memory ends are \<open>partial_function (option)\<close>: \<open>None\<close> is a loop
  that runs round the address space for ever.
\<close>

section \<open>strncmp.c\<close>

text \<open>A counter that is not 1 gets smaller, 0 counting as 2^32.\<close>

lemma count_down:
  assumes "(n::u32) - 1 \<noteq> 0"
  shows "unat (n - 2) < unat (n - 1)"
proof -
  have "n - 2 = n - 1 - 1" by simp
  then have "unat (n - 2) = unat (n - 1) - 1"
    using assms by (simp only: unat_minus_one not_False_eq_True)
  moreover have "unat (n - 1) \<noteq> 0" using assms by (simp only: unat_eq_0 not_False_eq_True)
  ultimately show ?thesis by simp
qed

function strncmp_loop :: "stream \<Rightarrow> stream \<Rightarrow> nat \<Rightarrow> u32 \<Rightarrow> int" where
  "strncmp_loop s1 s2 i n =
     (if s1 i \<noteq> s2 i then uint (s1 i) - uint (s2 i)
      else if s1 i = 0 then 0
      else if n - 1 \<noteq> 0 then strncmp_loop s1 s2 (Suc i) (n - 1)
      else 0)"
  by pat_completeness auto
termination
  by (relation "measure (\<lambda>(s1, s2, i, n). unat (n - 1))") (simp_all add: count_down del: right_minus_eq)

declare strncmp_loop.simps [simp del]

definition strncmp :: "stream \<Rightarrow> stream \<Rightarrow> u32 \<Rightarrow> int" where
  "strncmp s1 s2 n = (if n = 0 then 0 else strncmp_loop s1 s2 0 n)"

definition strcmp :: "stream \<Rightarrow> stream \<Rightarrow> int" where
  "strcmp s1 s2 = strncmp s1 s2 (NOT 0)"

section \<open>strncpy.c\<close>

text \<open>\<open>for (; (*to = *from); ++from, ++to);\<close>\<close>

partial_function (option) strcpy :: "mem \<Rightarrow> u32 \<Rightarrow> u32 \<Rightarrow> mem option" where
  "strcpy m to from =
     (let m' = m(to := m from)
      in if m' to \<noteq> 0 then strcpy m' (to + 1) (from + 1) else Some m')"

text \<open>\<open>while (--n != 0) *d++ = '\0';\<close>\<close>

function strncpy_pad :: "mem \<Rightarrow> u32 \<Rightarrow> u32 \<Rightarrow> mem" where
  "strncpy_pad m d n = (if n - 1 \<noteq> 0 then strncpy_pad (m(d := 0)) (d + 1) (n - 1) else m)"
  by pat_completeness auto
termination
  by (relation "measure (\<lambda>(m, d, n). unat (n - 1))") (simp_all add: count_down del: right_minus_eq)

function strncpy_loop :: "mem \<Rightarrow> u32 \<Rightarrow> u32 \<Rightarrow> u32 \<Rightarrow> mem" where
  "strncpy_loop m d s n =
     (let c = m s; m = m(d := c)
      in if c = 0 then strncpy_pad m (d + 1) n
         else if n - 1 \<noteq> 0 then strncpy_loop m (d + 1) (s + 1) (n - 1)
         else m)"
  by pat_completeness auto
termination
  by (relation "measure (\<lambda>(m, d, s, n). unat (n - 1))") (simp_all add: count_down del: right_minus_eq)

declare strncpy_pad.simps [simp del] strncpy_loop.simps [simp del]

definition strncpy :: "mem \<Rightarrow> u32 \<Rightarrow> u32 \<Rightarrow> u32 \<Rightarrow> mem" where
  "strncpy m dst src n = (if n \<noteq> 0 then strncpy_loop m dst src n else m)"

section \<open>strtok.c\<close>

text \<open>The delimiters are given without the NUL that ends them.\<close>

primrec span_hits :: "u8 \<Rightarrow> u8 list \<Rightarrow> bool" where
  "span_hits c [] = False"
| "span_hits c (sc # delim) = (c = sc \<or> span_hits c delim)"

text \<open>From the label \<open>cont\<close> to the test \<open>c == 0\<close>: the character and the pointer after it.\<close>

partial_function (option) skip_delims :: "mem \<Rightarrow> u32 \<Rightarrow> u8 list \<Rightarrow> (u8 \<times> u32) option" where
  "skip_delims m s delim =
     (let c = m s; s = s + 1
      in if span_hits c delim then skip_delims m s delim else Some (c, s))"

text \<open>The second loop: the memory with the token ended, and the new \<open>*last\<close>.\<close>

partial_function (option) scan_token :: "mem \<Rightarrow> u32 \<Rightarrow> u8 list \<Rightarrow> (mem \<times> u32) option" where
  "scan_token m s delim =
     (let c = m s; s = s + 1
      in if span_hits c (delim @ [0])
         then (if c = 0 then Some (m, 0) else Some (m(s - 1 := 0), s))
         else scan_token m s delim)"

text \<open>\<open>strtok_r(s, delim, &last)\<close>: token, new \<open>*last\<close> and memory; \<open>NULL\<close> is 0.\<close>

definition strtok_r :: "mem \<Rightarrow> u32 \<Rightarrow> u8 list \<Rightarrow> u32 \<Rightarrow> (u32 \<times> u32 \<times> mem) option" where
  "strtok_r m s delim lst =
     (if s = 0 \<and> lst = 0 then Some (0, lst, m)
      else
        let s = (if s = 0 then lst else s)
        in case skip_delims m s delim of
             None \<Rightarrow> None
           | Some (c, s) \<Rightarrow>
               if c = 0 then Some (0, 0, m)
               else (let tok = s - 1
                     in case scan_token m s delim of
                          None \<Rightarrow> None
                        | Some (m, lst) \<Rightarrow> Some (tok, lst, m)))"

text \<open>\<open>strtok\<close> keeps \<open>last\<close> in a static variable, here an argument and a result like the memory.\<close>

definition strtok :: "u32 \<Rightarrow> mem \<Rightarrow> u32 \<Rightarrow> u8 list \<Rightarrow> (u32 \<times> u32 \<times> mem) option" where
  "strtok lst m s delim = strtok_r m s delim lst"

section \<open>strtoull.c\<close>

text \<open>\<open>do c = *s++; while (isspace((unsigned char)c));\<close> with the \<open>isspace\<close> of util.h.\<close>

partial_function (option) skip_spaces :: "mem \<Rightarrow> u32 \<Rightarrow> (u8 \<times> u32) option" where
  "skip_spaces m s =
     (let c = m s; s = s + 1 in if c = 0x20 then skip_spaces m s else Some (c, s))"

text \<open>The value of a character as a digit, before it is compared with the base.\<close>

definition digit_value :: "u8 \<Rightarrow> int option" where
  "digit_value ch =
     (let c = sint ch
      in if 48 \<le> c \<and> c \<le> 57 then Some (c - 48)
         else if 65 \<le> c \<and> c \<le> 90 then Some (c - (65 - 10))
         else if 97 \<le> c \<and> c \<le> 122 then Some (c - (97 - 10))
         else None)"

text \<open>\<open>for (;; c = *s++)\<close>: the final \<open>acc\<close>, \<open>any\<close> and \<open>s\<close>.\<close>

partial_function (option) convert ::
    "mem \<Rightarrow> int \<Rightarrow> u64 \<Rightarrow> int \<Rightarrow> u8 \<Rightarrow> u32 \<Rightarrow> u64 \<Rightarrow> int \<Rightarrow> (u64 \<times> int \<times> u32) option" where
  "convert m base cutoff cutlim c s acc any =
     (case digit_value c of
        None \<Rightarrow> Some (acc, any, s)
      | Some d \<Rightarrow>
          if d \<ge> base then Some (acc, any, s)
          else if any < 0 \<or> acc > cutoff \<or> (acc = cutoff \<and> d > cutlim)
          then convert m base cutoff cutlim (m s) (s + 1) acc (- 1)
          else convert m base cutoff cutlim (m s) (s + 1) (acc * word_of_int base + word_of_int d) 1)"

definition is_hex_char :: "u8 \<Rightarrow> bool" where
  "is_hex_char ch = (let c = sint ch in
     (c \<ge> 48 \<and> c \<le> 57) \<or> (c \<ge> 65 \<and> c \<le> 70) \<or> (c \<ge> 97 \<and> c \<le> 102))"

text \<open>\<open>strtoull(nptr, &end, base)\<close>: the number and \<open>end\<close>.\<close>

definition strtoull :: "mem \<Rightarrow> u32 \<Rightarrow> int \<Rightarrow> (u64 \<times> u32) option" where
  "strtoull m nptr base =
     (case skip_spaces m nptr of
        None \<Rightarrow> None
      | Some (c, s) \<Rightarrow>
          let neg = (c = 0x2D);
              (c, s) = (if c = 0x2D \<or> c = 0x2B then (m s, s + 1) else (c, s));
              hex = ((base = 0 \<or> base = 16) \<and> c = 0x30 \<and> (m s = 0x78 \<or> m s = 0x58)
                \<and> is_hex_char (m (s + 1)));
              (c, s, base) = (if hex then (m (s + 1), s + 2, 16) else (c, s, base));
              base = (if base = 0 then (if c = 0x30 then 8 else 10) else base)
          in if base < 2 \<or> base > 36 then Some (0, nptr)
             else case convert m base (- 1 div word_of_int base)
                    (uint ((- 1 :: u64) mod word_of_int base)) c s 0 0 of
                    None \<Rightarrow> None
                  | Some (acc, any, s) \<Rightarrow>
                      let acc = (if any < 0 then - 1 else if any = 0 then acc
                                 else if neg then - acc else acc)
                      in Some (acc, if any \<noteq> 0 then s - 1 else nptr))"

declare strcpy.simps [code] skip_delims.simps [code] scan_token.simps [code]
  skip_spaces.simps [code] convert.simps [code]

end
