(* ===== verification/Libc_String_Proof.thy ===== *)
theory Libc_String_Proof imports Libc_String begin

text \<open>
  What the string routines compute, stated on lists of bytes: strcmp is the lexicographic order
  of unsigned characters, strncpy truncates or pads, repeated calls of strtok_r are \<open>words\<close>,
  strtoull is the value of the digits with saturation.
\<close>

section \<open>Strings in streams\<close>

text \<open>The stream starts with the string \<open>s\<close> and its NUL.\<close>

definition holds_str :: "stream \<Rightarrow> u8 list \<Rightarrow> bool" where
  "holds_str st s \<longleftrightarrow> (\<forall>i<length s. st i = s ! i \<and> s ! i \<noteq> 0) \<and> st (length s) = 0"

lemma holds_Nil [simp]: "holds_str st [] = (st 0 = 0)"
  by (simp add: holds_str_def)

lemma holds_Cons [simp]:
  "holds_str st (c # s) = (c \<noteq> 0 \<and> st 0 = c \<and> holds_str (\<lambda>i. st (Suc i)) s)"
  by (auto simp: holds_str_def all_less_Suc_shift)

lemma holds_at: "cstr m p s \<Longrightarrow> holds_str (at m p) s"
  by (simp add: holds_str_def at_def cstr_at cstr_end)

lemma holds_lit: "\<forall>c\<in>set s. (of_char c :: u8) \<noteq> 0 \<Longrightarrow> holds_str (lit s) (map of_char s)"
  by (simp add: holds_str_def lit_def)

section \<open>strncmp\<close>

lemma strncmp_loop_order:
  assumes "holds_str (\<lambda>j. s1 (i + j)) a" and "holds_str (\<lambda>j. s2 (i + j)) b" and "length b < unat n"
  shows "(strncmp_loop s1 s2 i n = 0 \<longleftrightarrow> a = b) \<and> (strncmp_loop s1 s2 i n < 0 \<longleftrightarrow> a < b)"
  using assms
proof (induction a arbitrary: i b n)
  case Nil
  show ?case
  proof (cases b)
    case Nil
    then show ?thesis using Nil.prems by (simp add: strncmp_loop.simps [of _ _ i])
  next
    case (Cons d b')
    then have "s1 i = 0" "s2 i = d" "d \<noteq> 0" using Nil.prems by simp_all
    moreover have "0 < uint d" using \<open>d \<noteq> 0\<close> by (simp add: word_neq_0_conv word_less_def)
    ultimately show ?thesis using Cons by (simp add: strncmp_loop.simps [of _ _ i])
  qed
next
  case (Cons c a')
  note c = this
  show ?case
  proof (cases b)
    case Nil
    then have "s1 i = c" "s2 i = 0" "c \<noteq> 0" using Cons.prems by simp_all
    moreover have "0 < uint c" using \<open>c \<noteq> 0\<close> by (simp add: word_neq_0_conv word_less_def)
    ultimately show ?thesis using Nil by (simp add: strncmp_loop.simps [of _ _ i])
  next
    case (Cons d b')
    have s: "s1 i = c" "s2 i = d" "c \<noteq> 0" "d \<noteq> 0" using c(2-4) Cons by simp_all
    show ?thesis
    proof (cases "c = d")
      case False
      then show ?thesis
        using s Cons by (simp add: strncmp_loop.simps [of _ _ i] word_less_def word_uint_eq_iff)
    next
      case True
      have len: "Suc (length b') < unat n" using c(4) Cons by simp
      then have "n \<noteq> 0" by auto
      then have n1: "unat (n - 1) = unat n - 1" by (rule unat_minus_one)
      then have "0 < unat (n - 1)" using len by simp
      then have "n - 1 \<noteq> 0" by (simp only: unat_gt_0 word_neq_0_conv)
      then have rec: "strncmp_loop s1 s2 i n = strncmp_loop s1 s2 (Suc i) (n - 1)"
        using s True by (subst strncmp_loop.simps) simp
      have "(strncmp_loop s1 s2 (Suc i) (n - 1) = 0 \<longleftrightarrow> a' = b')
          \<and> (strncmp_loop s1 s2 (Suc i) (n - 1) < 0 \<longleftrightarrow> a' < b')"
        by (rule c(1)) (use c(2-4) Cons n1 len in simp_all)
      then show ?thesis unfolding rec using True Cons by simp
    qed
  qed
qed

lemma strcmp_order:
  assumes "holds_str s1 a" and "holds_str s2 b" and "length b < 2 ^ 32 - 1"
  shows "strcmp s1 s2 = 0 \<longleftrightarrow> a = b" and "strcmp s1 s2 < 0 \<longleftrightarrow> a < b"
  using strncmp_loop_order [of s1 0 a s2 b "- 1"] assms by (simp_all add: strcmp_def strncmp_def)

section \<open>strcpy and strncpy\<close>

lemma cstr_update:
  assumes "\<not> in_region p (Suc (length s)) a"
  shows "cstr (m(a := v)) p s = cstr m p s"
proof (rule cstr_cong, rule read_bytes_cong)
  fix i assume i: "i < Suc (length s)"
  show "(m(a := v)) (p + of_nat i) = m (p + of_nat i)"
  proof (cases "i < 2 ^ 32")
    case True
    then have "in_region p (Suc (length s)) (p + of_nat i)"
      using i by (simp add: in_region_def unat_of_nat_small)
    then show ?thesis using assms by auto
  next
    case False
    then have "in_region p (Suc (length s)) a"
      using i unat32_bound [of "a - p"] unfolding in_region_def by linarith
    then show ?thesis using assms by simp
  qed
qed

lemma in_region_step:
  assumes "Suc k \<le> unat (d - s)"
  shows "\<not> in_region (s + 1) k (d::u32)"
proof -
  have "d \<noteq> s" using assms by auto
  then have "unat (d - s) = Suc (unat (d - (s + 1)))" by (rule word_sub_Suc)
  then show ?thesis using assms by (simp add: in_region_def)
qed

lemma strcpy_spec:
  "cstr m from s \<Longrightarrow> Suc (length s) \<le> unat (to - from) \<Longrightarrow> strcpy m to from = Some (write_bytes m to (s @ [0]))"
proof (induction s arbitrary: m to "from")
  case Nil
  then show ?case by (simp add: strcpy.simps [of m] Let_def fun_upd_def)
next
  case (Cons c s)
  have "\<not> in_region (from + 1) (Suc (length s)) to"
    by (rule in_region_step) (use Cons.prems(2) in simp)
  then have "cstr (m(to := c)) (from + 1) s"
    using Cons.prems(1) by (simp add: cstr_update)
  then have "strcpy (m(to := c)) (to + 1) (from + 1)
      = Some (write_bytes (m(to := c)) (to + 1) (s @ [0]))"
    by (rule Cons.IH) (use Cons.prems(2) in simp)
  then show ?case using Cons.prems(1) by (simp add: strcpy.simps [of m] Let_def)
qed

lemma strncpy_pad_eq: "n \<noteq> 0 \<Longrightarrow> strncpy_pad m d n = write_bytes m d (replicate (unat n - 1) 0)"
proof (induction m d n rule: strncpy_pad.induct)
  case (1 m d n)
  show ?case
  proof (cases "n - 1 = 0")
    case True
    then show ?thesis by (subst strncpy_pad.simps) simp
  next
    case False
    then have rec: "strncpy_pad m d n = strncpy_pad (m(d := 0)) (d + 1) (n - 1)"
      by (subst strncpy_pad.simps) simp
    have "unat (n - 1) = unat n - 1" by (rule unat_minus_one) (rule 1(2))
    moreover have "unat (n - 1) \<noteq> 0" using False by (simp only: unat_eq_0 not_False_eq_True)
    ultimately have "unat n - 1 = Suc (unat (n - 1) - 1)" by simp
    then show ?thesis unfolding rec 1(1) [OF False False] by simp
  qed
qed

lemma strncpy_loop_eq:
  "cstr m s str \<Longrightarrow> n \<noteq> 0 \<Longrightarrow> length str < unat (d - s) \<Longrightarrow>
   strncpy_loop m d s n = write_bytes m d (take (unat n) (str @ replicate (unat n) 0))"
proof (induction str arbitrary: m d s n)
  case Nil
  have "unat n = Suc (unat n - 1)" using Nil(2) by (simp add: unat_gt_0)
  then have r: "replicate (unat n) (0::u8) = 0 # replicate (unat n - 1) 0" by (metis replicate_Suc)
  have "strncpy_loop m d s n = write_bytes (m(d := 0)) (d + 1) (replicate (unat n - 1) 0)"
    using Nil by (subst strncpy_loop.simps) (simp add: Let_def strncpy_pad_eq)
  moreover have "take (unat n) (replicate (unat n) (0::u8)) = 0 # replicate (unat n - 1) 0"
    unfolding r [symmetric] by simp
  ultimately show ?case
    by (simp only: append_Nil write_bytes.simps)
next
  case (Cons c str)
  have c: "m s = c" "c \<noteq> 0" using Cons.prems(1) by simp_all
  have n1: "unat (n - 1) = unat n - 1" by (rule unat_minus_one) (rule Cons.prems(2))
  have n: "unat n = Suc (unat (n - 1))" using n1 Cons.prems(2) by (simp add: unat_gt_0)
  show ?case
  proof (cases "n - 1 = 0")
    case True
    then show ?thesis using c by (subst strncpy_loop.simps) (simp add: Let_def)
  next
    case False
    have IH: "strncpy_loop (m(d := c)) (d + 1) (s + 1) (n - 1)
      = write_bytes (m(d := c)) (d + 1) (take (unat (n - 1)) (str @ replicate (unat (n - 1)) 0))"
    proof (rule Cons.IH)
      have "\<not> in_region (s + 1) (Suc (length str)) d"
        using Cons.prems(3) by (intro in_region_step) simp
      then show "cstr (m(d := c)) (s + 1) str"
        using Cons.prems(1) by (subst cstr_update) simp_all
    qed (use False Cons.prems(3) in simp_all)
    have pad: "take k (str @ replicate (Suc k) 0) = take k (str @ replicate k 0)" for k
      by (simp del: replicate_Suc)
    have "strncpy_loop m d s n = strncpy_loop (m(d := c)) (d + 1) (s + 1) (n - 1)"
      using c False by (subst strncpy_loop.simps) (simp add: Let_def)
    then show ?thesis
      unfolding IH n append_Cons take_Suc_Cons pad write_bytes.simps .
  qed
qed

lemma strncpy_spec:
  "cstr m src s \<Longrightarrow> length s < unat (dst - src) \<Longrightarrow>
   strncpy m dst src n = write_bytes m dst (take (unat n) (s @ replicate (unat n) 0))"
  by (simp add: strncpy_def strncpy_loop_eq)

lemma strncpy_result:
  assumes "cstr m src s" and "length s < unat (dst - src)"
  shows "strncpy m dst src n
      = write_bytes m dst (take (unat n) s @ replicate (unat n - length s) 0)
    \<and> (length s < unat n \<longrightarrow> cstr (strncpy m dst src n) dst s)
    \<and> (unat n \<le> length s \<longrightarrow> read_bytes (strncpy m dst src n) dst (unat n) = take (unat n) s)"
proof -
  have eq: "strncpy m dst src n = write_bytes m dst (take (unat n) (s @ replicate (unat n) 0))"
    by (rule strncpy_spec [OF assms])
  have len: "unat n \<le> 2 ^ 32" by (rule less_imp_le) (rule unat32_bound)
  have rd: "read_bytes (strncpy m dst src n) dst (unat n) = take (unat n) (s @ replicate (unat n) 0)"
    unfolding eq by (rule read_write_same) (use len in simp_all)
  have "cstr (strncpy m dst src n) dst s" if n: "length s < unat n"
  proof -
    obtain k where k: "unat n = Suc (length s) + k"
      using n by (metis add_Suc_right less_imp_Suc_add add_Suc)
    have "read_bytes (strncpy m dst src n) dst (Suc (length s)) = take (Suc (length s)) (take (unat n) (s @ replicate (unat n) 0))"
      using rd unfolding k read_bytes_append by (metis append_eq_conv_conj length_read_bytes)
    then have "read_bytes (strncpy m dst src n) dst (Suc (length s)) = s @ [0]"
      using k by simp
    moreover have "0 \<notin> set s" using assms(1) by (simp add: cstr_iff_read)
    ultimately show ?thesis unfolding cstr_iff_read by blast
  qed
  moreover have pad: "take (unat n) (s @ replicate (unat n) 0) = take (unat n) s @ replicate (unat n - length s) 0"
    by simp
  ultimately show ?thesis
    using eq rd unfolding pad by auto
qed

section \<open>strtok_r\<close>

text \<open>The tokens of a string: its maximal runs of non-delimiters.\<close>

function words :: "u8 list \<Rightarrow> u8 list \<Rightarrow> u8 list list" where
  "words delim s =
     (case dropWhile (\<lambda>c. c \<in> set delim) s of
        [] \<Rightarrow> []
      | c # cs \<Rightarrow> takeWhile (\<lambda>c. c \<notin> set delim) (c # cs)
          # words delim (dropWhile (\<lambda>c. c \<notin> set delim) (c # cs)))"
  by pat_completeness auto
termination
proof (relation "measure (\<lambda>(delim, s). length s)")
  fix delim s :: "u8 list" and c cs
  assume s: "dropWhile (\<lambda>c. c \<in> set delim) s = c # cs"
  then have "c \<notin> set delim" using hd_dropWhile [of "\<lambda>c. c \<in> set delim" s] by simp
  moreover have "length (dropWhile (\<lambda>c. c \<notin> set delim) cs) \<le> length cs"
    by (rule length_dropWhile_le)
  moreover have "length (c # cs) \<le> length s"
    unfolding s [symmetric] by (rule length_dropWhile_le)
  ultimately show "((delim, dropWhile (\<lambda>c. c \<notin> set delim) (c # cs)), delim, s)
      \<in> measure (\<lambda>(delim, s). length s)"
    by simp
qed simp

declare words.simps [simp del]

lemma span_hits_iff [simp]: "span_hits c delim \<longleftrightarrow> c \<in> set delim"
  by (induction delim) auto

lemma cstr_append: "cstr m p (s @ t) \<longleftrightarrow> 0 \<notin> set s \<and> read_bytes m p (length s) = s \<and> cstr m (p + of_nat (length s)) t"
  by (induction s arbitrary: p) (auto simp: ac_simps)

lemma skip_delims_step:
  "skip_delims m p delim =
    (if m p \<in> set delim then skip_delims m (p + 1) delim else Some (m p, p + 1))"
  by (subst skip_delims.simps) (simp add: Let_def)

lemma scan_token_step:
  "scan_token m p delim =
    (if m p = 0 then Some (m, 0) else if m p \<in> set delim then Some (m(p := 0), p + 1)
     else scan_token m (p + 1) delim)"
  by (subst scan_token.simps) (simp add: Let_def)

lemma skip_delims_spec:
  "cstr m p s \<Longrightarrow> 0 \<notin> set delim \<Longrightarrow>
   skip_delims m p delim = Some (case dropWhile (\<lambda>c. c \<in> set delim) s of [] \<Rightarrow> 0 | c # cs \<Rightarrow> c,
     p + of_nat (length (takeWhile (\<lambda>c. c \<in> set delim) s)) + 1)"
proof (induction s arbitrary: p)
  case Nil
  then show ?case by (simp add: skip_delims_step [of m p])
next
  case (Cons c s)
  then show ?case by (simp add: skip_delims_step [of m p] ac_simps)
qed

lemma scan_token_spec:
  "cstr m p s \<Longrightarrow> 0 \<notin> set delim \<Longrightarrow>
   scan_token m p delim = Some (if dropWhile (\<lambda>c. c \<notin> set delim) s = [] then (m, 0)
     else (m(p + of_nat (length (takeWhile (\<lambda>c. c \<notin> set delim) s)) := 0),
           p + of_nat (length (takeWhile (\<lambda>c. c \<notin> set delim) s)) + 1))"
proof (induction s arbitrary: p)
  case Nil
  then show ?case by (simp add: scan_token_step [of m p])
next
  case (Cons c s)
  then show ?case by (simp add: scan_token_step [of m p] ac_simps)
qed

lemma words_Nil [simp]: "words delim [] = []"
  by (simp add: words.simps)

lemma cstr_split:
  assumes "cstr m p (s @ c # t)"
  shows "cstr (m(p + of_nat (length s) := 0)) p s"
    and "cstr (m(p + of_nat (length s) := 0)) (p + of_nat (length s) + 1) t"
proof -
  have parts: "read_bytes m p (length s) = s" "0 \<notin> set s" "cstr m (p + of_nat (length s) + 1) t"
    using assms by (simp_all add: cstr_append)
  have len: "Suc (length s + length t) < 2 ^ 32" using cstr_short [OF assms] by simp
  let ?a = "p + of_nat (length s)"
  have off: "unat (of_nat (length s) :: u32) = length s"
    using len by (intro unat_of_nat_small) simp
  have keep: "read_bytes (m(?a := 0)) p (length s) = read_bytes m p (length s)"
  proof (rule read_bytes_cong)
    fix i assume i: "i < length s"
    have "unat (of_nat i :: u32) = i" using i len by (intro unat_of_nat_small) simp
    then have "p + of_nat i \<noteq> ?a" using off i by (metis add_left_cancel nat_neq_iff)
    then show "(m(?a := 0)) (p + of_nat i) = m (p + of_nat i)" by simp
  qed
  then have "cstr (m(?a := 0)) p (s @ [])"
    unfolding cstr_append using parts by simp
  then show "cstr (m(?a := 0)) p s" by simp
  have "\<not> in_region (?a + 1) (Suc (length t)) ?a"
    using len by (simp add: in_region_def)
  then show "cstr (m(?a := 0)) (?a + 1) t"
    using parts(3) by (subst cstr_update)
qed

text \<open>
  One call: the string \<open>s\<close> is at \<open>p\<close>, which is either passed as the string or remembered in
  \<open>last\<close> by the previous call.
\<close>

definition token_step ::
    "u8 list \<Rightarrow> mem \<Rightarrow> u32 \<Rightarrow> u8 list \<Rightarrow> u32 \<Rightarrow> u32 \<Rightarrow> mem \<Rightarrow> bool" where
  "token_step delim m p s tok lst m' \<longleftrightarrow>
     (case words delim s of
        [] \<Rightarrow> tok = 0 \<and> lst = 0 \<and> m' = m
      | w # ws \<Rightarrow> tok \<noteq> 0 \<and> cstr m' tok w
          \<and> (\<forall>a. \<not> (unat p \<le> unat a \<and> unat a < unat p + length s) \<longrightarrow> m' a = m a)
          \<and> (if lst = 0 then ws = []
             else \<exists>r. cstr m' lst r \<and> ws = words delim r \<and> length r < length s
               \<and> unat lst + length r = unat p + length s))"

lemma strtok_r_step:
  assumes s: "cstr m p s" and d: "0 \<notin> set delim" and p: "p \<noteq> 0" "unat p + length s < 2 ^ 32"
    and q: "q = p \<or> q = 0 \<and> lst = p"
  shows "\<exists>tok lst' m'. strtok_r m q delim lst = Some (tok, lst', m')
    \<and> token_step delim m p s tok lst' m'"
proof -
  let ?P = "\<lambda>c. c \<in> set delim"
  let ?pre = "takeWhile ?P s" and ?s = "dropWhile ?P s"
  let ?tok = "p + of_nat (length ?pre)"
  have "\<not> (q = 0 \<and> lst = 0)" "(if q = 0 then lst else q) = p" using q p by auto
  then have code: "strtok_r m q delim lst = (case skip_delims m p delim of None \<Rightarrow> None
      | Some (c, s) \<Rightarrow> if c = 0 then Some (0, 0, m) else
          (case scan_token m s delim of None \<Rightarrow> None | Some (m, lst) \<Rightarrow> Some (s - 1, lst, m)))"
    unfolding strtok_r_def Let_def by (simp only: if_False)
  note sk = skip_delims_spec [OF s d]
  show ?thesis
  proof (cases ?s)
    case Nil
    then have "strtok_r m q delim lst = Some (0, 0, m)"
      unfolding code sk Nil by simp
    moreover have "words delim s = []" by (subst words.simps) (simp only: Nil list.case)
    ultimately show ?thesis by (simp add: token_step_def)
  next
    case (Cons c cs)
    have split: "s = ?pre @ c # cs" using Cons takeWhile_dropWhile_id [of ?P s] by simp
    then have len: "length ?pre + Suc (length cs) = length s" by (metis length_append length_Cons)
    have tokstr: "cstr m ?tok (c # cs)" using s cstr_append [of m p ?pre "c # cs"] split by simp
    have c: "c \<noteq> 0" "c \<notin> set delim"
      using tokstr hd_dropWhile [of ?P s] Cons by simp_all
    have utok: "unat ?tok = unat p + length ?pre"
      by (rule unat_add_of_nat) (use p(2) len in simp)
    have tok0: "?tok \<noteq> 0" using utok p(1) by (metis add_is_0 unat_0 unat_eq_0)
    let ?w = "takeWhile (\<lambda>c. c \<notin> set delim) cs" and ?r = "dropWhile (\<lambda>c. c \<notin> set delim) cs"
    have wds: "words delim s = (c # ?w) # words delim ?r"
      using c(2) by (subst words.simps) (simp only: Cons list.case takeWhile.simps dropWhile.simps if_True not_False_eq_True)
    note sc = scan_token_spec [of m "?tok + 1" cs delim, OF _ d]
    have code': "strtok_r m q delim lst =
        (case scan_token m (?tok + 1) delim of None \<Rightarrow> None | Some (m, lst) \<Rightarrow> Some (?tok, lst, m))"
      unfolding code sk Cons using c(1) by (simp split: option.split)
    show ?thesis
    proof (cases ?r)
      case Nil
      then have "scan_token m (?tok + 1) delim = Some (m, 0)"
        using sc tokstr by simp
      moreover have "?w = cs" using Nil by (metis append_Nil2 takeWhile_dropWhile_id)
      ultimately show ?thesis
        using code' tok0 tokstr wds Nil
        by (simp add: token_step_def del: dropWhile_eq_Nil_conv takeWhile_eq_all_conv)
    next
      case (Cons e es)
      have cs: "cs = ?w @ e # es" using Cons takeWhile_dropWhile_id [of "\<lambda>c. c \<notin> set delim" cs] by simp
      then have clen: "length ?w + Suc (length es) = length cs" by (metis length_append length_Cons)
      have e: "e \<in> set delim" using hd_dropWhile [of "\<lambda>c. c \<notin> set delim" cs] Cons by simp
      let ?fin = "?tok + of_nat (length (c # ?w))"
      let ?m = "m(?fin := 0)"
      have "scan_token m (?tok + 1) delim = Some (?m, ?fin + 1)"
        using sc tokstr Cons by (simp add: ac_simps)
      then have step: "strtok_r m q delim lst = Some (?tok, ?fin + 1, ?m)"
        using code' by simp
      have "cstr m ?tok ((c # ?w) @ e # es)" using tokstr cs by simp
      from cstr_split [OF this]
      have strs: "cstr ?m ?tok (c # ?w)" "cstr ?m (?fin + 1) es" by simp_all
      have uend: "unat ?fin = unat ?tok + length (c # ?w)"
        by (rule unat_add_of_nat) (use p(2) len clen utok in simp)
      have uend1: "unat (?fin + 1) = unat ?fin + 1"
        using unat_add_of_nat [of ?fin 1] p(2) len clen utok uend by simp
      have wes: "words delim ?r = words delim es"
        unfolding Cons using e by (subst (1 2) words.simps) simp
      have "token_step delim m p s ?tok (?fin + 1) ?m"
      proof -
        have "?fin + 1 \<noteq> 0" using uend1 by (metis add_eq_0_iff_both_eq_0 one_neq_zero unat_0)
        moreover have "unat p \<le> unat ?fin \<and> unat ?fin < unat p + length s"
          using uend utok len clen by simp
        then have "\<forall>a. \<not> (unat p \<le> unat a \<and> unat a < unat p + length s) \<longrightarrow> ?m a = m a"
          by auto
        moreover have "length es < length s" "unat (?fin + 1) + length es = unat p + length s"
          using uend1 uend utok len clen by simp_all
        ultimately show ?thesis
          unfolding token_step_def wds wes list.case using tok0 strs by (metis (no_types, lifting))
      qed
      then show ?thesis using step by blast
    qed
  qed
qed

section \<open>strtoull\<close>

text \<open>The value of digits, most significant first, from \<open>acc\<close> on.\<close>

definition digits_val :: "int \<Rightarrow> int \<Rightarrow> int list \<Rightarrow> int" where
  "digits_val base acc ds = foldl (\<lambda>a d. a * base + d) acc ds"

lemma digits_val_simps [simp]:
  "digits_val base acc [] = acc"
  "digits_val base acc (d # ds) = digits_val base (acc * base + d) ds"
  by (simp_all add: digits_val_def)

lemma digits_val_ge:
  "0 \<le> acc \<Longrightarrow> 1 \<le> base \<Longrightarrow> \<forall>d\<in>set ds. 0 \<le> d \<Longrightarrow> acc \<le> digits_val base acc ds"
proof (induction ds arbitrary: acc)
  case Nil
  then show ?case by simp
next
  case (Cons d ds)
  have "acc * 1 \<le> acc * base" using Cons.prems by (intro mult_left_mono) auto
  then have "acc \<le> acc * base + d" using Cons.prems by simp
  also have "\<dots> \<le> digits_val base (acc * base + d) ds"
    using Cons.prems calculation by (intro Cons.IH) simp_all
  finally show ?case by simp
qed

lemma digit_value_nonneg: "digit_value c = Some d \<Longrightarrow> 0 \<le> d"
  by (auto simp: digit_value_def Let_def split: if_splits)

text \<open>The characters \<open>cs\<close> are digits of the base, with the values \<open>ds\<close>; \<open>e\<close> is none.\<close>

definition lower_digits :: "u8 list" where
  "lower_digits = map of_char ''0123456789abcdefghijklmnopqrstuvwxyz''"

definition upper_digits :: "u8 list" where
  "upper_digits = map of_char ''0123456789ABCDEFGHIJKLMNOPQRSTUVWXYZ''"

definition digit_char :: "u8 \<Rightarrow> int \<Rightarrow> bool" where
  "digit_char c d \<longleftrightarrow> 0 \<le> d \<and> d < 36 \<and> (c = lower_digits ! nat d \<or> c = upper_digits ! nat d)"

definition are_digits :: "int \<Rightarrow> u8 list \<Rightarrow> int list \<Rightarrow> bool" where
  "are_digits base cs ds \<longleftrightarrow> list_all2 (\<lambda>c d. digit_char c d \<and> d < base) cs ds"

definition no_digit :: "int \<Rightarrow> u8 \<Rightarrow> bool" where
  "no_digit base e \<longleftrightarrow> \<not> (\<exists>d. digit_char e d \<and> d < base)"

text \<open>The code computes the value of a digit from its character.\<close>

lemma digit_tables:
  "list_all (\<lambda>k. digit_value (lower_digits ! k) = Some (int k) \<and> digit_value (upper_digits ! k) = Some (int k)
    \<and> (if k < 10 then lower_digits ! k = of_nat (48 + k) else lower_digits ! k = of_nat (87 + k) \<and> upper_digits ! k = of_nat (55 + k))) [0..<36]"
  by code_simp

lemma digit_value_char: "digit_value c = Some d \<longleftrightarrow> digit_char c d"
proof
  have T: "digit_value (lower_digits ! k) = Some (int k)" "digit_value (upper_digits ! k) = Some (int k)"
    "k < 10 \<Longrightarrow> lower_digits ! k = of_nat (48 + k)" "10 \<le> k \<Longrightarrow> lower_digits ! k = of_nat (87 + k)"
    "10 \<le> k \<Longrightarrow> upper_digits ! k = of_nat (55 + k)" if "k < 36" for k
    using digit_tables that unfolding list_all_iff by (auto split: if_splits)
  show "digit_value c = Some d" if "digit_char c d"
    using that T(1,2) [of "nat d"] unfolding digit_char_def by auto
  have char: "c = of_nat (k + nat d)" if "sint c = int k + d" "0 \<le> d" for k
  proof -
    have "of_nat (k + nat d) = (of_int (int (k + nat d)) :: u8)" by (simp only: of_int_of_nat_eq)
    also have "int (k + nat d) = sint c" using that by simp
    finally show ?thesis by simp
  qed
  assume v: "digit_value c = Some d"
  then consider "sint c = 48 + d" "0 \<le> d" "d < 10" | "sint c = 55 + d" "10 \<le> d" "d < 36" | "sint c = 87 + d" "10 \<le> d" "d < 36"
    by (auto simp: digit_value_def Let_def split: if_splits)
  then show "digit_char c d"
  proof cases
    case 1
    then have "c = of_nat (48 + nat d)" using char [of 48] by simp
    then show ?thesis using 1 T(3) [of "nat d"] by (simp add: digit_char_def)
  next
    case 2
    then have "c = of_nat (55 + nat d)" using char [of 55] by simp
    then show ?thesis using 2 T(5) [of "nat d"] by (simp add: digit_char_def)
  next
    case 3
    then have "c = of_nat (87 + nat d)" using char [of 87] by simp
    then show ?thesis using 3 T(4) [of "nat d"] by (simp add: digit_char_def)
  qed
qed

lemma no_digit_value: "no_digit base e \<longleftrightarrow> (case digit_value e of None \<Rightarrow> True | Some d \<Rightarrow> base \<le> d)"
  by (auto simp: no_digit_def digit_value_char [symmetric] split: option.split)

lemma are_digits_value: "are_digits base cs ds \<longleftrightarrow> list_all2 (\<lambda>c d. digit_value c = Some d \<and> d < base) cs ds"
  by (simp add: are_digits_def digit_value_char)

lemma are_digits_simps [simp]:
  "are_digits base [] ds \<longleftrightarrow> ds = []"
  "are_digits base (c # cs) ds \<longleftrightarrow> (\<exists>d ds'. ds = d # ds' \<and> digit_value c = Some d \<and> d < base \<and> are_digits base cs ds')"
  by (auto simp: are_digits_value list_all2_Cons1)

lemma are_digits_nonneg: "are_digits base cs ds \<Longrightarrow> \<forall>d\<in>set ds. 0 \<le> d"
  by (induction cs arbitrary: ds) (auto dest: digit_value_nonneg)

text \<open>The overflow test of the code is exact.\<close>

lemma cutoff_exact:
  fixes acc :: u64 and base d :: int
  assumes "2 \<le> base" and "base \<le> 36" and "0 \<le> d" and "d < base"
  defines "cutoff \<equiv> - 1 div word_of_int base :: u64"
    and "cutlim \<equiv> uint ((- 1 :: u64) mod word_of_int base)"
  shows "acc > cutoff \<or> (acc = cutoff \<and> d > cutlim) \<longleftrightarrow> 2 ^ 64 \<le> uint acc * base + d"
    and "uint acc * base + d < 2 ^ 64 \<Longrightarrow>
      uint (acc * word_of_int base + word_of_int d) = uint acc * base + d"
proof -
  have b: "uint (word_of_int base :: u64) = base" and dw: "uint (word_of_int d :: u64) = d"
    using assms(1-4) by (simp_all add: uint_word_of_int take_bit_int_eq_self)
  define q r where "q = (2 ^ 64 - 1) div base" and "r = (2 ^ 64 - 1) mod base"
  have m1: "uint (- 1 :: u64) = 2 ^ 64 - 1" by (simp add: unsigned_minus_1_eq_mask mask_eq_exp_minus_1)
  have qr: "uint cutoff = q" "cutlim = r"
    unfolding cutoff_def cutlim_def uint_div_distrib uint_mod_distrib b m1 q_def r_def by simp_all
  have eq: "q * base + r = 2 ^ 64 - 1" unfolding q_def r_def by simp
  have r: "0 \<le> r" "r < base" unfolding r_def using assms(1) by simp_all
  consider "q < uint acc" | "uint acc = q" | "uint acc < q" by linarith
  then show "acc > cutoff \<or> (acc = cutoff \<and> d > cutlim) \<longleftrightarrow> 2 ^ 64 \<le> uint acc * base + d"
  proof cases
    case 1
    then have "(q + 1) * base \<le> uint acc * base" using assms(1) by (intro mult_right_mono) auto
    then have "2 ^ 64 \<le> uint acc * base + d" using eq r assms(3) by (simp add: distrib_right)
    then show ?thesis using 1 by (simp add: word_less_def qr(1))
  next
    case 2
    then have "acc = cutoff" using qr(1) by (simp add: word_uint_eq_iff)
    then show ?thesis using 2 eq by (auto simp: qr)
  next
    case 3
    then have "(uint acc + 1) * base \<le> q * base" using assms(1) by (intro mult_right_mono) auto
    then have "uint acc * base + d < 2 ^ 64" using eq r assms(4) by (simp add: distrib_right)
    then show ?thesis using 3 qr(1) by (auto simp: word_less_def)
  qed
  assume small: "uint acc * base + d < 2 ^ 64"
  have "0 \<le> uint acc * base" using assms(1) by simp
  then have "take_bit 64 (uint acc * base + d) = uint acc * base + d"
    using small assms(3) by (intro take_bit_int_eq_self) simp_all
  moreover have "uint (acc * word_of_int base + word_of_int d) = take_bit 64 (uint acc * base + d)"
    unfolding uint_word_ariths b dw by (simp add: take_bit_eq_mod mod_simps)
  ultimately show "uint (acc * word_of_int base + word_of_int d) = uint acc * base + d" by simp
qed

lemma convert_step:
  "convert m base cutoff cutlim c s acc any =
     (case digit_value c of
        None \<Rightarrow> Some (acc, any, s)
      | Some d \<Rightarrow>
          if d \<ge> base then Some (acc, any, s)
          else if any < 0 \<or> (acc > cutoff \<or> (acc = cutoff \<and> d > cutlim))
          then convert m base cutoff cutlim (m s) (s + 1) acc (- 1)
          else convert m base cutoff cutlim (m s) (s + 1) (acc * word_of_int base + word_of_int d) 1)"
  by (rule convert.simps)

lemma convert_overflowed:
  assumes "read_bytes m s (length cs) = drop 1 (cs @ [e])" "c = hd (cs @ [e])"
    and "are_digits base cs ds" and "no_digit base e" and "any < 0" and "any = - 1 "
  shows "convert m base cutoff cutlim c s acc any = Some (acc, - 1, s + of_nat (length cs))"
  using assms
proof (induction cs arbitrary: c s ds any)
  case Nil
  then show ?case
    by (subst convert_step) (auto simp: no_digit_value split: option.split)
next
  case (Cons c0 cs)
  obtain d ds' where d: "digit_value c0 = Some d" "d < base" "are_digits base cs ds'"
    using Cons.prems(3) by auto
  have "cs @ [e] = m s # read_bytes m (s + 1) (length cs)"
    using Cons.prems(1) by simp
  then have "read_bytes m (s + 1) (length cs) = drop 1 (cs @ [e])" "m s = hd (cs @ [e])"
    by simp_all
  from Cons.IH [OF this d(3) Cons.prems(4,5,6)]
  show ?case
    using d Cons.prems by (subst convert_step) (simp add: ac_simps)
qed

lemma convert_digits:
  assumes "read_bytes m s (length cs) = drop 1 (cs @ [e])" "c = hd (cs @ [e])"
    and "are_digits base cs ds" and "no_digit base e" and "any = 0 \<or> any = 1"
    and b: "2 \<le> base" "base \<le> 36"
  shows "\<exists>acc' any'. convert m base (- 1 div word_of_int base) (uint ((- 1 :: u64) mod word_of_int base))
      c s acc any = Some (acc', any', s + of_nat (length cs))
    \<and> (if cs = [] then any' = any \<and> acc' = acc
       else if digits_val base (uint acc) ds < 2 ^ 64
       then any' = 1 \<and> uint acc' = digits_val base (uint acc) ds else any' = - 1)"
  using assms(1-5)
proof (induction cs arbitrary: c s ds any acc)
  case Nil
  then show ?case
    by (subst convert_step) (auto simp: no_digit_value split: option.split)
next
  case (Cons c0 cs)
  obtain d ds' where d: "ds = d # ds'" "digit_value c0 = Some d" "d < base" "are_digits base cs ds'"
    using Cons.prems(3) by auto
  have d0: "0 \<le> d" using digit_value_nonneg [OF d(2)] .
  have "cs @ [e] = m s # read_bytes m (s + 1) (length cs)"
    using Cons.prems(1) by simp
  then have next_chars: "read_bytes m (s + 1) (length cs) = drop 1 (cs @ [e])" "m s = hd (cs @ [e])"
    by simp_all
  note cut = cutoff_exact [OF b d0 d(3), of acc]
  have c: "digit_value c = Some d" using Cons.prems(2) d(2) by simp
  let ?acc = "acc * word_of_int base + word_of_int d"
  show ?case
  proof (cases "uint acc * base + d < 2 ^ 64")
    case False
    have "uint acc * base + d \<le> digits_val base (uint acc * base + d) ds'"
      using b d0 are_digits_nonneg [OF d(4)] by (intro digits_val_ge) simp_all
    then have "\<not> digits_val base (uint acc) ds < 2 ^ 64" using False d(1) by simp
    moreover note convert_overflowed [OF next_chars d(4) Cons.prems(4), of "- 1"]
    ultimately show ?thesis
      using c d(3) cut(1) False by (subst convert_step) (simp add: ac_simps)
  next
    case True
    have rec: "convert m base (- 1 div word_of_int base) (uint ((- 1 :: u64) mod word_of_int base)) c s acc any
      = convert m base (- 1 div word_of_int base) (uint ((- 1 :: u64) mod word_of_int base)) (m s) (s + 1) ?acc 1"
      using c d(3) cut(1) True Cons.prems(5) by (subst convert_step) auto
    obtain acc' any' where IH: "convert m base (- 1 div word_of_int base)
        (uint ((- 1 :: u64) mod word_of_int base)) (m s) (s + 1) ?acc 1
        = Some (acc', any', s + 1 + of_nat (length cs))"
      "if cs = [] then any' = 1 \<and> acc' = ?acc
       else if digits_val base (uint ?acc) ds' < 2 ^ 64
       then any' = 1 \<and> uint acc' = digits_val base (uint ?acc) ds' else any' = - 1"
      using Cons.IH [OF next_chars d(4) Cons.prems(4), of 1 ?acc] by blast
    show ?thesis
      unfolding rec IH(1) using IH(2) cut(2) [OF True] True d(1,4)
      by (auto simp: ac_simps split: if_splits)
  qed
qed

lemma skip_spaces_spec:
  "read_bytes m p (Suc k) = replicate k 0x20 @ [c] \<Longrightarrow> c \<noteq> 0x20 \<Longrightarrow>
   skip_spaces m p = Some (c, p + of_nat k + 1)"
proof (induction k arbitrary: p)
  case 0
  then show ?case by (subst skip_spaces.simps) (simp add: Let_def)
next
  case (Suc k)
  have "m p = 0x20" "read_bytes m (p + 1) (Suc k) = replicate k 0x20 @ [c]"
    using Suc.prems(1) by simp_all
  then show ?case
    using Suc.IH [of "p + 1"] Suc.prems(2)
    by (subst skip_spaces.simps) (simp add: Let_def ac_simps del: read_bytes.simps)
qed

text \<open>
  The input: blanks, a sign, a prefix \<open>0x\<close> where the base allows it, digits, and a character
  \<open>e\<close> that is no digit. \<open>eff\<close> is the base the digits are read in.
\<close>

definition number_text ::
    "int \<Rightarrow> nat \<Rightarrow> u8 list \<Rightarrow> u8 list \<Rightarrow> u8 list \<Rightarrow> int list \<Rightarrow> u8 \<Rightarrow> int \<Rightarrow> bool" where
  "number_text base k sign pre cs ds e eff \<longleftrightarrow>
     sign \<in> {[], [0x2D], [0x2B]} \<and> cs \<noteq> [] \<and> are_digits eff cs ds \<and> no_digit eff e
     \<and> ((pre = [] \<and> 2 \<le> base \<and> base \<le> 36 \<and> base \<noteq> 16 \<and> eff = base)
        \<or> (pre = [] \<and> base = 0 \<and> hd cs \<noteq> 0x30 \<and> eff = 10)
        \<or> (pre \<in> {[0x30, 0x78], [0x30, 0x58]} \<and> (base = 0 \<or> base = 16) \<and> eff = 16))"

lemma digit_no_blank:
  assumes "digit_value c = Some d"
  shows "c \<noteq> 0x20" "c \<noteq> 0x2D" "c \<noteq> 0x2B"
  using assms by (auto simp: digit_value_def)

lemma hex_digit_char: "digit_value c = Some d \<Longrightarrow> d < 16 \<Longrightarrow> is_hex_char c"
  by (auto simp: digit_value_def is_hex_char_def Let_def split: if_splits)

lemma read_bytes_parts:
  "read_bytes m p (length (xs @ ys)) = xs @ ys \<longleftrightarrow>
   read_bytes m p (length xs) = xs \<and> read_bytes m (p + of_nat (length xs)) (length ys) = ys"
  by (simp add: read_bytes_append)

lemma read_bytes_Cons [simp]:
  "read_bytes m p (length (x # xs)) = x # xs \<longleftrightarrow> m p = x \<and> read_bytes m (p + 1) (length xs) = xs"
  by simp

lemma strtoull_value:
  assumes nt: "number_text base k sign pre cs ds e eff"
    and inp: "read_bytes m nptr (length (replicate k 0x20 @ sign @ pre @ cs @ [e]))
      = replicate k 0x20 @ sign @ pre @ cs @ [e]"
  shows "strtoull m nptr base = Some
    (let n = digits_val eff 0 ds in
      if 2 ^ 64 \<le> n then - 1 else if sign = [0x2D] then - word_of_int n else word_of_int n,
     nptr + of_nat (length (replicate k 0x20 @ sign @ pre @ cs)))"
proof -
  define p1 p2 p3 where "p1 = nptr + of_nat k" and "p2 = p1 + of_nat (length sign)"
    and "p3 = p2 + of_nat (length pre)"
  obtain c1 ct where cs: "cs = c1 # ct" using nt by (cases cs) (auto simp: number_text_def)
  have parts: "read_bytes m nptr k = replicate k 0x20" "read_bytes m p1 (length sign) = sign"
    "read_bytes m p2 (length pre) = pre" "read_bytes m p3 (length (cs @ [e])) = cs @ [e]"
    using inp unfolding read_bytes_parts [of m nptr] read_bytes_parts [of m p1, unfolded p1_def]
    by (simp_all only: length_replicate p1_def p2_def p3_def read_bytes_parts)
  have digs: "are_digits eff cs ds" "no_digit eff e" "2 \<le> eff" "eff \<le> 36"
    using nt by (auto simp: number_text_def)
  obtain d1 where d1: "digit_value c1 = Some d1" "d1 < eff"
    using digs(1) cs by auto
  note c1 = digit_no_blank [OF d1(1)]
  have p3: "m p3 = c1" "read_bytes m (p3 + 1) (length cs) = drop 1 (cs @ [e])"
    using parts(4) cs by simp_all
  let ?c0 = "hd (sign @ pre @ cs)"
  have c0: "m p1 = ?c0" "?c0 \<noteq> 0x20"
    using nt parts(2,3) p3(1) c1 cs
    by (auto simp: number_text_def p2_def p3_def)
  have "read_bytes m nptr (Suc k) = replicate k 0x20 @ [?c0]"
    using read_bytes_append [of m nptr k 1] parts(1) c0(1) by (simp add: p1_def)
  then have sk: "skip_spaces m nptr = Some (?c0, p1 + 1)"
    using skip_spaces_spec c0(2) unfolding p1_def by blast
  have after_sign: "(if ?c0 = 0x2D \<or> ?c0 = 0x2B then (m (p1 + 1), p1 + 1 + 1) else (?c0, p1 + 1))
      = (m p2, p2 + 1)"
    using nt c0(1) cs c1 by (auto simp: number_text_def p2_def)
  have neg: "(?c0 = 0x2D) = (sign = [0x2D])"
    using nt cs c1 by (auto simp: number_text_def)
  let ?hex = "(base = 0 \<or> base = 16) \<and> m p2 = 0x30 \<and> (m (p2 + 1) = 0x78 \<or> m (p2 + 1) = 0x58)
      \<and> is_hex_char (m (p2 + 1 + 1))"
  have hex: "?hex \<longleftrightarrow> pre \<noteq> []"
    using nt parts(3) p3(1) cs d1 hex_digit_char [of c1 d1]
    by (auto simp: number_text_def p3_def ac_simps)
  have after_prefix: "(if ?hex then (m (p2 + 1 + 1), p2 + 1 + 2, 16) else (m p2, p2 + 1, base))
      = (c1, p3 + 1, if pre = [] then base else 16)"
    unfolding hex using nt p3(1) by (auto simp: number_text_def p3_def ac_simps)
  have eff: "(if (if pre = [] then base else 16) = 0 then if c1 = 0x30 then 8 else 10
      else (if pre = [] then base else 16)) = eff"
    using nt cs by (auto simp: number_text_def)
  obtain acc any where conv: "convert m eff (- 1 div word_of_int eff)
      (uint ((- 1 :: u64) mod word_of_int eff)) c1 (p3 + 1) 0 0 = Some (acc, any, p3 + 1 + of_nat (length cs))"
    "if digits_val eff 0 ds < 2 ^ 64 then any = 1 \<and> uint acc = digits_val eff 0 ds else any = - 1"
    using convert_digits [OF p3(2) _ digs(1,2) _ digs(3,4), of c1 0 0] cs by auto
  have code: "strtoull m nptr base = Some
      (if any < 0 then - 1 else if any = 0 then acc else if sign = [0x2D] then - acc else acc,
       if any \<noteq> 0 then p3 + 1 + of_nat (length cs) - 1 else nptr)"
    unfolding strtoull_def sk option.case prod.case Let_def after_sign
    unfolding after_prefix prod.case eff conv(1) option.case neg
    using digs(3,4) by simp
  have "nptr + of_nat (length (replicate k 0x20 @ sign @ pre @ cs)) = p3 + of_nat (length cs)"
    by (simp add: p1_def p2_def p3_def ac_simps)
  moreover have "acc = word_of_int (digits_val eff 0 ds)" if "uint acc = digits_val eff 0 ds"
    by (simp flip: that)
  ultimately show ?thesis
    unfolding code Let_def using conv(2) by (auto split: if_splits)
qed

section \<open>Properties\<close>

text \<open>
  C25. strcmp on two strings in memory is the lexicographic order of their unsigned characters: it
  is 0 for equal strings only, and negative exactly if the first comes first.
\<close>

theorem strcmp_lexicographic:
  assumes "cstr m p a" and "cstr m q b" and "length b < 2 ^ 32 - 1"
  shows "(strcmp (at m p) (at m q) = 0 \<longleftrightarrow> a = b) \<and> (strcmp (at m p) (at m q) < 0 \<longleftrightarrow> a < b)"
  using strcmp_order [OF holds_at [OF assms(1)] holds_at [OF assms(2)] assms(3)] by simp

text \<open>The memory with the bytes \<open>bs\<close> at 0x100 and zeros elsewhere.\<close>

definition sample :: "u8 list \<Rightarrow> mem" where
  "sample bs = write_bytes (\<lambda>_. 0) 0x100 bs"

lemma strcmp_lexicographic_witness:
  "strcmp (at (sample [0x61, 0, 0x80]) 0x100) (at (sample [0x61, 0, 0x80]) 0x102) < 0"
  using strcmp_lexicographic [of "sample [0x61, 0, 0x80]" "0x100" "[0x61]" "0x102" "[0x80]"]
  by (simp add: sample_def)

text \<open>
  C26. strncpy copies the string up to its NUL or the limit, whichever comes first, and fills the
  rest of the buffer with zeros; it writes nothing else. A string that reaches the limit is left
  without a NUL.
\<close>

theorem strncpy_truncates_or_pads:
  assumes "cstr m src s" and "length s < unat (dst - src)"
  shows "strncpy m dst src n
      = write_bytes m dst (take (unat n) s @ replicate (unat n - length s) 0)
    \<and> (length s < unat n \<longrightarrow> cstr (strncpy m dst src n) dst s)
    \<and> (unat n \<le> length s \<longrightarrow> read_bytes (strncpy m dst src n) dst (unat n) = take (unat n) s)"
  by (rule strncpy_result [OF assms])

lemma strncpy_truncates_or_pads_witness:
  "read_bytes (strncpy (sample [0x61, 0x62, 0x63, 0]) 0x200 0x100 2) 0x200 2 = [0x61, 0x62]"
  using strncpy_truncates_or_pads [of "sample [0x61, 0x62, 0x63, 0]" "0x100" "[0x61, 0x62, 0x63]" "0x200" 2]
  by (simp add: sample_def) (simp add: eval_nat_numeral)

text \<open>
  C19. One call of strtok_r, whether it starts a string or goes on with the rest in \<open>last\<close>: it
  returns the next maximal run of non-delimiters as a string of its own, remembers the rest, and
  changes memory only within the string; without a token it returns NULL and changes nothing.
\<close>

theorem strtok_r_token:
  assumes "cstr m p s" and "0 \<notin> set delim" and "p \<noteq> 0" and "unat p + length s < 2 ^ 32"
    and "q = p \<or> q = 0 \<and> lst = p"
  shows "\<exists>tok lst' m'. strtok_r m q delim lst = Some (tok, lst', m')
    \<and> token_step delim m p s tok lst' m'"
  by (rule strtok_r_step [OF assms])

lemma strtok_r_token_witness:
  "\<exists>tok lst' m'. strtok_r (sample [0x61, 0x20, 0x62, 0]) 0x100 [0x20] 0 = Some (tok, lst', m')
    \<and> token_step [0x20] (sample [0x61, 0x20, 0x62, 0]) 0x100 [0x61, 0x20, 0x62] tok lst' m'"
  by (rule strtok_r_token) (simp_all add: sample_def)

text \<open>
  C18. strtoull on blanks, a sign, a prefix \<open>0x\<close> where the base takes one, and digits: the value of
  the digits, negated modulo 2^64 after a minus sign, \<open>ULLONG_MAX\<close> exactly when the value does
  not fit 64 bits; the end pointer is at the first character that is no digit.
\<close>

theorem strtoull_number:
  assumes "number_text base k sign pre cs ds e eff"
    and "read_bytes m nptr (length (replicate k 0x20 @ sign @ pre @ cs @ [e]))
      = replicate k 0x20 @ sign @ pre @ cs @ [e]"
  shows "strtoull m nptr base = Some
    (let n = digits_val eff 0 ds in
      if 2 ^ 64 \<le> n then - 1 else if sign = [0x2D] then - word_of_int n else word_of_int n,
     nptr + of_nat (length (replicate k 0x20 @ sign @ pre @ cs)))"
  by (rule strtoull_value [OF assms])

lemma strtoull_number_witness:
  "strtoull (sample [0x20, 0x2D, 0x30, 0x78, 0x31, 0x66, 0]) 0x100 0 = Some (- 31, 0x106)"
  using strtoull_number [of 0 1 "[0x2D]" "[0x30, 0x78]" "[0x31, 0x66]" "[1, 15]" 0 16
      "sample [0x20, 0x2D, 0x30, 0x78, 0x31, 0x66, 0]" "0x100"]
  by (simp add: number_text_def no_digit_value digit_value_def sample_def)

end
