(* ===== verification/Printf_Proof.thy ===== *)
theory Printf_Proof imports Printf Qdivrem_Correct Console_Proof Libc_String_Proof begin

text \<open>
  printf refines a specification in two passes: the format is parsed into directives, these are
  expanded with the arguments to a text, and the text is what printf puts out, character by
  character. Its decimal digits rest on a contract of the two divisions (\<open>udiv64\<close>) that the
  routines of qdivrem.c are shown to meet.
\<close>

section \<open>The contract of the divisions\<close>

locale udiv64 =
  fixes udiv umod :: "u64 \<Rightarrow> u64 \<Rightarrow> (fault + u64) option"
  assumes udiv_div: "b \<noteq> 0 \<Longrightarrow> udiv a b = Some (Inr (a div b))"
    and umod_mod: "b \<noteq> 0 \<Longrightarrow> umod a b = Some (Inr (a mod b))"

text \<open>Decimal and hexadecimal numerals.\<close>

fun dec_digits :: "nat \<Rightarrow> u8 list" where
  "dec_digits n = (if n < 10 then [0x30 + of_nat n] else dec_digits (n div 10) @ [0x30 + of_nat (n mod 10)])"

fun hex_digits :: "nat \<Rightarrow> u8 list" where
  "hex_digits n = (if n < 16 then [hex ! n] else hex_digits (n div 16) @ [hex ! (n mod 16)])"

declare dec_digits.simps [simp del] hex_digits.simps [simp del]

lemma length_dec_digits: "n < 10 ^ Suc k \<Longrightarrow> length (dec_digits n) \<le> Suc k"
proof (induction k arbitrary: n)
  case 0
  then show ?case by (simp add: dec_digits.simps)
next
  case (Suc k)
  have "n div 10 < 10 ^ Suc k" using Suc.prems by (simp add: less_mult_imp_div_less)
  then show ?case using Suc.IH [of "n div 10"] by (subst dec_digits.simps) simp
qed

lemma length_hex_digits: "n < 16 ^ Suc k \<Longrightarrow> length (hex_digits n) \<le> Suc k"
proof (induction k arbitrary: n)
  case 0
  then show ?case by (simp add: hex_digits.simps)
next
  case (Suc k)
  have "n div 16 < 16 ^ Suc k" using Suc.prems by (simp add: less_mult_imp_div_less)
  then show ?case using Suc.IH [of "n div 16"] by (subst hex_digits.simps) simp
qed

lemma unat_div_const: "unat (a div b :: 'a::len word) = unat a div unat b"
  by (simp add: unat_div_distrib)

context udiv64
begin

lemma dec_loop_digits: "dec_loop udiv umod ull buf = Some (Inr (buf @ rev (dec_digits (unat ull))))"
proof (induction "unat ull" arbitrary: ull buf rule: less_induct)
  case less
  have ten: "(10::u64) \<noteq> 0" by simp
  have r: "unat (ull mod 10) = unat ull mod 10" "unat (ull div 10) = unat ull div 10"
    by (simp_all add: unat_mod_distrib unat_div_distrib)
  have d: "(ucast (ull mod 10) :: u8) = of_nat (unat ull mod 10)"
    using r(1) by (metis of_nat_unat)
  note step = dec_loop.simps [of udiv umod ull buf] udiv_div [OF ten] umod_mod [OF ten]
  show ?case
  proof (cases "unat ull < 10")
    case True
    then have "ull div 10 = 0" using r(2) by (simp add: word_unat_eq_iff)
    then show ?thesis
      using True d by (simp add: step Let_def dec_digits.simps [of "unat ull"])
  next
    case False
    then have "ull div 10 \<noteq> 0" using r(2) by (simp add: word_unat_eq_iff del: One_nat_def)
    moreover have "unat (ull div 10) < unat ull" using False r(2) by simp
    ultimately show ?thesis
      using less.hyps [of "ull div 10"] False d r(2)
      by (simp add: step Let_def dec_digits.simps [of "unat ull"])
  qed
qed

end

text \<open>The compiler's routines meet the contract, whatever the stack held.\<close>

interpretation compiler: udiv64 "udivdi3 junk" "umoddi3 junk" for junk
  by unfold_locales (simp_all add: udivdi3_div umoddi3_mod)

lemma hex_loop_digits: "hex_loop ull buf = Some (buf @ rev (hex_digits (unat ull)))"
proof (induction "unat ull" arbitrary: ull buf rule: less_induct)
  case less
  have r: "unat (ull AND 0xF) = unat ull mod 16" "unat (drop_bit 4 ull) = unat ull div 16"
  proof -
    have "ull AND 0xF = take_bit 4 ull" by (simp add: take_bit_eq_mask mask_eq_exp_minus_1)
    then show "unat (ull AND 0xF) = unat ull mod 16"
      by (simp add: take_bit_eq_mod unat_mod_distrib)
    show "unat (drop_bit 4 ull) = unat ull div 16"
      by (simp add: drop_bit_eq_div unat_div_distrib)
  qed
  show ?case
  proof (cases "unat ull < 16")
    case True
    then have "drop_bit 4 ull = 0" using r(2) by (simp add: word_unat_eq_iff)
    then show ?thesis
      using True r(1) by (subst hex_loop.simps) (simp add: Let_def hex_digits.simps [of "unat ull"])
  next
    case False
    then have "drop_bit 4 ull \<noteq> 0" using r(2) by (simp add: word_unat_eq_iff)
    moreover have "unat (drop_bit 4 ull) < unat ull" using False r(2) by simp
    ultimately show ?thesis
      using less.hyps [of "drop_bit 4 ull"] False r
      by (subst hex_loop.simps) (simp add: Let_def hex_digits.simps [of "unat ull"])
  qed
qed

section \<open>The output as a text\<close>

lemma pad_loop_eq: "pad_loop n fill s = fold out_char (replicate (unat fill - unat n) 0x30) s"
proof (induction n fill s rule: pad_loop.induct)
  case (1 n fill s)
  show ?case
  proof (cases "n < fill")
    case False
    then show ?thesis by (subst pad_loop.simps) (simp add: word_less_nat_alt)
  next
    case True
    then have "fill \<noteq> 0" by auto
    then have "unat (fill - 1) = unat fill - 1" by (rule unat_minus_one)
    moreover have "unat n < unat fill" using True by (simp add: word_less_nat_alt)
    ultimately have "unat fill - unat n = Suc (unat (fill - 1) - unat n)" by simp
    then show ?thesis using 1 True by (subst pad_loop.simps) simp
  qed
qed

lemma dumpbuf_eq:
  "length buf \<le> 64 \<Longrightarrow> dumpbuf buf fill s =
   fold out_char (replicate (unat fill - length buf) 0x30 @ map char_arg (rev buf)) s"
  by (simp add: dumpbuf_def pad_loop_eq unat_of_nat_small fold_map comp_def)

lemma out_lit_eq: "out_lit cs s = fold out_char (map (\<lambda>c. char_arg (of_char c)) cs) s"
  by (simp add: out_lit_def fold_map comp_def)

lemma quiet_fold: "quiet s (fold out_char cs s)"
  by (induction cs arbitrary: s) (auto intro: quiet_trans [OF quiet_out_char])

lemma ram_out_char [simp]: "ram (out_char v s) = ram s"
  using quiet_out_char [of s v] by (simp add: quiet_def)

lemma ram_fold [simp]: "ram (fold out_char cs s) = ram s"
  using quiet_fold [of s cs] by (simp add: quiet_def)

lemma out_string_eq:
  "cstr (ram s) p str \<Longrightarrow> out_string p s = Some (Inr ((), fold out_char (map char_arg str) s))"
proof (induction str arbitrary: p s)
  case Nil
  then show ?case by (subst out_string.simps) simp
next
  case (Cons c str)
  then show ?case by (subst out_string.simps) simp
qed

section \<open>The specification\<close>

datatype directive =
    Text char
  | Conv u32 u32 char

definition is_conv :: "char \<Rightarrow> bool" where
  "is_conv c \<longleftrightarrow> c \<in> set ''csdupx''"

text \<open>
  After a percent sign: the last decimal digit is the fill, every \<open>l\<close> counts, anything else but
  a conversion character is skipped.
\<close>

fun conv_spec :: "string \<Rightarrow> u32 \<Rightarrow> u32 \<Rightarrow> (directive \<times> string) option" where
  "conv_spec [] longness fill = None"
| "conv_spec (c # fmt) longness fill =
     (if is_conv c then Some (Conv longness fill c, fmt)
      else if c \<in> set ''0123456789'' then conv_spec fmt longness (of_char c - 48)
      else if c = CHR ''l'' then conv_spec fmt (longness + 1) fill
      else conv_spec fmt longness fill)"

lemma conv_spec_shorter: "conv_spec fmt l f = Some (d, rest) \<Longrightarrow> length rest < length fmt"
  by (induction fmt l f rule: conv_spec.induct) (auto split: if_splits)

function directives :: "string \<Rightarrow> directive list" where
  "directives [] = []"
| "directives (c # fmt) =
     (if c = CHR ''%''
      then (case conv_spec fmt 0 0 of None \<Rightarrow> [] | Some (d, rest) \<Rightarrow> d # directives rest)
      else Text c # directives fmt)"
  by pat_completeness auto
termination
  by (relation "measure length") (auto dest: conv_spec_shorter)

text \<open>The text of a number, padded with zeros on the left.\<close>

definition zero_padded :: "u32 \<Rightarrow> u8 list \<Rightarrow> u8 list" where
  "zero_padded fill ds = replicate (unat fill - length ds) 0x30 @ ds"

text \<open>
  One directive with the arguments that are left, and \<open>str\<close> for the strings in memory: its text
  and the arguments left after it.
\<close>

fun expand_one :: "(u32 \<Rightarrow> u8 list option) \<Rightarrow> directive \<Rightarrow> va list \<Rightarrow> (u32 list \<times> va list) option" where
  "expand_one str (Text c) ap = Some ([char_arg (of_char c)], ap)"
| "expand_one str (Conv longness fill c) ap =
     (if c = CHR ''c'' then (case ap of Va_word w # ap \<Rightarrow> Some ([w], ap) | _ \<Rightarrow> None)
      else if c = CHR ''s''
      then (case ap of
              Va_word p # ap \<Rightarrow> map_option (\<lambda>s. (map char_arg s, ap)) (str p)
            | Va_lit cs # ap \<Rightarrow> Some (map (\<lambda>c. char_arg (of_char c)) cs, ap)
            | _ \<Rightarrow> None)
      else map_option
        (\<lambda>(n, ap). (map char_arg (zero_padded fill
           ((if c \<in> set ''du'' then dec_digits else hex_digits) (unat n))), ap))
        (va_uint longness ap))"

fun expand :: "(u32 \<Rightarrow> u8 list option) \<Rightarrow> directive list \<Rightarrow> va list \<Rightarrow> u32 list option" where
  "expand str [] ap = Some []"
| "expand str (d # ds) ap =
     (case expand_one str d ap of
        None \<Rightarrow> None
      | Some (t, ap) \<Rightarrow> map_option ((@) t) (expand str ds ap))"

definition strings_in :: "(u32 \<Rightarrow> u8 list option) \<Rightarrow> mem \<Rightarrow> bool" where
  "strings_in str m \<longleftrightarrow> (\<forall>p s. str p = Some s \<longrightarrow> cstr m p s)"

section \<open>The refinement\<close>

lemma dumpbuf_dec:
  "dumpbuf (rev (dec_digits (unat (n::u64)))) fill s = fold out_char (map char_arg (zero_padded fill (dec_digits (unat n)))) s"
proof -
  have "char_arg 0x30 = 0x30" by (simp add: char_arg_def)
  moreover have "length (dec_digits (unat n)) \<le> Suc 19"
    using unsigned_less [of n, where 'a = nat] by (intro length_dec_digits) simp
  ultimately show ?thesis by (simp add: dumpbuf_eq zero_padded_def)
qed

lemma dumpbuf_hex:
  "dumpbuf (rev (hex_digits (unat (n::u64)))) fill s = fold out_char (map char_arg (zero_padded fill (hex_digits (unat n)))) s"
proof -
  have "char_arg 0x30 = 0x30" by (simp add: char_arg_def)
  moreover have "length (hex_digits (unat n)) \<le> Suc 15"
    using unsigned_less [of n, where 'a = nat] by (intro length_hex_digits) simp
  ultimately show ?thesis by (simp add: dumpbuf_eq zero_padded_def)
qed

text \<open>A computation that only puts out a text and returns \<open>x\<close>.\<close>

definition puts_out :: "(machine, 'a) comp \<Rightarrow> u32 list \<Rightarrow> 'a \<Rightarrow> machine \<Rightarrow> bool" where
  "puts_out f t x s \<longleftrightarrow> f s = Some (Inr (x, fold out_char t s))"

lemma puts_out_andthen:
  "puts_out f t x s \<Longrightarrow> puts_out (g x) t' y (fold out_char t s) \<Longrightarrow> puts_out (andthen f g) (t @ t') y s"
  by (simp add: puts_out_def andthen_Inr)

lemma puts_out_conversions:
  "map_option (\<lambda>(n, ap). (map char_arg (zero_padded fill (dec_digits (unat n))), ap)) (va_uint l ap)
     = Some (t, ap') \<Longrightarrow> puts_out (conversion_d l fill ap) t ap' s"
  "map_option (\<lambda>(n, ap). (map char_arg (zero_padded fill (hex_digits (unat n))), ap)) (va_uint l ap)
     = Some (t, ap') \<Longrightarrow> puts_out (conversion_x l fill ap) t ap' s"
  by (auto simp: puts_out_def conversion_d_def conversion_x_def andthen_def reads_def modifies_def
      ret_def compiler.dec_loop_digits hex_loop_digits dumpbuf_dec dumpbuf_hex)

lemma puts_out_c:
  "(case ap of Va_word w # ap \<Rightarrow> Some ([w], ap) | _ \<Rightarrow> None) = Some (t, ap') \<Longrightarrow>
   puts_out (conversion_c ap) t ap' s"
  by (auto simp: puts_out_def conversion_c_def modifies_def ret_def andthen_def
      split: list.splits va.splits)

lemma puts_out_s:
  assumes "strings_in str (ram s)"
    and "(case ap of
            Va_word p # ap \<Rightarrow> map_option (\<lambda>s. (map char_arg s, ap)) (str p)
          | Va_lit cs # ap \<Rightarrow> Some (map (\<lambda>c. char_arg (of_char c)) cs, ap)
          | _ \<Rightarrow> None) = Some (t, ap')"
  shows "puts_out (conversion_s ap) t ap' s"
proof -
  have "out_string p s = Some (Inr ((), fold out_char (map char_arg z) s))" if "str p = Some z" for p z
    using assms(1) that by (intro out_string_eq) (simp add: strings_in_def)
  then show ?thesis
    using assms(2)
    by (auto simp: puts_out_def conversion_s_def modifies_def ret_def andthen_def out_lit_eq
        split: list.splits va.splits)
qed

lemma puts_out_directive:
  assumes "strings_in str (ram s)" and "is_conv c"
    and "expand_one str (Conv l f c) ap = Some (t, ap')"
  shows "puts_out
     (if c = CHR ''c'' then conversion_c ap
      else if c = CHR ''s'' then conversion_s ap
      else if c = CHR ''d'' \<or> c = CHR ''u'' then conversion_d l f ap
      else conversion_x l f ap) t ap' s"
  using assms puts_out_c [of ap t ap' s] puts_out_s [OF assms(1), of ap t ap']
    puts_out_conversions [of f l ap t ap' s]
  by (auto simp: is_conv_def split: if_splits)

lemma vprintf_conv:
  assumes "is_conv c"
  shows "vprintf (c # fmt) ap INFMT l f =
    andthen (if c = CHR ''c'' then conversion_c ap
      else if c = CHR ''s'' then conversion_s ap
      else if c = CHR ''d'' \<or> c = CHR ''u'' then conversion_d l f ap
      else conversion_x l f ap) (\<lambda>ap. vprintf fmt ap PLAIN l f)"
  using assms by (auto simp: is_conv_def)

lemma vprintf_text:
  assumes "strings_in str (ram s)"
  shows "expand str (directives fmt) ap = Some t \<Longrightarrow> puts_out (vprintf fmt ap PLAIN l f) t () s"
    and "(case conv_spec fmt l f of None \<Rightarrow> t = [] | Some (d, rest) \<Rightarrow> expand str (d # directives rest) ap = Some t)
      \<Longrightarrow> puts_out (vprintf fmt ap INFMT l f) t () s"
  using assms
proof (induction fmt arbitrary: ap t l f s)
  case Nil
  {
    case 1
    then show ?case by (simp add: puts_out_def ret_def)
  next
    case 2
    then show ?case by (simp add: puts_out_def ret_def)
  }
next
  case (Cons c fmt)
  {
    case 1
    show ?case
    proof (cases "c = CHR ''%''")
      case True
      then have "case conv_spec fmt 0 0 of None \<Rightarrow> t = [] | Some (d, rest) \<Rightarrow> expand str (d # directives rest) ap = Some t"
        using 1 by (auto split: option.splits)
      from Cons.IH(2) [OF this 1(2)] True show ?thesis by simp
    next
      case False
      then obtain t' where t: "t = char_arg (of_char c) # t'" "expand str (directives fmt) ap = Some t'"
        using 1(1) by auto
      have "puts_out (modifies (out_char (char_arg (of_char c)))) [char_arg (of_char c)] () s"
        by (simp add: puts_out_def modifies_def)
      moreover have "puts_out (vprintf fmt ap PLAIN 0 0) t' () (fold out_char [char_arg (of_char c)] s)"
        by (rule Cons.IH(1) [OF t(2)]) (use 1(2) in simp)
      ultimately show ?thesis
        using False t(1) by (simp add: puts_out_def)
    qed
  next
    case 2
    show ?case
    proof (cases "is_conv c")
      case True
      then have "expand str (Conv l f c # directives fmt) ap = Some t" using 2(1) by simp
      then obtain t1 ap' t2 where t: "expand_one str (Conv l f c) ap = Some (t1, ap')"
        "expand str (directives fmt) ap' = Some t2" "t = t1 @ t2"
        by (auto split: option.splits simp del: expand_one.simps)
      show ?thesis
        unfolding vprintf_conv [OF True] t(3)
      proof (rule puts_out_andthen)
        show "puts_out (vprintf fmt ap' PLAIN l f) t2 () (fold out_char t1 s)"
          by (rule Cons.IH(1) [OF t(2)]) (use 2(2) in simp)
      qed (rule puts_out_directive [OF 2(2) True t(1)])
    next
      case False
      then have "vprintf (c # fmt) ap INFMT l f = vprintf fmt ap INFMT
          (if c = CHR ''l'' then l + 1 else l) (if c \<in> set ''0123456789'' then of_char c - 48 else f)"
        by (simp add: is_conv_def)
      moreover have "conv_spec (c # fmt) l f = conv_spec fmt
          (if c = CHR ''l'' then l + 1 else l) (if c \<in> set ''0123456789'' then of_char c - 48 else f)"
        using False by simp
      ultimately show ?thesis
        using Cons.IH(2) [OF _ 2(2)] 2(1) by (simp only:)
    qed
  }
qed

lemma printf_text:
  assumes "strings_in str (ram s)" and "expand str (directives fmt) ap = Some t"
  shows "printf fmt ap s = Some (Inr ((), fold out_char t s))"
  using vprintf_text(1) [OF assms] by (simp add: printf_def puts_out_def)

text \<open>Texts are written as messages.\<close>

definition msg :: "string \<Rightarrow> u32 list" where
  "msg cs = map (\<lambda>c. char_arg (of_char c)) cs"

lemma msg_simps [simp]: "msg [] = []" "msg (c # cs) = char_arg (of_char c) # msg cs"
  by (simp_all add: msg_def)

lemma unat_wide: "unat (ucast (w :: u32) :: u64) = unat w"
proof -
  have "unat w < 2 ^ 64" by (rule less_trans [OF unat32_bound]) simp
  then show ?thesis by (simp add: unsigned_ucast_eq take_bit_nat_eq_self)
qed

section \<open>What printing keeps\<close>

text \<open>
  The interface between the output routines and the rest of the program: whatever every single
  \<open>out_char\<close> keeps, printf keeps.
\<close>

locale kept_by_output =
  fixes R :: "machine \<Rightarrow> machine \<Rightarrow> bool"
  assumes kept_refl: "R s s"
    and kept_trans: "R s t \<Longrightarrow> R t u \<Longrightarrow> R s u"
    and kept_out_char: "R s (out_char v s)"
begin

lemma kept_fold: "R s (fold out_char cs s)"
  by (induction cs arbitrary: s) (auto intro: kept_refl kept_trans [OF kept_out_char])

lemma kept_out_string:
  assumes "out_string p s = Some (Inr ((), s'))"
  shows "R s s'"
proof -
  have "\<forall>s'. r = Inr ((), s') \<longrightarrow> R s s'" if "out_string p s = Some r" for r
  proof (rule out_string.raw_induct [OF _ that, where P = "\<lambda>p s r. \<forall>s'. r = Inr ((), s') \<longrightarrow> R s s'"])
    fix os p s r
    assume IH: "\<And>p s r. os p s = Some r \<Longrightarrow> \<forall>s'. r = Inr ((), s') \<longrightarrow> R s s'"
      and r: "(let c = ram s p in if c \<noteq> 0 then os (p + 1) (out_char (char_arg c) s)
        else Some (Inr ((), s))) = Some (r :: fault + unit \<times> machine)"
    show "\<forall>s'. r = Inr ((), s') \<longrightarrow> R s s'"
    proof (cases "ram s p = 0")
      case False
      then have "\<forall>s'. r = Inr ((), s') \<longrightarrow> R (out_char (char_arg (ram s p)) s) s'"
        using IH r by (simp add: Let_def)
      then show ?thesis using kept_trans [OF kept_out_char] by blast
    qed (use r kept_refl in auto)
  qed
  then show ?thesis using assms by blast
qed

lemma kept_pad: "R s (pad_loop n fill s)"
  unfolding pad_loop_eq by (rule kept_fold)

lemma kept_dumpbuf: "R s (dumpbuf buf fill s)"
proof -
  have "R t (fold (\<lambda>c. out_char (char_arg c)) cs t)" for cs t
    using kept_fold [of t "map char_arg cs"] by (simp add: fold_map comp_def)
  then show ?thesis
    unfolding dumpbuf_def by (rule kept_trans [OF kept_pad])
qed

lemma kept_conversions:
  "conversion_c ap s = Some (Inr (ap', s')) \<Longrightarrow> R s s'"
  "conversion_s ap s = Some (Inr (ap', s')) \<Longrightarrow> R s s'"
  "conversion_d l f ap s = Some (Inr (ap', s')) \<Longrightarrow> R s s'"
  "conversion_x l f ap s = Some (Inr (ap', s')) \<Longrightarrow> R s s'"
  using kept_out_string kept_fold kept_dumpbuf kept_out_char
  by (auto simp: conversion_c_def conversion_s_def conversion_d_def conversion_x_def andthen_def
      modifies_def reads_def ret_def out_lit_eq split: list.splits va.splits option.splits sum.splits)

lemma andthen_kept:
  assumes "andthen f g s = Some (Inr (x, s'))" and "\<And>y t. f s = Some (Inr (y, t)) \<Longrightarrow> R s t"
    and "\<And>y t. g y t = Some (Inr (x, s')) \<Longrightarrow> R t s'"
  shows "R s s'"
  using assms(1) by (auto simp: andthen_def split: option.splits sum.splits
      intro: kept_trans [OF assms(2) assms(3)])

lemma kept_vprintf: "vprintf fmt ap st l f s = Some (Inr (x, s')) \<Longrightarrow> R s s'"
proof (induction fmt arbitrary: ap st l f s)
  case Nil
  then show ?case by (simp add: ret_def kept_refl)
next
  case (Cons c fmt)
  note cont = Cons.IH
  have plain: "R s s'" if "andthen (modifies (out_char v)) (\<lambda>_. vprintf fmt ap PLAIN l f) s = Some (Inr (x, s'))"
    for v ap l f
    using that kept_trans [OF kept_out_char cont] by simp
  have conv: "R s s'" if "andthen m (\<lambda>ap. vprintf fmt ap PLAIN l f) s = Some (Inr (x, s'))"
    and "\<And>ap' t. m s = Some (Inr (ap', t)) \<Longrightarrow> R s t" for m l f
    by (rule andthen_kept [OF that(1)]) (use that(2) cont in blast)+
  show ?case
  proof (cases st)
    case PLAIN
    then show ?thesis using Cons.prems plain cont by (auto split: if_splits)
  next
    case INFMT
    then show ?thesis
      using Cons.prems conv [OF _ kept_conversions(1)] conv [OF _ kept_conversions(2)]
        conv [OF _ kept_conversions(3)] conv [OF _ kept_conversions(4)] cont
      by (auto split: if_splits)
  qed
qed

lemma kept_printf: "printf fmt ap s = Some (Inr (x, s')) \<Longrightarrow> R s s'"
  unfolding printf_def by (rule kept_vprintf)

end

interpretation out_quiet: kept_by_output quiet
  by unfold_locales (auto intro: quiet_trans quiet_out_char)

interpretation out_window: kept_by_output keeps_window
proof unfold_locales
  show "keeps_window s s" for s by (simp add: keeps_window_def)
  show "keeps_window s u" if "keeps_window s t" "keeps_window t u" for s t u using that by (auto simp: keeps_window_def)
  show "keeps_window s (out_char v s)" for s v by (rule keeps_window_out_char)
qed

lemma printf_quiet: "printf fmt ap s = Some (Inr (x, s')) \<Longrightarrow> quiet s s'"
  by (rule out_quiet.kept_printf)

text \<open>The rule for the callers: the arguments fit the format, and the rest goes on quietly.\<close>

lemma wp_printf:
  assumes "expand str (directives fmt) ap \<noteq> None" and "strings_in str (ram s)"
    and "\<And>s'. quiet s s' \<Longrightarrow> Q () s'"
  shows "wp (printf fmt ap) Q s"
  using assms(1,3) printf_text [OF assms(2)] quiet_fold by (auto simp: wp_def)

lemma no_strings [simp]: "strings_in (\<lambda>_. None) m"
  by (simp add: strings_in_def)

text \<open>Output without strings in memory, and what follows it.\<close>

lemma wp_printf_then:
  assumes "expand (\<lambda>_. None) (directives fmt) ap \<noteq> None" and "\<And>s'. quiet s s' \<Longrightarrow> wp (k ()) Q s'"
  shows "wp (andthen (printf fmt ap) k) Q s"
  unfolding wp_andthen
  by (rule wp_printf [where str = "\<lambda>_. None"]) (use assms in simp_all)

text \<open>The same as an equation: the computation goes on in a state that output has left quiet.\<close>

lemma printf_then:
  assumes "expand str (directives fmt) ap \<noteq> None" and "strings_in str (ram s)"
  shows "\<exists>s'. quiet s s' \<and> (\<forall>k :: unit \<Rightarrow> (machine, 'a) comp. andthen (printf fmt ap) k s = k () s')"
proof -
  obtain t where "expand str (directives fmt) ap = Some t" using assms(1) by blast
  from printf_text [OF assms(2) this] show ?thesis
    using quiet_fold [of s t] by (auto simp: andthen_def)
qed

lemma quiet_ram: "quiet s s' \<Longrightarrow> ram s' = ram s"
  by (simp add: quiet_def)

lemma directives_simps [simp]: "expand str (directives []) ap = Some []"
  by simp

text \<open>
  C9. printf puts out exactly the text of its format: the characters outside directives as they
  are, and every directive replaced by its argument, numbers padded with zeros to the digit given,
  whenever the arguments fit the format and the strings they point to end. The loop always
  returns then, and puts the text out in order.
\<close>

theorem printf_refines_text:
  assumes "strings_in str (ram s)" and "expand str (directives fmt) ap = Some t"
  shows "printf fmt ap s = Some (Inr ((), fold out_char t s))"
  by (rule printf_text [OF assms])

lemma printf_refines_text_witness:
  "\<forall>s. printf ''a%4x%s'' [Va_word 0xBEE, Va_lit ''!''] s
    = Some (Inr ((), fold out_char [0x61, 0x30, 0x62, 0x65, 0x65, 0x21] s))"
proof
  fix s
  have "expand (\<lambda>_. None) (directives ''a%4x%s'') [Va_word 0xBEE, Va_lit ''!'']
      = Some [0x61, 0x30, 0x62, 0x65, 0x65, 0x21]"
    by (simp add: is_conv_def va_uint_def hex_digits.simps [of 3054] hex_digits.simps [of 190]
        hex_digits.simps [of 11] zero_padded_def char_arg_def hex_def)
  then show "printf ''a%4x%s'' [Va_word 0xBEE, Va_lit ''!''] s
      = Some (Inr ((), fold out_char [0x61, 0x30, 0x62, 0x65, 0x65, 0x21] s))"
    by (rule printf_refines_text [OF no_strings])
qed

text \<open>
  C24. The console is well formed while the cursor is in the last line. That is an invariant of all output: whatever is
  printed, with whatever arguments, the cursor ends in the line, no byte outside the 25 lines of the text
  window has been written, and memory is what it was.
\<close>

theorem printf_keeps_console:
  assumes "in_line s"
  shows "case printf fmt ap s of
      Some (Inr (_, s')) \<Rightarrow> in_line s' \<and> (\<forall>a\<in>- {a. in_region 0xb8000 4000 a}. vga s' a = vga s a) \<and> ram s' = ram s
    | _ \<Rightarrow> True"
proof (cases "printf fmt ap s")
  case (Some r)
  then show ?thesis
  proof (cases r)
    case (Inr p)
    obtain x s' where p: "p = (x, s')" by (cases p)
    have "keeps_window s s'" "quiet s s'" using Some unfolding Inr p by (rule out_window.kept_printf, rule printf_quiet)
    then show ?thesis using assms unfolding Some Inr p by (simp add: keeps_window_def quiet_def)
  qed (simp add: Some)
qed simp

lemma printf_keeps_console_witness:
  "\<exists>s'. printf ''Reset!\<newline>'' [] still_machine = Some (Inr ((), s')) \<and> in_line s' \<and> vga s' 0xB7FFF = vga still_machine 0xB7FFF"
proof -
  have "wp (printf ''Reset!\<newline>'' []) (\<lambda>_ _. True) still_machine"
    by (rule wp_printf [where str = "\<lambda>_. None"]) (simp_all add: is_conv_def)
  then obtain s' where "printf ''Reset!\<newline>'' [] still_machine = Some (Inr ((), s'))" by (auto simp: wp_iff)
  then show ?thesis
    using printf_keeps_console [of still_machine "''Reset!\<newline>''" "[]"] by (simp add: in_line_def in_region_def)
qed

text \<open>
  Whatever printf puts out, memory, the serial base port and the devices are what they were:
  output changes only the text window, the cursor, the switch of the serial line and the history
  of port accesses.
\<close>

theorem printf_frame:
  "(case printf fmt ap s of
      Some (Inr (_, s')) \<Rightarrow> ram s' = ram s \<and> serial_base s' = serial_base s
        \<and> port_in8 s' = port_in8 s \<and> port_in32 s' = port_in32 s
    | _ \<Rightarrow> True)"
proof (cases "printf fmt ap s")
  case (Some r)
  then show ?thesis
  proof (cases r)
    case (Inr p)
    obtain x s' where p: "p = (x, s')" by (cases p)
    have "quiet s s'" using Some unfolding Inr p by (rule printf_quiet)
    then show ?thesis unfolding Some Inr p by (simp add: quiet_def)
  qed (simp add: Some)
qed simp

section \<open>Decimal numerals read back\<close>

lemma digit_value_numeral: "d < 10 \<Longrightarrow> digit_value (0x30 + of_nat d) = Some (int d)"
proof -
  assume "d < 10"
  then have "d \<in> {0, 1, 2, 3, 4, 5, 6, 7, 8, 9}" by auto
  then show ?thesis by (auto simp: digit_value_def)
qed

lemma digits_val_append: "digits_val base acc (ds @ ds') = digits_val base (digits_val base acc ds) ds'"
  by (simp add: digits_val_def)

lemma are_digits_append:
  "are_digits base cs ds \<Longrightarrow> are_digits base cs' ds' \<Longrightarrow> are_digits base (cs @ cs') (ds @ ds')"
  by (simp add: are_digits_def list_all2_appendI)

lemma dec_digits_value:
  "\<exists>ds. are_digits 10 (dec_digits n) ds \<and> digits_val 10 0 ds = int n \<and> dec_digits n \<noteq> []"
proof (induction n rule: less_induct)
  case (less n)
  show ?case
  proof (cases "n < 10")
    case True
    then show ?thesis
      using digit_value_numeral [OF True]
      by (intro exI [of _ "[int n]"]) (simp add: dec_digits.simps [of n])
  next
    case False
    then obtain ds where ds: "are_digits 10 (dec_digits (n div 10)) ds" "digits_val 10 0 ds = int (n div 10)"
      using less.IH [of "n div 10"] by auto
    have "are_digits 10 (dec_digits (n div 10) @ [0x30 + of_nat (n mod 10)]) (ds @ [int (n mod 10)])"
      using digit_value_numeral [of "n mod 10"] by (intro are_digits_append [OF ds(1)]) simp
    then show ?thesis
      using False ds(2) by (intro exI [of _ "ds @ [int (n mod 10)]"])
        (simp add: dec_digits.simps [of n] digits_val_append zdiv_int zmod_int)
  qed
qed

text \<open>
  C22. Print and parse: the decimal text printf makes of a 64-bit number is read back by strtoull as
  that number, up to its last digit, whatever character that is no digit follows.
\<close>

theorem print_strtoull_roundtrip:
  assumes "read_bytes m p (length (dec_digits (unat n) @ [e])) = dec_digits (unat n) @ [e]"
    and "no_digit 10 e"
  shows "dec_loop (udivdi3 junk) (umoddi3 junk) n [] = Some (Inr (rev (dec_digits (unat n))))
    \<and> strtoull m p 10 = Some (n, p + of_nat (length (dec_digits (unat n))))"
proof -
  obtain ds where ds: "are_digits 10 (dec_digits (unat n)) ds" "digits_val 10 0 ds = int (unat n)"
    "dec_digits (unat n) \<noteq> []"
    using dec_digits_value by blast
  have "number_text 10 0 [] [] (dec_digits (unat n)) ds e 10"
    using ds assms(2) by (simp add: number_text_def)
  moreover have "int (unat n) < 2 ^ 64"
    using unsigned_less [of n, where 'a = int] by simp
  ultimately show ?thesis
    using strtoull_value [of 10 0 "[]" "[]" "dec_digits (unat n)" ds e 10 m p] assms(1) ds(2)
    by (simp add: compiler.dec_loop_digits)
qed

lemma print_strtoull_roundtrip_witness:
  "strtoull ((\<lambda>_. 0)(0x100 := 0x34, 0x101 := 0x32)) 0x100 10 = Some (42, 0x102)"
  using print_strtoull_roundtrip [of "(\<lambda>_. 0)(0x100 := 0x34, 0x101 := 0x32)" "0x100" 42 0 0]
  by (simp add: dec_digits.simps [of 42] dec_digits.simps [of 4] no_digit_value digit_value_def)

end
