(* ===== verification/Mbi_Find.thy ===== *)
theory Mbi_Find imports Mbi Printf_Proof begin

text \<open>
  mbi_find_memory: the block found lies page-aligned at the bottom inside one available entry of
  the memory map and below the limit; one is found whenever an entry offers one; and it is the
  highest one offered when the entries do not overlap.
\<close>

unbundle bit_operations_syntax

section \<open>Rounding to pages\<close>

lemma and_not_mask: "(x::'a::len word) AND NOT (mask n) = x - take_bit n x"
proof -
  have "(x AND NOT (mask n)) + take_bit n x = (x AND NOT (mask n)) OR take_bit n x"
    by (rule disjunctive_add) (auto simp: bit_simps)
  also have "\<dots> = x"
    by (rule bit_word_eqI) (auto simp: bit_simps)
  finally show ?thesis by (simp add: eq_diff_eq)
qed

lemma unat_page_down: "unat ((x::'a::len word) AND NOT 0xFFF) = unat x div 4096 * 4096"
proof -
  have m: "(0xFFF::'a word) = mask 12" by (simp add: mask_eq_exp_minus_1)
  have le: "take_bit 12 x \<le> x"
    unfolding word_le_nat_alt unsigned_take_bit_eq by (simp only: take_bit_eq_mod mod_less_eq_dividend)
  have u: "unat (take_bit 12 x) = unat x mod 4096"
    unfolding unsigned_take_bit_eq by (simp add: take_bit_eq_mod)
  have "unat (x AND NOT (mask 12)) = unat x - unat x mod 4096"
    unfolding and_not_mask unat_sub [OF le] u ..
  then show ?thesis unfolding m by (simp add: minus_mod_eq_div_mult)
qed

lemma unat_page_up:
  assumes "unat (x::'a::len word) + 4095 < 2 ^ LENGTH('a)"
  shows "unat ((x + 0xFFF) AND NOT 0xFFF) = (unat x + 4095) div 4096 * 4096"
proof -
  have "(4095::nat) < 2 ^ LENGTH('a)" using assms by simp
  then have "unat (0xFFF :: 'a word) = 4095"
    using unat_of_nat_small [of 4095, where 'a = 'a] by simp
  then have "unat (x + 0xFFF) = unat x + 4095"
    using assms by (simp add: unat_add_no_wrap)
  then show ?thesis by (simp only: unat_page_down)
qed

lemma page_up_ge: "(b::nat) \<le> (b + 4095) div 4096 * 4096"
proof -
  have "(b + 4095) div 4096 * 4096 + (b + 4095) mod 4096 = b + 4095" by (rule div_mult_mod_eq)
  moreover have "(b + 4095) mod 4096 < 4096" by simp
  ultimately show ?thesis by linarith
qed

section \<open>The memory map as a list\<close>

text \<open>The entries visited from \<open>p\<close> on; it is a list because the walk ends.\<close>

inductive mmap_chain :: "mem \<Rightarrow> u32 \<Rightarrow> u32 \<Rightarrow> u32 list \<Rightarrow> bool" for m e where
  chain_end: "mmap_chain m e 0 []"
| chain_step: "p \<noteq> 0 \<Longrightarrow> mmap_chain m e (mbi_memory_map_next m p e) ps \<Longrightarrow> mmap_chain m e p (p # ps)"

inductive_cases mmap_chain_cases: "mmap_chain m e p ps"
inductive_simps mmap_chain_Nil [simp]: "mmap_chain m e p []"
inductive_simps mmap_chain_Cons [simp]: "mmap_chain m e p (q # ps)"

lemma mmap_chain_unique: "mmap_chain m e p ps \<Longrightarrow> mmap_chain m e p qs \<Longrightarrow> ps = qs"
proof (induction arbitrary: qs rule: mmap_chain.induct)
  case chain_end
  then show ?case by (cases qs) simp_all
next
  case (chain_step p ps)
  then obtain qs' where "qs = p # qs'" "mmap_chain m e (mbi_memory_map_next m p e) qs'"
    by (cases qs) auto
  then show ?case using chain_step.IH by blast
qed

text \<open>A map whose entries have a size of their own and end inside the address space is walked to its end.\<close>

lemma mmap_chain_exists:
  assumes "\<And>p. p < e \<Longrightarrow> unat (mmap_size m p) + unat p + 4 < 2 ^ 32" and "p < e \<or> p = 0"
  shows "\<exists>ps. mmap_chain m e p ps"
  using assms(2)
proof (induction "unat e - unat p" arbitrary: p rule: less_induct)
  case less
  show ?case
  proof (cases "p = 0")
    case True
    then show ?thesis by (auto intro: chain_end)
  next
    case False
    then have p: "p < e" using less.prems by simp
    let ?n = "mmap_size m p + p + 4"
    have "unat (mmap_size m p + p) = unat (mmap_size m p) + unat p"
      using assms(1) [OF p] by (intro unat_add_no_wrap) simp
    then have n: "unat ?n = unat (mmap_size m p) + unat p + 4"
      using assms(1) [OF p] by (simp add: unat_add_no_wrap)
    show ?thesis
    proof (cases "?n < e")
      case True
      then have nxt: "mbi_memory_map_next m p e = ?n"
        by (simp add: mbi_memory_map_next_def Let_def)
      have "unat e - unat ?n < unat e - unat p"
        using n p True by (simp add: word_less_nat_alt)
      then obtain ps where "mmap_chain m e ?n ps" using less.hyps True by blast
      then have "mmap_chain m e p (p # ps)" using \<open>p \<noteq> 0\<close> nxt by simp
      then show ?thesis ..
    next
      case False
      then have "mbi_memory_map_next m p e = 0"
        by (simp add: mbi_memory_map_next_def Let_def)
      then have "mmap_chain m e p [p]" using \<open>p \<noteq> 0\<close> chain_end by (auto intro: chain_step)
      then show ?thesis ..
    qed
  qed
qed

section \<open>What one entry offers\<close>

definition block_offer :: "mem \<Rightarrow> u32 \<Rightarrow> u64 \<Rightarrow> u32 \<Rightarrow> u32 option" where
  "block_offer m len limit p = take_block m p len limit None"

text \<open>An entry whose end, rounded, does not wrap round 2^64.\<close>

definition entry_sane :: "mem \<Rightarrow> u32 \<Rightarrow> bool" where
  "entry_sane m p \<longleftrightarrow> unat (mbi_memory_base_addr m p) + unat (mbi_memory_length m p) + 4095 < 2 ^ 64"

lemma page_block_bounds:
  assumes "entry_sane m p" and "page_block m p = Some (a, l)"
  shows "unat (mbi_memory_base_addr m p) \<le> unat a" and "unat a mod 4096 = 0" and "unat l mod 4096 = 0"
    and "unat a + unat l \<le> unat (mbi_memory_base_addr m p) + unat (mbi_memory_length m p)"
proof -
  let ?b = "mbi_memory_base_addr m p" and ?l = "mbi_memory_length m p"
  let ?n = "(?b + 0xFFF) AND NOT 0xFFF"
  have le: "\<not> ?n > ?b + ?l"
    using assms(2) unfolding page_block_def Let_def by (metis option.distinct(1))
  then have "(?n, (?l - (?n - ?b)) AND NOT 0xFFF) = (a, l)"
    using assms(2) unfolding page_block_def Let_def by (simp only: if_False option.inject)
  then have a: "a = ?n" and l: "l = (?l - (?n - ?b)) AND NOT 0xFFF"
    by blast+
  have ua: "unat a = (unat ?b + 4095) div 4096 * 4096"
    unfolding a by (rule unat_page_up) (use assms(1) in \<open>simp add: entry_sane_def\<close>)
  show b: "unat ?b \<le> unat a" and "unat a mod 4096 = 0"
    unfolding ua by (rule page_up_ge, simp)
  have "unat (?b + ?l) = unat ?b + unat ?l"
    using assms(1) by (intro unat_add_no_wrap) (simp add: entry_sane_def)
  then have top: "unat a \<le> unat ?b + unat ?l" using le a by (simp only: not_less word_le_nat_alt)
  have "unat (?n - ?b) = unat a - unat ?b"
    using b unfolding a by (intro unat_sub_no_wrap) (simp add: word_le_nat_alt)
  moreover from this have "?n - ?b \<le> ?l" using top by (simp add: word_le_nat_alt)
  ultimately have "unat (?l - (?n - ?b)) = unat ?l - (unat a - unat ?b)"
    by (simp add: unat_sub_no_wrap)
  then have ul: "unat l = (unat ?l - (unat a - unat ?b)) div 4096 * 4096"
    unfolding l unat_page_down by simp
  show "unat l mod 4096 = 0" unfolding ul by simp
  have "unat l \<le> unat ?l - (unat a - unat ?b)" unfolding ul by simp
  then show "unat a + unat l \<le> unat ?b + unat ?l" using b top by linarith
qed

definition entry_lo :: "mem \<Rightarrow> u32 \<Rightarrow> nat" where
  "entry_lo m p = unat (mbi_memory_base_addr m p)"

definition entry_hi :: "mem \<Rightarrow> u32 \<Rightarrow> nat" where
  "entry_hi m p = unat (mbi_memory_base_addr m p) + unat (mbi_memory_length m p)"

lemma unat_ucast_up: "unat (ucast (x::u32) :: u64) = unat x"
proof -
  have "unat x < 2 ^ 64" by (rule less_trans [OF unat32_bound]) simp
  then show ?thesis unfolding unsigned_ucast_eq by (simp add: take_bit_nat_eq_self)
qed

lemma unat_ucast_down: "unat (x::u64) < 2 ^ 32 \<Longrightarrow> unat (ucast x :: u32) = unat x"
  by (simp add: unsigned_ucast_eq take_bit_nat_eq_self)

lemma block_offer_cases:
  assumes "block_offer m len limit p = Some s"
  obtains a l where "page_block m p = Some (a, l)" and "mmap_type m p = MMAP_AVAILABLE"
    and "ucast len \<le> l" and "a \<le> limit - ucast len"
    and "s = ucast (if a + l > limit then limit else a + l) - len"
    and "\<And>best. take_block m p len limit best =
      (if (case best of None \<Rightarrow> False | Some start \<Rightarrow> ucast start > a) then None else Some s)"
proof -
  obtain a l where pb: "page_block m p = Some (a, l)"
    using assms by (cases "page_block m p") (auto simp: block_offer_def take_block_def)
  have "mmap_type m p = MMAP_AVAILABLE \<and> l \<ge> ucast len \<and> a \<le> limit - ucast len"
    using assms pb by (auto simp: block_offer_def take_block_def split: if_splits)
  moreover from this have "s = ucast (if a + l > limit then limit else a + l) - len"
    using assms pb by (auto simp: block_offer_def take_block_def Let_def split: if_splits)
  ultimately show ?thesis
    using pb by (intro that [of a l]) (auto simp: take_block_def Let_def)
qed

lemma no_offer: "block_offer m len limit p = None \<Longrightarrow> take_block m p len limit best = None"
  by (auto simp: block_offer_def take_block_def Let_def split: option.splits if_splits)

lemma block_offer_bounds:
  assumes off: "block_offer m len limit p = Some s" and sane: "entry_sane m p"
    and len: "unat len < unat limit" and limit: "unat limit < 2 ^ 32"
  shows "mmap_type m p = MMAP_AVAILABLE" and "entry_lo m p \<le> unat s"
    and "unat s + unat len \<le> entry_hi m p" and "unat s + unat len \<le> unat limit"
    and "unat len mod 4096 = 0 \<Longrightarrow> unat limit mod 4096 = 0 \<Longrightarrow> unat s mod 4096 = 0"
    and "\<exists>a. entry_lo m p \<le> a \<and> a \<le> unat s \<and>
      (\<forall>b. take_block m p len limit (Some b) = (if unat b > a then None else Some s))"
    and "\<exists>a l. page_block m p = Some (a, l) \<and> unat a \<le> unat s \<and> unat s + unat len = min (unat limit) (unat a + unat l)"
proof -
  obtain a l where pb: "page_block m p = Some (a, l)" and ty: "mmap_type m p = MMAP_AVAILABLE"
    and ll: "ucast len \<le> l" and al: "a \<le> limit - ucast len"
    and s: "s = ucast (if a + l > limit then limit else a + l) - len"
    and tb: "\<And>best. take_block m p len limit best =
      (if (case best of None \<Rightarrow> False | Some start \<Rightarrow> ucast start > a) then None else Some s)"
    using block_offer_cases [OF off] by blast
  note pbb = page_block_bounds [OF sane pb]
  have lo: "entry_lo m p \<le> unat a" and hi: "unat a + unat l \<le> entry_hi m p"
    using pbb by (simp_all add: entry_lo_def entry_hi_def)
  have nowrap: "unat (a + l) = unat a + unat l"
    using pbb(4) sane by (intro unat_add_no_wrap) (simp add: entry_sane_def)
  have "unat (limit - ucast len) = unat limit - unat len"
    using len by (subst unat_sub_no_wrap) (simp_all add: word_le_nat_alt unat_ucast_up)
  then have al': "unat a + unat len \<le> unat limit"
    using al len by (simp add: word_le_nat_alt)
  have ll': "unat len \<le> unat l" using ll by (simp add: word_le_nat_alt unat_ucast_up)
  define t where "t = (if a + l > limit then limit else a + l)"
  have t: "unat t = min (unat limit) (unat a + unat l)"
    using nowrap by (auto simp: t_def word_less_nat_alt min_def)
  have "unat (ucast t :: u32) = unat t"
    using t limit by (intro unat_ucast_down) linarith
  then have "unat s = unat t - unat len"
    unfolding s t_def [symmetric] using t len al' ll'
    by (subst unat_sub_no_wrap) (simp_all add: word_le_nat_alt)
  then have us: "unat s + unat len = min (unat limit) (unat a + unat l)"
    using t len al' ll' by simp
  show "mmap_type m p = MMAP_AVAILABLE" by (rule ty)
  have as: "unat a \<le> unat s" using us al' ll' by linarith
  then show "entry_lo m p \<le> unat s" using lo by simp
  show "unat s + unat len \<le> entry_hi m p" "unat s + unat len \<le> unat limit"
    using us hi by linarith+
  show "\<exists>a. entry_lo m p \<le> a \<and> a \<le> unat s \<and>
      (\<forall>b. take_block m p len limit (Some b) = (if unat b > a then None else Some s))"
    using lo as by (intro exI [of _ "unat a"]) (auto simp: tb word_less_nat_alt unat_ucast_up)
  show "\<exists>a l. page_block m p = Some (a, l) \<and> unat a \<le> unat s \<and> unat s + unat len = min (unat limit) (unat a + unat l)"
    using pb as us by blast
  assume "unat len mod 4096 = 0" "unat limit mod 4096 = 0"
  moreover have "(unat a + unat l) mod 4096 = 0" using pbb(2,3) by (simp add: mod_eq_0_iff_dvd)
  ultimately have "min (unat limit) (unat a + unat l) mod 4096 = 0" by (simp add: min_def)
  then have "4096 dvd unat s + unat len" unfolding us by (simp add: mod_eq_0_iff_dvd)
  then show "unat s mod 4096 = 0"
    using \<open>unat len mod 4096 = 0\<close> by (simp add: mod_eq_0_iff_dvd dvd_add_left_iff)
qed

section \<open>The loop as a fold\<close>

definition better_block :: "mem \<Rightarrow> u32 \<Rightarrow> u64 \<Rightarrow> u32 option \<Rightarrow> u32 \<Rightarrow> u32 option" where
  "better_block m len limit best p =
     (case take_block m p len limit best of None \<Rightarrow> best | Some s \<Rightarrow> Some s)"

lemma find_loop_fold:
  "mmap_chain m e p ps \<Longrightarrow> find_loop m p e len True limit best = Some (foldl (better_block m len limit) best ps)"
proof (induction arbitrary: best rule: mmap_chain.induct)
  case chain_end
  then show ?case by (subst find_loop.simps) simp
next
  case (chain_step p ps)
  then show ?case
    by (subst find_loop.simps, cases "take_block m p len limit best")
      (simp_all add: better_block_def [of m len limit best p])
qed

definition disjoint_entries :: "mem \<Rightarrow> u32 list \<Rightarrow> bool" where
  "disjoint_entries m ps \<longleftrightarrow> (\<forall>p\<in>set ps. \<forall>q\<in>set ps. p = q \<or> entry_hi m p \<le> entry_lo m q \<or> entry_hi m q \<le> entry_lo m p)"

definition offers :: "mem \<Rightarrow> u32 \<Rightarrow> u64 \<Rightarrow> u32 list \<Rightarrow> u32 set" where
  "offers m len limit ps = {s. \<exists>p\<in>set ps. block_offer m len limit p = Some s}"

lemma offers_snoc [simp]:
  "offers m len limit [] = {}"
  "offers m len limit (ps @ [p]) = offers m len limit ps \<union> set_option (block_offer m len limit p)"
  by (auto simp: offers_def)

lemma fold_best:
  assumes "\<forall>p\<in>set ps. entry_sane m p" and "unat len < unat limit" and "unat limit < 2 ^ 32"
  shows "case foldl (better_block m len limit) None ps of
      None \<Rightarrow> offers m len limit ps = {}
    | Some s \<Rightarrow> s \<in> offers m len limit ps
        \<and> (disjoint_entries m ps \<longrightarrow> (\<forall>t\<in>offers m len limit ps. unat t \<le> unat s))"
  using assms(1)
proof (induction ps rule: rev_induct)
  case Nil
  then show ?case by simp
next
  case (snoc p ps)
  let ?best = "foldl (better_block m len limit) None ps"
  have dis: "disjoint_entries m (ps @ [p]) \<Longrightarrow> disjoint_entries m ps"
    by (simp add: disjoint_entries_def)
  show ?case
  proof (cases "block_offer m len limit p")
    case None
    then have "better_block m len limit ?best p = ?best"
      by (simp add: better_block_def no_offer)
    then show ?thesis
      using snoc None dis by (auto split: option.splits)
  next
    case (Some s)
    have sane: "entry_sane m p" using snoc.prems by simp
    show ?thesis
    proof (cases ?best)
      case None
      then have "better_block m len limit ?best p = Some s"
        using Some by (simp add: better_block_def block_offer_def)
      then show ?thesis
        using snoc Some None by (auto split: option.splits)
    next
      case (Some b)
      obtain a where a: "entry_lo m p \<le> a" "a \<le> unat s"
        "take_block m p len limit (Some b) = (if unat b > a then None else Some s)"
        using block_offer_bounds(6) [OF \<open>block_offer m len limit p = Some s\<close> sane assms(2,3)] by blast
      have IH: "b \<in> offers m len limit ps"
        "disjoint_entries m ps \<Longrightarrow> \<forall>t\<in>offers m len limit ps. unat t \<le> unat b"
        using snoc Some by auto
      show ?thesis
      proof (cases "unat b > a")
        case False
        then have "better_block m len limit ?best p = Some s"
          using Some a(3) by (simp add: better_block_def)
        moreover have "unat b \<le> unat s" using False a(2) by simp
        ultimately show ?thesis
          using IH(2) dis \<open>block_offer m len limit p = Some s\<close> by fastforce
      next
        case True
        then have step: "better_block m len limit ?best p = Some b"
          using Some a(3) by (simp add: better_block_def)
        have "unat s \<le> unat b" if "disjoint_entries m (ps @ [p])"
        proof -
          obtain q where q: "q \<in> set ps" "block_offer m len limit q = Some b"
            using IH(1) by (auto simp: offers_def)
          have "entry_sane m q" using q(1) snoc.prems by simp
          note bq = block_offer_bounds [OF q(2) this assms(2,3)]
          note bp = block_offer_bounds [OF \<open>block_offer m len limit p = Some s\<close> sane assms(2,3)]
          consider "p = q" | "entry_hi m p \<le> entry_lo m q" | "entry_hi m q \<le> entry_lo m p"
            using \<open>disjoint_entries m (ps @ [p])\<close> q(1) unfolding disjoint_entries_def by fastforce
          then show ?thesis
          proof cases
            case 1
            then show ?thesis using q(2) \<open>block_offer m len limit p = Some s\<close> by simp
          next
            case 2
            then show ?thesis using bq(2) bp(3) by linarith
          next
            case 3
            then show ?thesis using bq(3) a(1) True by linarith
          qed
        qed
        then show ?thesis
          using step IH dis \<open>block_offer m len limit p = Some s\<close> by auto
      qed
    qed
  qed
qed

section \<open>Which entries offer a block\<close>

text \<open>The whole pages of an entry: from \<open>first_page\<close> up to \<open>last_page\<close>.\<close>

definition first_page :: "mem \<Rightarrow> u32 \<Rightarrow> nat" where
  "first_page m p = (entry_lo m p + 4095) div 4096 * 4096"

definition last_page :: "mem \<Rightarrow> u32 \<Rightarrow> nat" where
  "last_page m p = entry_hi m p div 4096 * 4096"

lemma page_gap: "(a::nat) mod 4096 = 0 \<Longrightarrow> a \<le> h \<Longrightarrow> a + (h - a) div 4096 * 4096 = h div 4096 * 4096"
proof -
  assume "a mod 4096 = 0" and "a \<le> h"
  then obtain k d where "a = k * 4096" "h = a + d" by (auto simp: mod_eq_0_iff_dvd dvd_def le_iff_add)
  then show ?thesis by simp
qed

lemma page_block_pages:
  assumes "entry_sane m p"
  shows "case page_block m p of None \<Rightarrow> entry_hi m p < first_page m p
    | Some (a, l) \<Rightarrow> unat a = first_page m p \<and> unat a + unat l = last_page m p"
proof -
  let ?b = "mbi_memory_base_addr m p" and ?l = "mbi_memory_length m p"
  let ?n = "(?b + 0xFFF) AND NOT 0xFFF"
  have un: "unat ?n = first_page m p"
    unfolding first_page_def entry_lo_def
    by (rule unat_page_up) (use assms in \<open>simp add: entry_sane_def\<close>)
  have bl: "unat (?b + ?l) = entry_hi m p"
    unfolding entry_hi_def using assms by (intro unat_add_no_wrap) (simp add: entry_sane_def)
  have ge: "entry_lo m p \<le> first_page m p" unfolding first_page_def by (rule page_up_ge)
  show ?thesis
  proof (cases "?n > ?b + ?l")
    case True
    then have "page_block m p = None" unfolding page_block_def Let_def by (simp only: if_True)
    then show ?thesis using True un bl by (simp only: word_less_nat_alt option.case)
  next
    case False
    then have pb: "page_block m p = Some (?n, (?l - (?n - ?b)) AND NOT 0xFFF)"
      unfolding page_block_def Let_def by (simp only: if_False)
    have le: "first_page m p \<le> entry_hi m p" using False un bl by (simp only: word_less_nat_alt not_less)
    have d: "unat (?n - ?b) = first_page m p - entry_lo m p"
      using ge un by (subst unat_sub_no_wrap) (simp_all only: word_le_nat_alt entry_lo_def)
    have "?n - ?b \<le> ?l" using d le by (simp add: word_le_nat_alt entry_hi_def entry_lo_def)
    then have "unat (?l - (?n - ?b)) = entry_hi m p - first_page m p"
      using d le ge by (simp add: unat_sub_no_wrap entry_hi_def entry_lo_def)
    then have "unat ((?l - (?n - ?b)) AND NOT 0xFFF) = (entry_hi m p - first_page m p) div 4096 * 4096"
      unfolding unat_page_down by simp
    moreover have "first_page m p mod 4096 = 0" by (simp add: first_page_def)
    ultimately show ?thesis
      unfolding pb last_page_def using un page_gap [OF _ le] by (simp only: option.case prod.case)
  qed
qed

lemma block_offer_iff:
  assumes "entry_sane m p" and "unat len < unat limit"
  shows "block_offer m len limit p \<noteq> None \<longleftrightarrow> mmap_type m p = MMAP_AVAILABLE
    \<and> first_page m p + unat len \<le> last_page m p \<and> first_page m p + unat len \<le> unat limit"
proof (cases "page_block m p")
  case None
  then have "entry_hi m p < first_page m p" using page_block_pages [OF assms(1)] by simp
  moreover have "last_page m p \<le> entry_hi m p" by (simp add: last_page_def)
  ultimately show ?thesis using None by (simp add: block_offer_def take_block_def)
next
  case (Some al)
  obtain a l where al: "al = (a, l)" by force
  have pages: "unat a = first_page m p" "unat a + unat l = last_page m p"
    using page_block_pages [OF assms(1)] Some al by simp_all
  have "unat (limit - ucast len) = unat limit - unat len"
    using assms(2) by (subst unat_sub_no_wrap) (simp_all add: word_le_nat_alt unat_ucast_up)
  then have "ucast len \<le> l \<longleftrightarrow> first_page m p + unat len \<le> last_page m p"
    and "a \<le> limit - ucast len \<longleftrightarrow> first_page m p + unat len \<le> unat limit"
    using assms(2) pages by (auto simp: word_le_nat_alt unat_ucast_up)
  then show ?thesis
    using Some al by (auto simp: block_offer_def take_block_def Let_def)
qed

text \<open>
  Where the block of an entry is put: it ends with the last whole page of the entry, or at the limit; no other place
  in the whole pages below the limit is higher.
\<close>

lemma block_offer_place:
  assumes "block_offer m len limit p = Some s" and "entry_sane m p" and "unat len < unat limit" and "unat limit < 2 ^ 32"
  shows "first_page m p \<le> unat s" and "unat s + unat len = min (last_page m p) (unat limit)"
  using block_offer_bounds(7) [OF assms] page_block_pages [OF assms(2)] by (auto simp: min.commute)

definition place_in :: "mem \<Rightarrow> u32 \<Rightarrow> nat \<Rightarrow> nat \<Rightarrow> nat \<Rightarrow> bool" where
  "place_in m p len limit t \<longleftrightarrow> mmap_type m p = 1 \<and> first_page m p \<le> t \<and> t + len \<le> last_page m p \<and> t + len \<le> limit"

lemma offers_highest:
  assumes "entry_sane m p" and "unat len < unat limit" and "unat limit < 2 ^ 32" and "place_in m p (unat len) (unat limit) t"
  shows "\<exists>s. block_offer m len limit p = Some s \<and> t \<le> unat s"
proof -
  have "block_offer m len limit p \<noteq> None"
    using assms(4) unfolding block_offer_iff [OF assms(1,2)] by (auto simp: place_in_def MMAP_AVAILABLE_def)
  then obtain s where s: "block_offer m len limit p = Some s" by blast
  then show ?thesis using block_offer_place [OF s assms(1-3)] assms(4) by (auto simp: place_in_def min_def split: if_splits)
qed

section \<open>The routine\<close>

lemma find_memory_fold:
  assumes "mmap_chain m (mbi_mmap_addr m mbi + mbi_mmap_length m mbi) (mbi_mmap_addr m mbi) ps"
    and "unat len < unat limit"
  shows "mbi_find_memory m mbi len True limit = Some (foldl (better_block m len limit) None ps)"
  using assms find_loop_fold [OF assms(1)]
  by (simp add: mbi_find_memory_def Let_def word_le_nat_alt unat_ucast_up)

lemma find_memory_sound:
  assumes "mmap_chain m (mbi_mmap_addr m mbi + mbi_mmap_length m mbi) (mbi_mmap_addr m mbi) ps"
    and "\<forall>p\<in>set ps. entry_sane m p" and "unat len < unat limit" and "unat limit < 2 ^ 32"
    and "mbi_find_memory m mbi len True limit = Some (Some s)"
  shows "\<exists>p\<in>set ps. mmap_type m p = MMAP_AVAILABLE \<and> entry_lo m p \<le> unat s
      \<and> unat s + unat len \<le> entry_hi m p \<and> unat s + unat len \<le> unat limit
      \<and> (unat len mod 4096 = 0 \<longrightarrow> unat limit mod 4096 = 0 \<longrightarrow> unat s mod 4096 = 0)"
proof -
  have "s \<in> offers m len limit ps"
    using fold_best [OF assms(2-4)] assms(5) find_memory_fold [OF assms(1,3)] by (auto split: option.splits)
  then obtain p where p: "p \<in> set ps" "block_offer m len limit p = Some s" by (auto simp: offers_def)
  have "entry_sane m p" using assms(2) p(1) by simp
  note b = block_offer_bounds [OF p(2) this assms(3,4)]
  show ?thesis by (rule bexI [OF _ p(1)]) (use b(1-5) in simp)
qed

text \<open>
  C16. For a memory map that is walked to its end, with entries that do not wrap round 2^64, and a
  limit below 4G, the search returns. It finds a block exactly if there is a place for it: \<open>len\<close> bytes inside the whole pages of an
  available entry and below the limit. The block is such a place, at the very end of the pages of its entry or right below the limit; and
  no place in any entry is higher, if the entries do not overlap.
\<close>

theorem mbi_find_memory_highest:
  assumes "mmap_chain m (mbi_mmap_addr m mbi + mbi_mmap_length m mbi) (mbi_mmap_addr m mbi) ps"
    and "\<forall>p\<in>set ps. entry_sane m p" and "unat len < unat limit" and "unat limit < 2 ^ 32"
  shows "case mbi_find_memory m mbi len True limit of
      None \<Rightarrow> False
    | Some None \<Rightarrow> \<not> (\<exists>p\<in>set ps. \<exists>t. place_in m p (unat len) (unat limit) t)
    | Some (Some s) \<Rightarrow> (\<exists>p\<in>set ps. place_in m p (unat len) (unat limit) (unat s) \<and> unat s + unat len = min (last_page m p) (unat limit))
        \<and> (disjoint_entries m ps \<longrightarrow> (\<forall>p\<in>set ps. \<forall>t. place_in m p (unat len) (unat limit) t \<longrightarrow> t \<le> unat s))"
proof -
  have up: "\<exists>s\<in>offers m len limit ps. t \<le> unat s" if "p \<in> set ps" "place_in m p (unat len) (unat limit) t" for p t
    using offers_highest [OF _ assms(3,4) that(2)] that(1) assms(2) by (auto simp: offers_def)
  have place: "\<exists>p\<in>set ps. place_in m p (unat len) (unat limit) (unat s) \<and> unat s + unat len = min (last_page m p) (unat limit)"
    if s: "s \<in> offers m len limit ps" for s
  proof -
    obtain p where p: "p \<in> set ps" "block_offer m len limit p = Some s" using s by (auto simp: offers_def)
    have sane: "entry_sane m p" using assms(2) p(1) by simp
    show ?thesis
      using p(1) block_offer_place [OF p(2) sane assms(3,4)] block_offer_bounds(1) [OF p(2) sane assms(3,4)]
      by (intro bexI [of _ p]) (auto simp: place_in_def MMAP_AVAILABLE_def)
  qed
  show ?thesis
  proof (cases "foldl (better_block m len limit) None ps")
    case None
    then have "offers m len limit ps = {}" using fold_best [OF assms(2-4)] by simp
    then show ?thesis unfolding find_memory_fold [OF assms(1,3)] using None up by auto
  next
    case (Some s)
    then have s: "s \<in> offers m len limit ps" "disjoint_entries m ps \<longrightarrow> (\<forall>t\<in>offers m len limit ps. unat t \<le> unat s)"
      using fold_best [OF assms(2-4)] by simp_all
    have "t \<le> unat s" if "disjoint_entries m ps" "p \<in> set ps" "place_in m p (unat len) (unat limit) t" for p t
      using up [OF that(2,3)] s(2) that(1) by (meson le_trans)
    then show ?thesis unfolding find_memory_fold [OF assms(1,3)] using Some place [OF s(1)] by simp
  qed
qed

text \<open>A Multiboot1 information at 0x500 with one map entry at 0x1000: 16 KiB available at 1M.\<close>

definition sample_mbi :: mem where
  "sample_mbi = (\<lambda>_. 0)(0x52C := 24, 0x531 := 0x10, 0x1000 := 20, 0x1006 := 0x10, 0x100D := 0x40, 0x1014 := 1)"

lemma load32_bytes: "load32 m p = ucast (m p) OR push_bit 8 (ucast (m (p + 1)) OR push_bit 8 (ucast (m (p + 2))
    OR push_bit 8 (ucast (m (p + 3)))))"
  by (simp add: load32_def eval_nat_numeral add.commute)

lemma sample_mbi_fields:
  "mbi_mmap_addr sample_mbi 0x500 = 0x1000" "mbi_mmap_length sample_mbi 0x500 = 24"
  "mmap_size sample_mbi 0x1000 = 20" "mmap_type sample_mbi 0x1000 = MMAP_AVAILABLE"
  "mbi_memory_base_addr sample_mbi 0x1000 = 0x100000" "mbi_memory_length sample_mbi 0x1000 = 0x4000"
  by (simp_all add: mbi_mmap_addr_def mbi_mmap_length_def mmap_size_def mmap_type_def MMAP_AVAILABLE_def
      mbi_memory_base_addr_def mbi_memory_length_def load32_bytes sample_mbi_def)

lemma mbi_find_memory_highest_witness:
  "\<exists>s. mbi_find_memory sample_mbi 0x500 0x1000 True 0x200000 = Some (Some s)
    \<and> unat s = 0x103000"
proof -
  have chain: "mmap_chain sample_mbi (0x1000 + 24) 0x1000 [0x1000]"
    by (simp add: mbi_memory_map_next_def sample_mbi_fields)
  have pages: "entry_lo sample_mbi 0x1000 = 0x100000" "entry_hi sample_mbi 0x1000 = 0x104000"
    "first_page sample_mbi 0x1000 = 0x100000" "last_page sample_mbi 0x1000 = 0x104000"
    "entry_sane sample_mbi 0x1000"
    by (simp_all add: entry_lo_def entry_hi_def first_page_def last_page_def entry_sane_def sample_mbi_fields)
  show ?thesis
    using mbi_find_memory_highest [of sample_mbi "0x500" "[0x1000]" "0x1000" "0x200000"] chain pages
    by (auto simp: sample_mbi_fields place_in_def MMAP_AVAILABLE_def split: option.splits)
qed

end
