(* ===== verification/Mbi_Relocate.thy ===== *)
theory Mbi_Relocate imports Mbi_Find begin

text \<open>
  mbi_relocate_modules: the modules end up in the block found, behind the extra space, in their
  order and with their contents and strings, and nothing else in memory changes but the module
  array.
\<close>

unbundle bit_operations_syntax

section \<open>Frames\<close>

lemma load32_write_apart:
  assumes "apart q (length bs) p 4" and "fits q (length bs)" and "fits p 4"
  shows "load32 (write_bytes m q bs) p = load32 m p"
  unfolding load32_def using assms by (simp only: read_write_apart)

lemma write_apart_outside:
  assumes "\<not> in_region q (length bs) a" and "fits q (length bs)"
  shows "write_bytes m q bs a = m a"
  using assms by (intro write_bytes_outside) (auto dest: fits_length)

lemma store32_outside: "\<not> in_region q 4 a \<Longrightarrow> fits q 4 \<Longrightarrow> store32 m q v a = m a"
  unfolding store32_def by (rule write_apart_outside) simp_all

text \<open>A run whose bytes are untouched by a change of memory.\<close>

lemma read_frame:
  assumes "\<And>a. \<not> in_region q n a \<Longrightarrow> \<not> in_region q' n' a \<Longrightarrow> m' a = m a"
    and "apart q n p k" and "apart q' n' p k" and "fits q n" and "fits q' n'" and "fits p k"
  shows "read_bytes m' p k = read_bytes m p k"
proof (rule read_bytes_cong)
  fix i assume "i < k"
  then show "m' (p + of_nat i) = m (p + of_nat i)"
    using assms by (intro assms(1)) (auto dest: apart_not_in_region)
qed

lemma apart_part:
  assumes "apart q n b k" and "unat q \<le> unat q'" and "unat q' + n' \<le> unat q + n"
    and "unat b \<le> unat b'" and "unat b' + k' \<le> unat b + k"
  shows "apart q' n' b' k'"
  using assms unfolding apart_def by linarith

lemma unat_add_small: "unat (a::u32) + unat b < 4294967296 \<Longrightarrow> unat (a + b) = unat a + unat b"
  by (rule unat_add_no_wrap) simp

section \<open>One module\<close>

text \<open>What \<open>copy_module\<close> does to memory: the module with its entry at \<open>p\<close> goes to \<open>d\<close>.\<close>

definition place_module :: "mem \<Rightarrow> u32 \<Rightarrow> u32 \<Rightarrow> u32 \<Rightarrow> u32 \<Rightarrow> mem" where
  "place_module m p d len slen =
     (let m1 = memcpy m d (mod_start m p) len;
          m2 = store32 m1 p d;
          m3 = store32 m2 (p + 4) (mod_start m2 p + len);
          m4 = memcpy m3 (d + len) (mod_string m3 p) slen
      in store32 m4 (p + 8) (d + len))"

lemma copy_module_place:
  "\<exists>s'. copy_module mods block (len, slen) i bl s = Some (Inr (bl - page_round (slen + len), s'))
    \<and> ram s' = place_module (ram s) (module_ptr mods i) (block + (bl - page_round (slen + len))) len slen"
proof -
  have "expand (\<lambda>_. None) (directives ''Copying %u bytes...\<newline>'') [Va_word len] \<noteq> None"
    by (simp add: is_conv_def va_uint_def)
  from printf_then [OF this no_strings] obtain s1 where "quiet s s1"
    "\<And>k. andthen (printf ''Copying %u bytes...\<newline>'' [Va_word len]) k s = (k () s1 :: (fault + u32 \<times> machine) option)"
    by blast
  then show ?thesis
    by (simp add: copy_module_def place_module_def Let_def ret_def quiet_ram)
qed

text \<open>
  The entry at \<open>p\<close>, the module contents \<open>[src, len)\<close> and the string \<open>[str, slen)\<close> may lie anywhere
  outside the destination; the string must not lie in the entry, which is written before it is read.
\<close>

lemma place_module_facts:
  fixes m p d len slen
  defines "src \<equiv> mod_start m p" and "str \<equiv> mod_string m p" and "n \<equiv> unat len + unat slen"
    and "m' \<equiv> place_module m p d len slen"
  assumes p: "fits p 12" and d: "fits d n" and src: "fits src (unat len)" and str: "fits str (unat slen)"
    and dp: "apart d n p 12" and dsrc: "apart d n src (unat len)" and dstr: "apart d n str (unat slen)"
    and pstr: "apart p 12 str (unat slen)" and pos: "0 < unat slen"
  shows "mod_start m' p = d" "mod_end m' p = d + len" "mod_string m' p = d + len"
    "read_bytes m' d (unat len) = read_bytes m src (unat len)"
    "read_bytes m' (d + len) (unat slen) = read_bytes m str (unat slen)"
    "\<not> in_region p 12 a \<Longrightarrow> \<not> in_region d n a \<Longrightarrow> m' a = m a"
proof -
  let ?C = "read_bytes m src (unat len)" and ?S = "read_bytes m str (unat slen)"
  have u4: "unat (p + 4) = unat p + 4" and u8: "unat (p + 8) = unat p + 8"
    using p unat_add_of_nat [of p 4] unat_add_of_nat [of p 8] by (simp_all add: fits_def)
  have ud: "unat (d + len) = unat d + unat len"
    by (rule unat_add_small) (use d pos in \<open>simp add: fits_def n_def\<close>)
  note ar = apart_def fits_def n_def u4 u8 ud
  define m1 where "m1 = write_bytes m d ?C"
  define m2 where "m2 = write_bytes m1 p (le_bytes 4 d)"
  define m3 where "m3 = write_bytes m2 (p + 4) (le_bytes 4 (d + len))"
  define m4 where "m4 = write_bytes m3 (d + len) ?S"
  define m5 where "m5 = write_bytes m4 (p + 8) (le_bytes 4 (d + len))"
  have keep: "read_bytes m1 q k = read_bytes m q k" if "apart d (unat len) q k" "fits q k" for q k
    unfolding m1_def by (rule read_write_apart) (use that d in \<open>auto simp: ar\<close>)
  have keep2: "read_bytes m2 q k = read_bytes m1 q k" if "apart p 4 q k" "fits q k" for q k
    unfolding m2_def by (rule read_write_apart) (use that p in \<open>auto simp: ar\<close>)
  have keep3: "read_bytes m3 q k = read_bytes m2 q k" if "apart (p + 4) 4 q k" "fits q k" for q k
    unfolding m3_def by (rule read_write_apart) (use that p in \<open>auto simp: ar\<close>)
  have keep4: "read_bytes m4 q k = read_bytes m3 q k" if "apart (d + len) (unat slen) q k" "fits q k" for q k
    unfolding m4_def by (rule read_write_apart) (use that d in \<open>auto simp: ar\<close>)
  have keep5: "read_bytes m5 q k = read_bytes m4 q k" if "apart (p + 8) 4 q k" "fits q k" for q k
    unfolding m5_def by (rule read_write_apart) (use that p in \<open>auto simp: ar\<close>)
  have 1: "memcpy m d (mod_start m p) len = m1"
    unfolding m1_def src_def [symmetric]
    by (rule memcpy_apart) (use dsrc d src in \<open>auto simp: ar\<close>)
  have start2: "mod_start m2 p = d"
    by (simp add: mod_start_def load32_def m2_def read_write_same)
  have str3: "mod_string m3 p = str"
    unfolding mod_string_def load32_def str_def
    by (subst keep3 keep2 keep, use dp p in \<open>auto simp: ar\<close>)+
  have S3: "read_bytes m3 str (unat slen) = ?S"
    by (subst keep3 keep2 keep, use dstr pstr str in \<open>auto simp: ar\<close>)+
  have "memcpy m3 (d + len) str slen = m4"
    unfolding m4_def S3 [symmetric]
    by (rule memcpy_apart) (use dstr d str in \<open>auto simp: ar\<close>)
  then have m': "m' = m5"
    unfolding m'_def place_module_def Let_def 1 store32_def
    by (simp add: m2_def [symmetric] start2 m3_def [symmetric] str3 m5_def del: write_bytes.simps)
  have entry: "apart (d + len) (unat slen) p 4" "apart (d + len) (unat slen) (p + 4) 4" "fits p 4"
    "apart (p + 8) 4 p 4" "apart (p + 8) 4 (p + 4) 4" "apart (p + 4) 4 p 4" "fits (p + 4) 4"
    using dp p d by (auto simp: ar)
  have dest: "apart (p + 8) 4 d (unat len)" "apart (p + 4) 4 d (unat len)" "apart p 4 d (unat len)"
    "apart (d + len) (unat slen) d (unat len)" "fits d (unat len)"
    "apart (p + 8) 4 (d + len) (unat slen)" "fits (d + len) (unat slen)"
    using dp p d by (auto simp: ar)
  show "mod_start m' p = d"
    using entry by (simp add: mod_start_def load32_def m' keep5 keep4 keep3) (simp add: m2_def read_write_same)
  show "mod_end m' p = d + len"
    using entry by (simp add: mod_end_def load32_def m' keep5 keep4) (simp add: m3_def read_write_same)
  show "mod_string m' p = d + len"
    by (simp add: mod_string_def load32_def m' m5_def read_write_same)
  show "read_bytes m' d (unat len) = ?C"
    using dest by (simp add: m' keep5 keep4 keep3 keep2)
      (simp add: m1_def read_write_same less_imp_le [OF unat32_bound_eval])
  show "read_bytes m' (d + len) (unat slen) = ?S"
    using dest by (simp add: m' keep5) (simp add: m4_def read_write_same less_imp_le [OF unat32_bound_eval])
  assume "\<not> in_region p 12 a" and "\<not> in_region d n a"
  then show "m' a = m a"
    unfolding m' m5_def m4_def m3_def m2_def m1_def
    by (subst write_bytes_outside,
        use p d in \<open>auto simp: in_region_nat ar less_imp_le [OF unat32_bound_eval]\<close>)+
qed

section \<open>Modules and where they go\<close>

text \<open>
  A module is its contents and its command line. \<open>module_at\<close>: the entry at \<open>p\<close> describes it.
  \<open>module_clear\<close>: neither lies in the \<open>n\<close> bytes from \<open>q\<close> on.
\<close>

type_synonym module_image = "u8 list \<times> u8 list"

definition module_at :: "mem \<Rightarrow> u32 \<Rightarrow> module_image \<Rightarrow> bool" where
  "module_at m p x \<longleftrightarrow> mod_end m p = mod_start m p + of_nat (length (fst x))
     \<and> read_bytes m (mod_start m p) (length (fst x)) = fst x \<and> cstr m (mod_string m p) (snd x)"

definition module_fits :: "mem \<Rightarrow> u32 \<Rightarrow> module_image \<Rightarrow> bool" where
  "module_fits m p x \<longleftrightarrow> fits (mod_start m p) (length (fst x)) \<and> fits (mod_string m p) (Suc (length (snd x)))"

definition module_clear :: "mem \<Rightarrow> u32 \<Rightarrow> module_image \<Rightarrow> u32 \<Rightarrow> nat \<Rightarrow> bool" where
  "module_clear m p x q n \<longleftrightarrow> apart q n (mod_start m p) (length (fst x))
     \<and> apart q n (mod_string m p) (Suc (length (snd x)))"

text \<open>Whole pages for contents and command line, and the offset of module \<open>i\<close> in the block.\<close>

definition mod_room :: "module_image \<Rightarrow> nat" where
  "mod_room x = (length (fst x) + Suc (length (snd x)) + 4095) div 4096 * 4096"

definition offset_of :: "nat \<Rightarrow> module_image list \<Rightarrow> nat \<Rightarrow> nat" where
  "offset_of extra ms i = extra + sum_list (map mod_room (take i ms))"

definition minfo_of :: "module_image \<Rightarrow> u32 \<times> u32" where
  "minfo_of x = (of_nat (length (fst x)), of_nat (length (snd x)) + 1)"

lemma mod_room_ge: "length (fst x) + Suc (length (snd x)) \<le> mod_room x"
  unfolding mod_room_def by (rule page_up_ge)

lemma offset_of_0 [simp]: "offset_of extra ms 0 = extra"
  by (simp add: offset_of_def)

lemma offset_of_Suc: "i < length ms \<Longrightarrow> offset_of extra ms (Suc i) = offset_of extra ms i + mod_room (ms ! i)"
  by (simp add: offset_of_def take_Suc_conv_app_nth)

lemma offset_of_mono: "i \<le> j \<Longrightarrow> j \<le> length ms \<Longrightarrow> offset_of extra ms i \<le> offset_of extra ms j"
proof (induction j)
  case (Suc j)
  then show ?case by (cases "i = Suc j") (auto simp: offset_of_Suc)
qed simp

lemma offset_of_page: "extra mod 4096 = 0 \<Longrightarrow> i \<le> length ms \<Longrightarrow> offset_of extra ms i mod 4096 = 0"
  by (induction i) (simp_all add: offset_of_Suc mod_room_def mod_add_eq [symmetric])

lemma nat_to_word_back: "unat (w::'a::len word) = n \<Longrightarrow> w = of_nat n"
  by auto

lemma page_round_room:
  assumes "x mod 4096 = 0" and "x + mod_room y < 2 ^ 32"
  shows "page_round (of_nat x + of_nat (length (fst y)) + (of_nat (length (snd y)) + 1)) = of_nat (x + mod_room y)"
proof -
  let ?n = "length (fst y) + Suc (length (snd y))"
  have n: "(?n + 4095) div 4096 * 4096 < 2 ^ 32 - x" using assms(2) by (simp add: mod_room_def)
  obtain k where x: "x = 4096 * k" using assms(1) by auto
  have round: "(x + ?n + 4095) div 4096 * 4096 = x + mod_room y"
  proof -
    have "4096 * k + ?n + 4095 = (?n + 4095) + k * 4096" by simp
    then show ?thesis unfolding x mod_room_def by (simp only: div_mult_self1 [of 4096] distrib_right)
  qed
  have "x + ?n + 4095 < 2 ^ 32"
  proof -
    have "(x + ?n + 4095) div 4096 * 4096 < 1048576 * 4096" using round assms(2) by simp
    then have "(x + ?n + 4095) div 4096 < 1048576" by simp
    then have "x + ?n + 4095 < 1048576 * 4096" by (simp only: div_less_iff_less_mult)
    then show ?thesis by simp
  qed
  then have u: "unat (of_nat (x + ?n) :: u32) = x + ?n" by (intro unat_of_nat_small) simp
  have "unat (page_round (of_nat (x + ?n))) = x + mod_room y"
    unfolding page_round_def
    by (subst unat_page_up) (use u \<open>x + ?n + 4095 < 2 ^ 32\<close> round in simp_all)
  then have "page_round (of_nat (x + ?n)) = of_nat (x + mod_room y)"
    by (metis nat_to_word_back)
  then show ?thesis by (simp add: ac_simps)
qed

section \<open>The frame of a module\<close>

lemma module_same:
  assumes frame: "\<And>a. P a \<Longrightarrow> m' a = m a" and entry: "\<And>j. j < 12 \<Longrightarrow> P (p + of_nat j)"
    and image: "\<And>j. j < length (fst x) \<Longrightarrow> P (mod_start m p + of_nat j)"
    "\<And>j. j < Suc (length (snd x)) \<Longrightarrow> P (mod_string m p + of_nat j)"
  shows "mod_start m' p = mod_start m p" "mod_end m' p = mod_end m p" "mod_string m' p = mod_string m p"
    "module_at m' p x = module_at m p x"
proof -
  have field: "load32 m' (p + of_nat off) = load32 m (p + of_nat off)" if "off \<le> 8" for off
    unfolding load32_def
  proof (rule arg_cong [OF read_bytes_cong])
    fix i assume "i < (4::nat)"
    then show "m' (p + of_nat off + of_nat i) = m (p + of_nat off + of_nat i)"
      using frame entry [of "off + i"] that by (simp add: add.assoc)
  qed
  show f: "mod_start m' p = mod_start m p" "mod_end m' p = mod_end m p" "mod_string m' p = mod_string m p"
    using field [of 0] field [of 4] field [of 8] by (simp_all add: mod_start_def mod_end_def mod_string_def)
  have "read_bytes m' (mod_start m p) (length (fst x)) = read_bytes m (mod_start m p) (length (fst x))"
    by (rule read_bytes_cong) (use frame image(1) in simp)
  moreover have "cstr m' (mod_string m p) (snd x) = cstr m (mod_string m p) (snd x)"
    by (rule cstr_cong, rule read_bytes_cong) (use frame image(2) in blast)
  ultimately show "module_at m' p x = module_at m p x"
    by (simp add: module_at_def f)
qed

lemma unat_module_ptr:
  "fits mods (16 * n) \<Longrightarrow> i < n \<Longrightarrow> unat (module_ptr mods i) = unat mods + 16 * i"
  using unat_add_of_nat [of mods "16 * i"] by (simp add: module_ptr_def fits_def)

lemma module_ptr_fits: "fits mods (16 * n) \<Longrightarrow> i < n \<Longrightarrow> fits (module_ptr mods i) 12"
  by (simp add: fits_def unat_module_ptr)

lemma module_ptr_apart:
  "fits mods (16 * n) \<Longrightarrow> i < n \<Longrightarrow> j < n \<Longrightarrow> i \<noteq> j \<Longrightarrow> apart (module_ptr mods i) 12 (module_ptr mods j) 12"
  by (auto simp: apart_def unat_module_ptr)

lemma apart_entry:
  "fits mods (16 * n) \<Longrightarrow> apart mods (16 * n) q k \<Longrightarrow> i < n \<Longrightarrow> apart (module_ptr mods i) 12 q k"
  by (auto simp: apart_def unat_module_ptr)

section \<open>All modules\<close>

text \<open>
  What the relocation asks of the first \<open>k\<close> modules: the entries describe them, and neither they
  nor the module array touch the \<open>n\<close> bytes of the block.
\<close>

definition ready :: "mem \<Rightarrow> u32 \<Rightarrow> module_image list \<Rightarrow> nat \<Rightarrow> u32 \<Rightarrow> nat \<Rightarrow> bool" where
  "ready m mods ms k block n \<longleftrightarrow> fits mods (16 * k) \<and> apart block n mods (16 * k)
     \<and> (\<forall>i<k. let p = module_ptr mods i; x = ms ! i in
          module_at m p x \<and> module_fits m p x \<and> module_clear m p x block n \<and> module_clear m p x mods (16 * k))"

lemma ready_less: "ready m mods ms (Suc k) block n \<Longrightarrow> n' \<le> n \<Longrightarrow> ready m mods ms k block n'"
proof -
  assume r: "ready m mods ms (Suc k) block n" and n: "n' \<le> n"
  have clear: "module_clear m p x q a \<Longrightarrow> a' \<le> a \<Longrightarrow> module_clear m p x q a'" for p x q a a'
    unfolding module_clear_def apart_def by linarith
  have "fits mods (16 * k)" "apart block n' mods (16 * k)"
  proof -
    have "fits mods (16 * Suc k)" "apart block n mods (16 * Suc k)" using r by (simp_all add: ready_def)
    then show "fits mods (16 * k)" "apart block n' mods (16 * k)" using n by (auto simp: fits_def apart_def)
  qed
  moreover have "16 * k \<le> 16 * Suc k" by simp
  ultimately show ?thesis
    using r n clear unfolding ready_def Let_def by (blast intro: less_SucI)
qed

text \<open>Module \<open>i\<close> where it belongs in the block.\<close>

definition placed :: "mem \<Rightarrow> u32 \<Rightarrow> nat \<Rightarrow> module_image list \<Rightarrow> u32 \<Rightarrow> nat \<Rightarrow> bool" where
  "placed m mods extra ms block i \<longleftrightarrow> (let p = module_ptr mods i in module_at m p (ms ! i)
     \<and> mod_start m p = block + of_nat (offset_of extra ms i) \<and> mod_string m p = mod_end m p)"

text \<open>The addresses that copying the first \<open>k\<close> modules may change.\<close>

definition untouched :: "u32 \<Rightarrow> nat \<Rightarrow> module_image list \<Rightarrow> u32 \<Rightarrow> nat \<Rightarrow> u32 \<Rightarrow> bool" where
  "untouched mods extra ms block k a \<longleftrightarrow> (\<forall>i<k. \<not> in_region (module_ptr mods i) 12 a)
     \<and> \<not> in_region (block + of_nat extra) (offset_of extra ms k - extra) a"

lemma measure_modules_spec:
  assumes "\<forall>i<length ms. module_at m (module_ptr mods i) (ms ! i)"
    and "extra mod 4096 = 0" and "offset_of extra ms (length ms) < 2 ^ 32" and "i + k = length ms"
  shows "measure_modules m mods i k (of_nat (offset_of extra ms i))
    = Some (map minfo_of (drop i ms), of_nat (offset_of extra ms (length ms)))"
  using assms(4)
proof (induction k arbitrary: i)
  case 0
  then show ?case by simp
next
  case (Suc k)
  then have i: "i < length ms" by simp
  then have "module_at m (module_ptr mods i) (ms ! i)" using assms(1) by simp
  then have str: "cstr m (mod_string m (module_ptr mods i)) (snd (ms ! i))"
    and len: "mod_end m (module_ptr mods i) - mod_start m (module_ptr mods i) = of_nat (length (fst (ms ! i)))"
    by (simp_all add: module_at_def)
  have "offset_of extra ms (Suc i) < 2 ^ 32"
    using offset_of_mono [of "Suc i" "length ms" ms extra] i assms(3) by simp
  then have "page_round (of_nat (offset_of extra ms i) + of_nat (length (fst (ms ! i)))
      + (of_nat (length (snd (ms ! i))) + 1)) = of_nat (offset_of extra ms (Suc i))"
    using page_round_room [of "offset_of extra ms i" "ms ! i"] offset_of_page [OF assms(2), of i ms] i
    by (simp add: offset_of_Suc)
  moreover have "drop i ms = ms ! i # drop (Suc i) ms" using i by (rule Cons_nth_drop_Suc [symmetric])
  ultimately show ?case
    using Suc by (simp add: Let_def strlen_cstr [OF str] len minfo_of_def)
qed

lemma copy_room:
  assumes "k < length ms" and "offset_of extra ms (length ms) < 2 ^ 32"
  shows "of_nat (offset_of extra ms (Suc k)) - page_round (snd (minfo_of (ms ! k)) + fst (minfo_of (ms ! k)))
    = (of_nat (offset_of extra ms k) :: u32)"
proof -
  have "mod_room (ms ! k) < 2 ^ 32"
    using offset_of_mono [of "Suc k" "length ms" ms extra] assms by (simp add: offset_of_Suc)
  then have "page_round (snd (minfo_of (ms ! k)) + fst (minfo_of (ms ! k))) = of_nat (mod_room (ms ! k))"
    using page_round_room [of 0 "ms ! k"] by (simp add: minfo_of_def ac_simps)
  then show ?thesis using assms(1) by (simp add: offset_of_Suc)
qed

lemma module_clear_part:
  assumes "module_clear m p x q n" and "unat q \<le> unat q'" and "unat q' + n' \<le> unat q + n"
  shows "module_clear m p x q' n'"
  using assms unfolding module_clear_def apart_def by linarith

text \<open>One module, as its image: it is at \<open>d\<close>, and only its entry and its room changed.\<close>

lemma place_module_image:
  fixes m p d x
  defines "m' \<equiv> place_module m p d (fst (minfo_of x)) (snd (minfo_of x))"
  assumes x: "module_at m p x" "module_fits m p x" "module_clear m p x d (mod_room x)" "module_clear m p x p 12"
    and p: "fits p 12" "apart d (mod_room x) p 12" and d: "fits d (mod_room x)" "mod_room x < 2 ^ 32"
  shows "module_at m' p x" "mod_start m' p = d" "mod_string m' p = mod_end m' p"
    "\<not> in_region p 12 a \<Longrightarrow> \<not> in_region d (mod_room x) a \<Longrightarrow> m' a = m a"
proof -
  let ?l = "length (fst x)" and ?s = "Suc (length (snd x))"
  have room: "?l + ?s \<le> mod_room x" by (rule mod_room_ge)
  have len: "unat (fst (minfo_of x)) = ?l" "unat (snd (minfo_of x)) = ?s"
    using room d(2) unat_of_nat_small [of ?l, where 'a = 32] unat_of_nat_small [of ?s, where 'a = 32]
    by (simp_all add: minfo_of_def add.commute [of "1 :: u32"])
  have sub: "fits d (?l + ?s)" "apart d (?l + ?s) p 12" "module_clear m p x d (?l + ?s)"
  proof -
    show "fits d (?l + ?s)" using d(1) room unfolding fits_def by linarith
    show "apart d (?l + ?s) p 12" by (rule apart_part [OF p(2)]) (use room in linarith)+
    show "module_clear m p x d (?l + ?s)" by (rule module_clear_part [OF x(3) order_refl]) (use room in simp)
  qed
  have str: "apart d (?l + ?s) (mod_string m p) ?s" "apart d (?l + ?s) (mod_start m p) ?l"
    "apart p 12 (mod_string m p) ?s" "fits (mod_start m p) ?l" "fits (mod_string m p) ?s"
    using sub(3) x(2,4) by (simp_all add: module_clear_def module_fits_def)
  note f = place_module_facts [of p d "fst (minfo_of x)" "snd (minfo_of x)" m, unfolded len,
      folded m'_def, OF p(1) sub(1) str(4,5) sub(2) str(2,1,3)]
  show start: "mod_start m' p = d" and "mod_string m' p = mod_end m' p" using f(1-3) by simp_all
  have C: "read_bytes m (mod_start m p) ?l = fst x" and S: "cstr m (mod_string m p) (snd x)"
    using x(1) by (simp_all add: module_at_def)
  have "read_bytes m' (d + fst (minfo_of x)) ?s = read_bytes m (mod_string m p) ?s" using f(5) by simp
  then have "cstr m' (d + fst (minfo_of x)) (snd x)" using S cstr_cong by blast
  then show "module_at m' p x"
    using f(2-4) start C by (simp add: module_at_def minfo_of_def)
  assume "\<not> in_region p 12 a" and a: "\<not> in_region d (mod_room x) a"
  moreover have "\<not> in_region d (?l + ?s) a"
    using a in_region_nat [OF d(1)] in_region_nat [OF sub(1)] room by auto
  ultimately show "m' a = m a" using f(6) by simp
qed

text \<open>Another module, whose entry and image lie outside both runs that changed.\<close>

lemma module_kept:
  assumes frame: "\<And>a. \<not> in_region q j a \<Longrightarrow> \<not> in_region d n a \<Longrightarrow> m' a = m a"
    and "fits q j" and "fits d n" and "fits p 12" and "apart q j p 12" and "apart d n p 12"
    and "module_fits m p x" and "module_clear m p x q j" and "module_clear m p x d n"
  shows "mod_start m' p = mod_start m p" "mod_string m' p = mod_string m p"
    "module_at m' p x = module_at m p x"
proof -
  let ?P = "\<lambda>a. \<not> in_region q j a \<and> \<not> in_region d n a"
  have P: "?P (b + of_nat i)" if "apart q j b k" "apart d n b k" "fits b k" "i < k" for b k i
    using apart_not_in_region that assms(2,3) by blast
  have "?P (p + of_nat i)" if "i < 12" for i using P assms(4-6) that by blast
  moreover have "?P (mod_start m p + of_nat i)" if "i < length (fst x)" for i
    using P assms(7-9) that unfolding module_clear_def module_fits_def by blast
  moreover have "?P (mod_string m p + of_nat i)" if "i < Suc (length (snd x))" for i
    using P assms(7-9) that unfolding module_clear_def module_fits_def by blast
  ultimately show "mod_start m' p = mod_start m p" "mod_string m' p = mod_string m p"
    "module_at m' p x = module_at m p x"
    using module_same [of ?P m' m p x] frame by blast+
qed

lemma ready_D:
  assumes "ready m mods ms k block n" and "i < k"
  shows "module_at m (module_ptr mods i) (ms ! i)" "module_fits m (module_ptr mods i) (ms ! i)"
    "module_clear m (module_ptr mods i) (ms ! i) block n" "module_clear m (module_ptr mods i) (ms ! i) mods (16 * k)"
    "unat (module_ptr mods i) = unat mods + 16 * i" "fits (module_ptr mods i) 12"
  using assms unat_module_ptr module_ptr_fits unfolding ready_def Let_def by auto

text \<open>Copying the last of \<open>Suc k\<close> modules: it is in its place, and the others are still ready.\<close>

lemma copy_last:
  fixes m mods ms k block extra
  defines "p \<equiv> module_ptr mods k" and "x \<equiv> ms ! k" and "d \<equiv> block + of_nat (offset_of extra ms k)"
  defines "m' \<equiv> place_module m p d (fst (minfo_of x)) (snd (minfo_of x))"
  assumes k: "k < length ms" and r: "ready m mods ms (Suc k) block (offset_of extra ms (Suc k))"
    and room: "unat block + offset_of extra ms (Suc k) < 2 ^ 32"
  shows "placed m' mods extra ms block k" "ready m' mods ms k block (offset_of extra ms k)"
    "\<not> in_region p 12 a \<Longrightarrow> \<not> in_region d (mod_room x) a \<Longrightarrow> m' a = m a"
proof -
  let ?o = "offset_of extra ms k"
  have o: "offset_of extra ms (Suc k) = ?o + mod_room x" unfolding x_def using k by (rule offset_of_Suc)
  have d: "unat d = unat block + ?o" unfolding d_def by (rule unat_add_of_nat) (use room o in simp)
  have fd: "fits d (mod_room x)" "mod_room x < 2 ^ 32" using d room o by (simp_all add: fits_def)
  have arr: "fits mods (16 * Suc k)" and ab: "apart block (?o + mod_room x) mods (16 * Suc k)"
    using r unfolding ready_def o by simp_all
  note R = ready_D [OF r, unfolded o]
  have clear_d: "module_clear m (module_ptr mods i) (ms ! i) d (mod_room x)" if "i < Suc k" for i
    by (rule module_clear_part [OF R(3) [OF that]]) (use d in simp_all)
  have clear_p: "module_clear m (module_ptr mods i) (ms ! i) p 12" if "i < Suc k" for i
    by (rule module_clear_part [OF R(4) [OF that]]) (use R(5) [of k] in \<open>simp_all add: p_def\<close>)
  have pd: "apart d (mod_room x) (module_ptr mods i) 12" if "i < Suc k" for i
    by (rule apart_part [OF ab]) (use d R(5) [OF that] that in simp_all)
  have at: "module_at m p x" "module_fits m p x" "module_clear m p x d (mod_room x)" "module_clear m p x p 12"
    "fits p 12" "apart d (mod_room x) p 12"
    using R(1,2,6) [OF lessI] clear_d [OF lessI] clear_p [OF lessI] pd [OF lessI] by (simp_all add: p_def x_def)
  note img = place_module_image [OF at fd, folded m'_def]
  show "placed m' mods extra ms block k"
    using img(1-3) by (simp add: placed_def Let_def p_def [symmetric] x_def [symmetric] d_def)
  show frame: "m' a = m a" if "\<not> in_region p 12 a" "\<not> in_region d (mod_room x) a" for a
    by (rule img(4)) (use that in simp_all)
  have kept: "mod_start m' (module_ptr mods i) = mod_start m (module_ptr mods i)"
    "mod_string m' (module_ptr mods i) = mod_string m (module_ptr mods i)"
    "module_at m' (module_ptr mods i) (ms ! i) = module_at m (module_ptr mods i) (ms ! i)" if i: "i < k" for i
  proof -
    have i': "i < Suc k" using i by simp
    have pi: "apart p 12 (module_ptr mods i) 12"
      unfolding p_def by (rule module_ptr_apart [OF arr]) (use i in auto)
    show "mod_start m' (module_ptr mods i) = mod_start m (module_ptr mods i)"
      "mod_string m' (module_ptr mods i) = mod_string m (module_ptr mods i)"
      "module_at m' (module_ptr mods i) (ms ! i) = module_at m (module_ptr mods i) (ms ! i)"
      using module_kept [OF frame at(5) fd(1) R(6) [OF i'] pi pd [OF i'] R(2) [OF i'] clear_p [OF i'] clear_d [OF i']]
      by blast+
  qed
  have "ready m mods ms k block ?o" by (rule ready_less [OF r]) (simp add: o)
  then show "ready m' mods ms k block ?o"
    unfolding ready_def Let_def module_fits_def module_clear_def by (simp add: kept)
qed

lemma untouched_Suc:
  assumes "untouched mods extra ms block (Suc k) a" and "k < length ms"
    and "unat block + offset_of extra ms (Suc k) < 2 ^ 32"
  shows "untouched mods extra ms block k a" "\<not> in_region (module_ptr mods k) 12 a"
    "\<not> in_region (block + of_nat (offset_of extra ms k)) (mod_room (ms ! k)) a"
proof -
  have o: "offset_of extra ms (Suc k) = offset_of extra ms k + mod_room (ms ! k)" "extra \<le> offset_of extra ms k"
    using offset_of_Suc [OF assms(2)] offset_of_mono [of 0 k ms extra] assms(2) by simp_all
  have u: "unat (block + of_nat extra) = unat block + extra"
    "unat (block + of_nat (offset_of extra ms k)) = unat block + offset_of extra ms k"
    by (rule unat_add_of_nat, use assms(3) o in simp)+
  have f: "fits (block + of_nat extra) (offset_of extra ms (Suc k) - extra)"
    "fits (block + of_nat extra) (offset_of extra ms k - extra)"
    "fits (block + of_nat (offset_of extra ms k)) (mod_room (ms ! k))"
    using assms(3) o u by (simp_all add: fits_def)
  have "\<not> in_region (block + of_nat extra) (offset_of extra ms (Suc k) - extra) a"
    using assms(1) by (simp add: untouched_def)
  then have "\<not> in_region (block + of_nat extra) (offset_of extra ms k - extra) a"
    "\<not> in_region (block + of_nat (offset_of extra ms k)) (mod_room (ms ! k)) a"
    unfolding in_region_nat [OF f(1)] in_region_nat [OF f(2)] in_region_nat [OF f(3)] u using o by linarith+
  then show "untouched mods extra ms block k a" "\<not> in_region (module_ptr mods k) 12 a"
    "\<not> in_region (block + of_nat (offset_of extra ms k)) (mod_room (ms ! k)) a"
    using assms(1) by (auto simp: untouched_def)
qed

text \<open>A module in its place stays there when neither its entry nor its room changes.\<close>

lemma placed_same:
  assumes frame: "\<And>a. unat block + offset_of extra ms k \<le> unat a \<and> unat a < unat block + offset_of extra ms (Suc k)
      \<or> in_region (module_ptr mods k) 12 a \<Longrightarrow> m' a = m a"
    and "placed m mods extra ms block k" and k: "k < length ms" and arr: "fits mods (16 * Suc k)"
    and room: "unat block + offset_of extra ms (Suc k) < 2 ^ 32"
  shows "placed m' mods extra ms block k"
proof -
  let ?p = "module_ptr mods k" and ?x = "ms ! k" and ?o = "offset_of extra ms k"
  let ?P = "\<lambda>a. unat block + ?o \<le> unat a \<and> unat a < unat block + offset_of extra ms (Suc k) \<or> in_region ?p 12 a"
  have o: "offset_of extra ms (Suc k) = ?o + mod_room ?x" by (rule offset_of_Suc [OF k])
  have u: "unat (block + of_nat ?o) = unat block + ?o" by (rule unat_add_of_nat) (use room o in simp)
  have room_x: "length (fst ?x) + Suc (length (snd ?x)) \<le> mod_room ?x" by (rule mod_room_ge)
  have at: "module_at m ?p ?x" "mod_start m ?p = block + of_nat ?o" "mod_string m ?p = mod_end m ?p"
    using assms(2) by (simp_all add: placed_def Let_def)
  have nat: "unat (block + of_nat ?o + of_nat j) = unat block + ?o + j" if "j < mod_room ?x" for j
    using unat_add_of_nat [of "block + of_nat ?o" j] u room o that by simp
  have fp: "fits ?p 12" by (rule module_ptr_fits [OF arr]) simp
  have "?P (?p + of_nat j)" if "j < 12" for j
    using in_region_offset [OF fp that] in_region_nat [OF fp] that by auto
  moreover have "?P (mod_start m ?p + of_nat j)" if "j < length (fst ?x)" for j
    using nat [of j] room_x that at(2) o by auto
  moreover have "?P (mod_string m ?p + of_nat j)" if "j < Suc (length (snd ?x))" for j
  proof -
    have "mod_string m ?p + of_nat j = block + of_nat ?o + of_nat (length (fst ?x) + j)"
      using at by (simp add: module_at_def add.assoc)
    moreover have "?P (block + of_nat ?o + of_nat (length (fst ?x) + j))"
      by (subst (1 2) nat) (use room_x that o in auto)
    ultimately show ?thesis by (simp only:)
  qed
  ultimately show ?thesis
    using module_same [of ?P m' m ?p ?x] frame at by (simp add: placed_def Let_def)
qed

text \<open>A module in its place above the room of the first \<open>k\<close> stays there while they are copied.\<close>

lemma placed_kept:
  assumes frame: "\<And>a. untouched mods extra ms block k a \<Longrightarrow> m' a = m a" and "placed m mods extra ms block k"
    and k: "k < length ms" and arr: "fits mods (16 * Suc k)" and ab: "apart block (offset_of extra ms (Suc k)) mods (16 * Suc k)"
    and room: "unat block + offset_of extra ms (Suc k) < 2 ^ 32"
  shows "placed m' mods extra ms block k"
proof (rule placed_same [OF frame assms(2) k arr room])
  let ?p = "module_ptr mods k" and ?x = "ms ! k" and ?o = "offset_of extra ms k"
  fix a assume a: "unat block + ?o \<le> unat a \<and> unat a < unat block + offset_of extra ms (Suc k) \<or> in_region ?p 12 a"
  have o: "offset_of extra ms (Suc k) = ?o + mod_room ?x" "extra \<le> ?o"
    using offset_of_Suc [OF k] offset_of_mono [of 0 k ms extra] k by simp_all
  have u: "unat (block + of_nat extra) = unat block + extra"
    by (rule unat_add_of_nat) (use room o in simp)
  have f: "fits (block + of_nat extra) (?o - extra)" using room o u by (simp add: fits_def)
  have ptr: "unat (module_ptr mods i) = unat mods + 16 * i" "fits (module_ptr mods i) 12" if "i < Suc k" for i
    using unat_module_ptr [OF arr] module_ptr_fits [OF arr] that by blast+
  have "\<not> in_region (module_ptr mods i) 12 a" if "i < k" for i
    using ptr [of i] ptr [of k] that a ab o(1) in_region_nat [of "module_ptr mods i" 12 a]
      in_region_nat [of ?p 12 a] unfolding apart_def by auto
  moreover have "\<not> in_region (block + of_nat extra) (?o - extra) a"
    using a ptr [of k] ab o u unfolding in_region_nat [OF f] in_region_nat [OF ptr(2) [OF lessI]] apart_def by auto
  ultimately show "untouched mods extra ms block k a" by (simp add: untouched_def)
qed

lemma copy_modules_spec:
  assumes "k \<le> length ms" and "ready (ram s) mods ms k block (offset_of extra ms k)"
    and "unat block + offset_of extra ms (length ms) < 2 ^ 32"
  shows "\<exists>s'. copy_modules mods block (map minfo_of ms) k (of_nat (offset_of extra ms k)) s = Some (Inr (of_nat extra, s'))
    \<and> (\<forall>i<k. placed (ram s') mods extra ms block i)
    \<and> (\<forall>a. untouched mods extra ms block k a \<longrightarrow> ram s' a = ram s a)"
  using assms(1,2)
proof (induction k arbitrary: s)
  case 0
  then show ?case by (simp add: ret_def)
next
  case (Suc k)
  let ?o = "offset_of extra ms"
  have k: "k < length ms" using Suc.prems(1) by simp
  have "?o (Suc k) \<le> ?o (length ms)" using offset_of_mono [of "Suc k" "length ms" ms extra] k by simp
  then have room: "unat block + ?o (Suc k) < 2 ^ 32" "?o (length ms) < 2 ^ 32" using assms(3) by simp_all
  obtain s1 where s1: "copy_module mods block (minfo_of (ms ! k)) k (of_nat (?o (Suc k))) s = Some (Inr (of_nat (?o k), s1))"
    and m1: "ram s1 = place_module (ram s) (module_ptr mods k) (block + of_nat (?o k)) (fst (minfo_of (ms ! k))) (snd (minfo_of (ms ! k)))"
    using copy_module_place [of mods block "fst (minfo_of (ms ! k))" "snd (minfo_of (ms ! k))" k "of_nat (?o (Suc k))" s]
      copy_room [OF k room(2)] by auto
  note last = copy_last [OF k Suc.prems(2) room(1), folded m1]
  obtain s' where s': "copy_modules mods block (map minfo_of ms) k (of_nat (?o k)) s1 = Some (Inr (of_nat extra, s'))"
    and below: "\<forall>i<k. placed (ram s') mods extra ms block i"
    and frame: "\<And>a. untouched mods extra ms block k a \<Longrightarrow> ram s' a = ram s1 a"
    using Suc.IH [OF _ last(2)] k by auto
  have "copy_modules mods block (map minfo_of ms) (Suc k) (of_nat (?o (Suc k))) s = Some (Inr (of_nat extra, s'))"
    using s' k by (simp add: andthen_def s1)
  moreover have "placed (ram s') mods extra ms block k"
    by (rule placed_kept [OF frame last(1) k _ _ room(1)]) (use Suc.prems(2) in \<open>simp_all add: ready_def\<close>)
  moreover have "ram s' a = ram s a" if "untouched mods extra ms block (Suc k) a" for a
    using untouched_Suc [OF that k room(1)] frame last(3) by simp
  ultimately show ?case using below by (auto simp: less_Suc_eq)
qed

section \<open>The relocation\<close>

lemma overlap_check_below:
  "\<forall>j<k. mod_end (ram s) (module_ptr mods (i + j)) \<le> reladdr \<Longrightarrow> overlap_check mods i k reladdr s = Some (Inr (False, s))"
proof (induction k arbitrary: i)
  case 0
  then show ?case by (simp add: ret_def)
next
  case (Suc k)
  have "mod_end (ram s) (module_ptr mods i) \<le> reladdr" using Suc.prems by (auto dest: spec [of _ 0])
  moreover have "\<forall>j<k. mod_end (ram s) (module_ptr mods (Suc i + j)) \<le> reladdr"
    using Suc.prems by (auto dest: spec [of _ "Suc _"])
  ultimately show ?case using Suc.IH [of "Suc i"] by (simp add: not_less [symmetric])
qed

lemma count_as_int:
  assumes "fits mods (16 * unat count)"
  shows "nat (sint (count - 1 :: u32) + 1) = unat count"
proof (cases "count = 0")
  case True
  then show ?thesis by simp
next
  case False
  then have c: "unat count \<le> 268435456" "0 < unat count" using assms by (simp_all add: fits_def unat_gt_0)
  then have c': "int (unat count) \<le> 268435456" "0 < int (unat count)" by linarith+
  have "sint (of_int (int (unat count) - 1) :: u32) = int (unat count) - 1"
    by (subst signed_of_int, subst signed_take_bit_int_eq_self) (use c' in simp_all)
  then show ?thesis using c by simp
qed

lemma relocate_result:
  fixes mbi :: u32 and s :: machine
  defines "mods \<equiv> mbi_mods_addr (ram s) mbi"
  assumes "unat (mbi_mods_count (ram s) mbi) = length ms" and "unat extra mod 4096 = 0"
    and "mbi_find_memory (ram s) mbi (of_nat (offset_of (unat extra) ms (length ms))) True phys_max = Some (Some block)"
    and "unat block + offset_of (unat extra) ms (length ms) < 2 ^ 32"
    and "ready (ram s) mods ms (length ms) block (offset_of (unat extra) ms (length ms))"
    and "\<forall>i<length ms. mod_end (ram s) (module_ptr mods i) \<le> block"
  shows "\<exists>s'. mbi_relocate_modules mbi phys_max extra s = Some (Inr (ucast block, s'))
    \<and> (\<forall>i<length ms. placed (ram s') mods (unat extra) ms block i)
    \<and> (\<forall>a. untouched mods (unat extra) ms block (length ms) a \<longrightarrow> ram s' a = ram s a)"
proof -
  let ?n = "length ms" and ?e = "unat extra"
  have fits: "fits mods (16 * ?n)" and mod: "\<forall>i<?n. module_at (ram s) (module_ptr mods i) (ms ! i)"
    using assms(6) by (simp_all add: ready_def Let_def)
  have measure: "measure_modules (ram s) mods 0 ?n extra = Some (map minfo_of ms, of_nat (offset_of ?e ms ?n))"
    using measure_modules_spec [OF mod assms(3), of 0 ?n] assms(5) by simp
  have check: "wp (overlap_check mods 0 ?n block) Q s = Q False s" for Q
    using overlap_check_below [of ?n s mods 0 block] assms(7) by (simp add: wp_def)
  have count: "nat (sint (mbi_mods_count (ram s) mbi - 1) + 1) = ?n"
    using count_as_int [of mods "mbi_mods_count (ram s) mbi"] fits assms(2) by simp
  have le: "?e \<le> offset_of ?e ms ?n" using offset_of_mono [of 0 ?n ms ?e] by simp
  define P where "P s' \<longleftrightarrow> (\<forall>i<?n. placed (ram s') mods ?e ms block i)
      \<and> (\<forall>a. untouched mods ?e ms block ?n a \<longrightarrow> ram s' a = ram s a)" for s' :: machine
  have P: "quiet t u \<Longrightarrow> P t \<Longrightarrow> P u" for t u by (simp add: P_def quiet_ram)
  have copy: "wp (copy_modules mods block (map minfo_of ms) ?n (of_nat (offset_of ?e ms ?n)))
      (\<lambda>r s'. r = extra \<and> P s') t" if "quiet s t" for t
    using copy_modules_spec [of ?n ms t mods block ?e] assms(5,6) that by (simp add: quiet_ram wp_iff P_def)
  have "wp (mbi_relocate_modules mbi phys_max extra) (\<lambda>r s'. r = ucast block \<and> P s') s"
    apply (simp add: mbi_relocate_modules_def mods_def [symmetric] assms(2,4) measure wp_reads Let_def check count)
    apply (rule wp_printf, simp add: is_conv_def va_uint_def, rule no_strings)
    apply (rule wp_printf_then, simp add: is_conv_def va_uint_def)
    apply (simp only: wp_andthen)
    apply (rule wp_mono [OF copy], blast intro: quiet_trans)
    apply (rule wp_printf_then, simp, auto intro: P)
    done
  then show ?thesis by (auto simp: wp_iff P_def)
qed

text \<open>
  C12. The boot modules are moved behind the extra space at the bottom of the block found for them.
  Given modules whose entries, contents and command lines lie outside that block, and none of which
  ends above it, the call returns the block; every entry then describes the same contents and
  command line, in the order of the modules, each from a page boundary on if the extra space is
  whole pages; and only the entries and the rest of the block behind the extra space have changed.
\<close>

theorem mbi_relocate_modules_moves:
  fixes mbi :: u32 and s :: machine
  defines "mods \<equiv> mbi_mods_addr (ram s) mbi"
  assumes "unat (mbi_mods_count (ram s) mbi) = length ms" and "unat extra mod 4096 = 0"
    and "mbi_find_memory (ram s) mbi (of_nat (offset_of (unat extra) ms (length ms))) True phys_max = Some (Some block)"
    and "unat block + offset_of (unat extra) ms (length ms) < 2 ^ 32"
    and "ready (ram s) mods ms (length ms) block (offset_of (unat extra) ms (length ms))"
    and "\<forall>i<length ms. mod_end (ram s) (module_ptr mods i) \<le> block"
  shows "\<exists>s'. mbi_relocate_modules mbi phys_max extra s = Some (Inr (ucast block, s'))
    \<and> (\<forall>i<length ms. placed (ram s') mods (unat extra) ms block i)
    \<and> (\<forall>a. untouched mods (unat extra) ms block (length ms) a \<longrightarrow> ram s' a = ram s a)"
  using assms(2-) unfolding assms(1) by (rule relocate_result)

text \<open>Three bytes at 0x2000, named \<open>a\<close> at 0x3000, the only module of \<open>sample_mbi\<close>.\<close>

definition sample_boot :: mem where
  "sample_boot = sample_mbi(0x514 := 1, 0x519 := 6, 0x601 := 0x20, 0x604 := 3, 0x605 := 0x20, 0x609 := 0x30,
     0x2000 := 1, 0x2001 := 2, 0x2002 := 3, 0x3000 := 0x61)"

definition boot_machine :: machine where
  "boot_machine = undefined\<lparr>ram := sample_boot\<rparr>"

lemma sample_boot_fields:
  "mbi_mods_count sample_boot 0x500 = 1" "mbi_mods_addr sample_boot 0x500 = 0x600"
  "mod_start sample_boot 0x600 = 0x2000" "mod_end sample_boot 0x600 = 0x2003" "mod_string sample_boot 0x600 = 0x3000"
  "mbi_mmap_addr sample_boot 0x500 = 0x1000" "mbi_mmap_length sample_boot 0x500 = 24"
  "mmap_size sample_boot 0x1000 = 20" "mmap_type sample_boot 0x1000 = MMAP_AVAILABLE"
  "mbi_memory_base_addr sample_boot 0x1000 = 0x100000" "mbi_memory_length sample_boot 0x1000 = 0x4000"
  by (simp_all add: mbi_mods_count_def mbi_mods_addr_def mod_start_def mod_end_def mod_string_def mbi_mmap_addr_def
      mbi_mmap_length_def mmap_size_def mmap_type_def MMAP_AVAILABLE_def mbi_memory_base_addr_def
      mbi_memory_length_def load32_bytes sample_boot_def sample_mbi_def)

lemma mbi_relocate_modules_moves_witness:
  "\<exists>s'. mbi_relocate_modules 0x500 0x200000 0x1000 boot_machine = Some (Inr (0x102000, s'))
    \<and> placed (ram s') 0x600 0x1000 [([1, 2, 3], [0x61])] 0x102000 0"
proof -
  let ?ms = "[([1, 2, 3], [0x61])] :: module_image list"
  have ram: "ram boot_machine = sample_boot" by (simp add: boot_machine_def)
  have off: "offset_of 0x1000 ?ms (Suc 0) = 0x2000" by (simp add: offset_of_def mod_room_def)
  have find: "mbi_find_memory sample_boot 0x500 (of_nat 0x2000) True 0x200000 = Some (Some 0x102000)"
    by (simp add: mbi_find_memory_def find_loop.simps take_block_def page_block_def mbi_memory_map_next_def
        sample_boot_fields)
  have ready: "ready sample_boot 0x600 ?ms (length ?ms) 0x102000 0x2000"
    by (simp add: ready_def fits_def apart_def module_at_def module_fits_def module_clear_def module_ptr_def
        sample_boot_fields) (simp add: sample_boot_def sample_mbi_def numeral_3_eq_3)
  show ?thesis
    using mbi_relocate_modules_moves [of boot_machine "0x500" ?ms "0x1000" "0x200000" "0x102000"]
      find ready unfolding ram sample_boot_fields
    by (auto simp: off sample_boot_fields module_ptr_def)
qed

lemma overlap_check_first:
  assumes "\<forall>j<n. mod_end (ram s) (module_ptr mods (i + j)) \<le> reladdr"
    and "reladdr < mod_end (ram s) (module_ptr mods (i + n))" and "n < k"
  shows "\<exists>s'. quiet s s' \<and> overlap_check mods i k reladdr s =
    Some (if mod_start (ram s) (module_ptr mods (i + n)) = reladdr then Inr (True, s') else Inl (Assert_failed ''Failed to relocate''))"
  using assms
proof (induction n arbitrary: i k)
  case 0
  then obtain k' where k: "k = Suc k'" by (cases k) auto
  let ?a = "[Va_word reladdr, Va_word (mod_start (ram s) (module_ptr mods i)),
    Va_word (mod_end (ram s) (module_ptr mods i) - 1)]"
  let ?f = "''Modules might overlap.\<newline>Relocate to %p, but module at %8x-%8x.\<newline>''"
  have "expand (\<lambda>_. None) (directives ''Modules seem to be relocated. Good.\<newline>'') [] \<noteq> None"
    "expand (\<lambda>_. None) (directives ?f) ?a \<noteq> None"
    by (simp_all add: is_conv_def va_uint_def)
  then obtain s1 s2 where
    "quiet s s1" "\<And>k. andthen (printf ''Modules seem to be relocated. Good.\<newline>'' []) k s = (k () s1 :: (fault + bool \<times> machine) option)"
    "quiet s s2" "\<And>k. andthen (printf ?f ?a) k s = (k () s2 :: (fault + bool \<times> machine) option)"
    using printf_then [OF _ no_strings] by metis
  then show ?case
    using 0 by (auto simp: k ret_def fail_def)
next
  case (Suc n)
  then obtain k' where k: "k = Suc k'" by (cases k) auto
  have "\<not> reladdr < mod_end (ram s) (module_ptr mods i)" using Suc.prems(1) by (auto dest: spec [of _ 0])
  moreover have "\<forall>j<n. mod_end (ram s) (module_ptr mods (Suc i + j)) \<le> reladdr"
    using Suc.prems(1) by (auto dest: spec [of _ "Suc _"])
  ultimately show ?case using Suc.IH [of "Suc i" k'] Suc.prems(2,3) by (simp add: k)
qed

text \<open>
  C27. When a module ends above the block found for the modules, the first such module decides. If it
  starts at the block, the modules are taken to be relocated already and the call returns the block
  with memory unchanged; otherwise it fails. In the first case the extra space that the
  caller is promised at the front of the block is the contents of that module.
\<close>

theorem mbi_relocate_modules_overlap:
  assumes "measure_modules (ram s) (mbi_mods_addr (ram s) mbi) 0 (unat (mbi_mods_count (ram s) mbi)) extra = Some (minfo, size')"
    and "mbi_find_memory (ram s) mbi size' True phys_max = Some (Some block)"
    and "n < unat (mbi_mods_count (ram s) mbi)"
    and "\<forall>j<n. mod_end (ram s) (module_ptr (mbi_mods_addr (ram s) mbi) j) \<le> block"
    and "block < mod_end (ram s) (module_ptr (mbi_mods_addr (ram s) mbi) n)"
  shows "if mod_start (ram s) (module_ptr (mbi_mods_addr (ram s) mbi) n) = block
    then \<exists>s'. mbi_relocate_modules mbi phys_max extra s = Some (Inr (ucast block, s')) \<and> ram s' = ram s
      \<and> (0 < extra \<longrightarrow> in_region block (unat extra) (mod_start (ram s') (module_ptr (mbi_mods_addr (ram s') mbi) n)))
    else mbi_relocate_modules mbi phys_max extra s = Some (Inl (Assert_failed ''Failed to relocate''))"
proof -
  obtain s' where q: "quiet s s'" and c: "overlap_check (mbi_mods_addr (ram s) mbi) 0 (unat (mbi_mods_count (ram s) mbi)) block s =
    Some (if mod_start (ram s) (module_ptr (mbi_mods_addr (ram s) mbi) n) = block then Inr (True, s')
      else Inl (Assert_failed ''Failed to relocate''))"
    using overlap_check_first [of n s "mbi_mods_addr (ram s) mbi" 0 block] assms(3-5) by auto
  have "mbi_relocate_modules mbi phys_max extra s = Some (if mod_start (ram s) (module_ptr (mbi_mods_addr (ram s) mbi) n) = block
      then Inr (ucast block, s') else Inl (Assert_failed ''Failed to relocate''))"
    using c by (simp add: mbi_relocate_modules_def andthen_reads assms(1,2) andthen_def [of "overlap_check _ _ _ _"] ret_def)
  moreover have "0 < extra \<Longrightarrow> 0 < unat extra" by (simp add: unat_gt_0)
  ultimately show ?thesis using quiet_ram [OF q] by (auto simp: in_region_def)
qed

text \<open>The module already lies where the search puts the extra space and the module.\<close>

definition moved_boot :: mem where
  "moved_boot = sample_boot(0x602 := 0x10, 0x604 := 0x10, 0x605 := 0x20, 0x606 := 0x10)"

lemma mbi_relocate_modules_overlap_witness:
  "\<exists>s'. mbi_relocate_modules 0x500 0x200000 0x1000 (boot_machine\<lparr>ram := moved_boot\<rparr>) = Some (Inr (0x102000, s'))
    \<and> in_region 0x102000 0x1000 (mod_start (ram s') (module_ptr (mbi_mods_addr (ram s') 0x500) 0))"
proof -
  have f: "mbi_mods_count moved_boot 0x500 = 1" "mbi_mods_addr moved_boot 0x500 = 0x600"
    "mod_start moved_boot 0x600 = 0x102000" "mod_end moved_boot 0x600 = 0x102010" "mod_string moved_boot 0x600 = 0x3000"
    "mbi_mmap_addr moved_boot 0x500 = 0x1000" "mbi_mmap_length moved_boot 0x500 = 24"
    "mmap_size moved_boot 0x1000 = 20" "mmap_type moved_boot 0x1000 = MMAP_AVAILABLE"
    "mbi_memory_base_addr moved_boot 0x1000 = 0x100000" "mbi_memory_length moved_boot 0x1000 = 0x4000"
    by (simp_all add: mbi_mods_count_def mbi_mods_addr_def mod_start_def mod_end_def mod_string_def mbi_mmap_addr_def
        mbi_mmap_length_def mmap_size_def mmap_type_def MMAP_AVAILABLE_def mbi_memory_base_addr_def
        mbi_memory_length_def load32_bytes moved_boot_def sample_boot_def sample_mbi_def)
  have "cstr moved_boot 0x3000 [0x61]" by (simp add: moved_boot_def sample_boot_def sample_mbi_def)
  then have "strlen moved_boot 0x3000 = Some 1" using strlen_cstr by fastforce
  then have "measure_modules moved_boot 0x600 0 1 0x1000 = Some ([(0x10, 2)], page_round 0x1012)"
    by (simp add: One_nat_def f module_ptr_def)
  moreover have "page_round 0x1012 = 0x2000" by (simp add: page_round_def)
  moreover have "mbi_find_memory moved_boot 0x500 0x2000 True 0x200000 = Some (Some 0x102000)"
    by (simp add: mbi_find_memory_def find_loop.simps take_block_def page_block_def mbi_memory_map_next_def f)
  ultimately show ?thesis
    using mbi_relocate_modules_overlap [of "boot_machine\<lparr>ram := moved_boot\<rparr>" "0x500" "0x1000" "[(0x10, 2)]" "0x2000" "0x200000" "0x102000" 0]
    by (auto simp: f module_ptr_def)
qed

section \<open>Popping a module\<close>

lemma load32_store32_other:
  "apart q 4 p 4 \<Longrightarrow> fits q 4 \<Longrightarrow> fits p 4 \<Longrightarrow> load32 (store32 m q v) p = load32 m p"
  unfolding store32_def by (rule load32_write_apart) simp_all

lemma pop_result:
  assumes "fits mbi 28" and "apart mbi 28 (mbi_mods_addr (ram s) mbi) 16" and "fits (mbi_mods_addr (ram s) mbi) 16"
  shows "if mbi_mods_count (ram s) mbi = 0
    then mbi_pop_module mbi s = Some (Inl (Assert_failed ''No module to start?''))
    else \<exists>x s'. mbi_pop_module mbi s = Some (Inr (x, s'))
      \<and> bm_start x = mod_start (ram s) (mbi_mods_addr (ram s) mbi) \<and> bm_end x = mod_end (ram s) (mbi_mods_addr (ram s) mbi)
      \<and> bm_string x = mod_string (ram s) (mbi_mods_addr (ram s) mbi)
      \<and> bm_reserved x = load32 (ram s) (mbi_mods_addr (ram s) mbi + 12)
      \<and> mbi_mods_count (ram s') mbi = mbi_mods_count (ram s) mbi - 1
      \<and> (\<forall>i. module_ptr (mbi_mods_addr (ram s') mbi) i = module_ptr (mbi_mods_addr (ram s) mbi) (Suc i))
      \<and> (\<forall>a. \<not> in_region (mbi + 20) 8 a \<longrightarrow> ram s' a = ram s a)"
proof (cases "mbi_mods_count (ram s) mbi = 0")
  case True
  then show ?thesis by (simp add: mbi_pop_module_def)
next
  case False
  define m p where "m = ram s" and "p = mbi_mods_addr (ram s) mbi"
  define m1 where "m1 = store32 m (mbi + 24) (p + 16)"
  define m2 where "m2 = store32 m1 (mbi + 20) (mbi_mods_count m1 mbi - 1)"
  have p: "mbi_mods_addr m mbi = p" by (simp add: p_def m_def)
  have u: "unat (mbi + 20) = unat mbi + 20" "unat (mbi + 24) = unat mbi + 24"
    using assms(1) unat_add_of_nat [of mbi 20] unat_add_of_nat [of mbi 24] by (simp_all add: fits_def)
  have f: "fits (mbi + 20) 4" "fits (mbi + 24) 4" using assms(1) u by (simp_all add: fits_def)
  have other: "load32 m2 q = load32 m q" if "apart (mbi + 20) 8 q 4" "fits q 4" for q
    unfolding m2_def m1_def using that f u by (subst load32_store32_other, auto simp: apart_def)+
  have field: "load32 m2 (p + of_nat off) = load32 m (p + of_nat off)" if "off \<le> 12" for off
  proof (rule other)
    have "unat (p + of_nat off) = unat p + off"
      by (rule unat_add_of_nat) (use assms(3) that in \<open>simp add: p_def fits_def\<close>)
    then show "apart (mbi + 20) 8 (p + of_nat off) 4" "fits (p + of_nat off) 4"
      using assms(2,3) u that by (auto simp: apart_def fits_def p_def)
  qed
  have addr: "mbi_mods_addr m2 mbi = p + 16"
    unfolding mbi_mods_addr_def m2_def
    by (subst load32_store32_other) (use f u in \<open>simp_all add: apart_def m1_def mem_simps\<close>)
  have "mbi_mods_count m1 mbi = mbi_mods_count m mbi"
    unfolding mbi_mods_count_def m1_def by (rule load32_store32_other) (use f u in \<open>simp_all add: apart_def\<close>)
  then have count: "mbi_mods_count m2 mbi = mbi_mods_count m mbi - 1"
    by (simp add: m2_def mbi_mods_count_def mem_simps)
  have frame: "m2 a = m a" if "\<not> in_region (mbi + 20) 8 a" for a
  proof -
    have g: "fits (mbi + 20) 8" using assms(1) u by (simp add: fits_def)
    show ?thesis
      unfolding m2_def m1_def store32_def using that
      by (subst write_bytes_outside, use f u in \<open>auto simp: in_region_nat [OF g] in_region_nat [OF f(1)] in_region_nat [OF f(2)]\<close>)+
  qed
  have "mbi_pop_module mbi s = Some (Inr (\<lparr>bm_start = mod_start m2 p, bm_end = mod_end m2 p,
      bm_string = mod_string m2 p, bm_reserved = load32 m2 (p + 12)\<rparr>, s\<lparr>ram := m2\<rparr>))"
    using False by (simp add: mbi_pop_module_def m2_def m1_def p_def m_def word_gt_0) (simp add: gets_def)
  then show ?thesis
    using False field [of 0] field [of 4] field [of 8] field [of 12] addr count frame p
    by (auto simp: mod_start_def mod_end_def mod_string_def module_ptr_def m_def [symmetric] algebra_simps)
qed

text \<open>
  C28. Popping a module fails when there is none. Otherwise it returns the four fields of the
  first entry; the information then lists the other modules, in their order; and nothing but the
  two words that say where the list starts and how long it is has changed.
\<close>

theorem mbi_pop_module_first:
  assumes "fits mbi 28" and "apart mbi 28 (mbi_mods_addr (ram s) mbi) 16" and "fits (mbi_mods_addr (ram s) mbi) 16"
  shows "if mbi_mods_count (ram s) mbi = 0
    then mbi_pop_module mbi s = Some (Inl (Assert_failed ''No module to start?''))
    else \<exists>x s'. mbi_pop_module mbi s = Some (Inr (x, s'))
      \<and> bm_start x = mod_start (ram s) (mbi_mods_addr (ram s) mbi) \<and> bm_end x = mod_end (ram s) (mbi_mods_addr (ram s) mbi)
      \<and> bm_string x = mod_string (ram s) (mbi_mods_addr (ram s) mbi)
      \<and> bm_reserved x = load32 (ram s) (mbi_mods_addr (ram s) mbi + 12)
      \<and> mbi_mods_count (ram s') mbi = mbi_mods_count (ram s) mbi - 1
      \<and> (\<forall>i. module_ptr (mbi_mods_addr (ram s') mbi) i = module_ptr (mbi_mods_addr (ram s) mbi) (Suc i))
      \<and> (\<forall>a. \<not> in_region (mbi + 20) 8 a \<longrightarrow> ram s' a = ram s a)"
  using assms by (rule pop_result)

lemma mbi_pop_module_first_witness:
  "\<exists>x s'. mbi_pop_module 0x500 boot_machine = Some (Inr (x, s')) \<and> bm_start x = 0x2000 \<and> bm_string x = 0x3000
    \<and> mbi_mods_count (ram s') 0x500 = 0"
  using mbi_pop_module_first [of "0x500" boot_machine]
  by (auto simp: boot_machine_def sample_boot_fields fits_def apart_def)

end
