(* ===== verification/Mbi2_Proof.thy ===== *)
theory Mbi2_Proof imports Mbi2 Mbi_Relocate begin

text \<open>
  The Multiboot2 information: the builder appends exactly the tags it is asked to, or fails for
  lack of space, and the accessors of mbi2.h read them back; and where the header of a kernel
  is found.
\<close>

unbundle bit_operations_syntax

section \<open>Adding blobs\<close>

definition up8 :: "nat \<Rightarrow> nat" where
  "up8 a = (a + 7) div 8 * 8"

lemma up8_ge: "a \<le> up8 a" and up8_le: "up8 a \<le> a + 7" and up8_mod [simp]: "up8 a mod 8 = 0"
  unfolding up8_def by presburger+

lemma up8_add: "b mod 8 = 0 \<Longrightarrow> up8 (b + n) = b + up8 n"
  unfolding up8_def by presburger

lemma up8_up8 [simp]: "up8 (up8 a) = up8 a"
  unfolding up8_def by presburger

lemma up8_aligned: "a mod 8 = 0 \<Longrightarrow> up8 a = a"
  unfolding up8_def by presburger

lemma up8_gap: "c mod 8 \<noteq> 0 \<Longrightarrow> up8 c - c = 8 - c mod 8"
proof -
  assume "c mod 8 \<noteq> 0"
  moreover obtain q r where c: "c = q * 8 + r" "r < 8" by (metis div_mult_mod_eq mod_less_divisor zero_less_numeral)
  ultimately have "0 < r" by simp
  moreover have "(q * 8 + r + 7) div 8 = q + (r + 7) div 8" by (simp add: add.assoc)
  moreover have "(r + 7) div 8 = 1" using \<open>0 < r\<close> c(2) by (simp add: div_nat_eqI)
  ultimately show ?thesis using c by (simp add: up8_def)
qed

abbreviation no_space :: fault where
  "no_space \<equiv> Assert_failed ''Out of space when building MBI2 info''"

text \<open>A builder whose cursor has not passed its end.\<close>

definition in_order :: "mbi2_builder \<Rightarrow> bool" where
  "in_order bld \<longleftrightarrow> bld_cur bld \<le> bld_end bld"

lemma available: "in_order bld \<Longrightarrow> unat (mbi2_available_bytes bld) = unat (bld_end bld) - unat (bld_cur bld)"
  by (simp add: in_order_def mbi2_available_bytes_def unat_sub)

lemma align_step:
  "unat (let x = cur mod 8 in if x = 0 then 0 else 8 - x) = up8 (unat (cur::u32)) - unat cur"
proof -
  have m: "unat (cur mod 8) = unat cur mod 8" by (simp add: unat_mod_distrib)
  show ?thesis
  proof (cases "cur mod 8 = 0")
    case True
    then have "unat cur mod 8 = 0" using m by simp
    then show ?thesis using True by (simp add: up8_aligned Let_def)
  next
    case False
    then have "unat cur mod 8 \<noteq> 0" using m by (simp add: word_unat_eq_iff)
    moreover have "unat cur mod 8 < 8" by simp
    moreover have "cur mod 8 \<le> 8" using m by (simp add: word_le_nat_alt)
    ultimately have "unat (8 - cur mod 8) = 8 - unat cur mod 8" using m by (simp add: unat_sub)
    moreover have "up8 (unat cur) - unat cur = 8 - unat cur mod 8"
      by (rule up8_gap) fact
    ultimately show ?thesis using False by (simp add: Let_def)
  qed
qed

lemma add_blob_8:
  assumes "in_order bld" and "length bs = 8"
  shows "mbi2_add_blob bld MBI2_TAG_ALIGNMENT (Local bs) s =
    (if unat (bld_cur bld) + 16 \<le> unat (bld_end bld)
     then Some (Inr (bld\<lparr>bld_cur := of_nat (up8 (unat (bld_cur bld)) + 8)\<rparr>,
       s\<lparr>ram := write_bytes (ram s) (of_nat (up8 (unat (bld_cur bld)))) bs\<rparr>))
     else Some (Inl no_space))"
proof -
  let ?c = "bld_cur bld"
  have room: "(8 + MBI2_TAG_ALIGNMENT \<le> mbi2_available_bytes bld) = (unat ?c + 16 \<le> unat (bld_end bld))"
    using available [OF assms(1)] assms(1)
    by (auto simp: MBI2_TAG_ALIGNMENT_def word_le_nat_alt in_order_def)
  have "?c + (if ?c mod 8 = 0 then 0 else 8 - ?c mod 8) = of_nat (up8 (unat ?c))"
  proof -
    have "of_nat (unat ?c + (up8 (unat ?c) - unat ?c)) = (of_nat (up8 (unat ?c)) :: u32)"
      using up8_ge [of "unat ?c"] by simp
    then show ?thesis
      using nat_to_word_back [OF align_step [of ?c]] by (simp add: Let_def del: of_nat_diff)
  qed
  then show ?thesis
    using room assms(2)
    by (cases "unat ?c + 16 \<le> unat (bld_end bld)") (simp_all add: mbi2_add_blob_def Let_def ret_def MBI2_TAG_ALIGNMENT_def)
qed

lemma add_blob_1:
  assumes "in_order bld" and "unat (blob_size data) + 1 < 2 ^ 32"
  shows "mbi2_add_blob bld 1 data s =
    (if unat (bld_cur bld) + unat (blob_size data) + 1 \<le> unat (bld_end bld)
     then Some (Inr (bld\<lparr>bld_cur := bld_cur bld + blob_size data\<rparr>, s\<lparr>ram := copy_blob (ram s) (bld_cur bld) data\<rparr>))
     else Some (Inl no_space))"
proof -
  have "unat (blob_size data + 1) = unat (blob_size data) + 1"
    using assms(2) unat_add_of_nat [of "blob_size data" 1] by simp
  then have "(blob_size data + 1 \<le> mbi2_available_bytes bld)
      = (unat (bld_cur bld) + unat (blob_size data) + 1 \<le> unat (bld_end bld))"
    using available [OF assms(1)] assms(1) by (auto simp: word_le_nat_alt in_order_def)
  then show ?thesis
    by (simp add: mbi2_add_blob_def Let_def ret_def)
qed

section \<open>Tags in memory\<close>

text \<open>A tag is its type and its payload; \<open>tags_at m a ts c\<close>: the tags lie one after the other
  from \<open>a\<close> on, each from the next multiple of 8, and the last one ends at \<open>c\<close>.\<close>

type_synonym tag = "u32 \<times> u8 list"

definition tag_bytes :: "tag \<Rightarrow> u8 list" where
  "tag_bytes t = tag_image (fst t) (of_nat (8 + length (snd t))) @ snd t"

primrec tags_end :: "nat \<Rightarrow> tag list \<Rightarrow> nat" where
  "tags_end a [] = a"
| "tags_end a (t # ts) = tags_end (up8 a + (8 + length (snd t))) ts"

primrec tags_at :: "mem \<Rightarrow> nat \<Rightarrow> tag list \<Rightarrow> bool" where
  "tags_at m a [] \<longleftrightarrow> True"
| "tags_at m a (t # ts) \<longleftrightarrow> read_bytes m (of_nat (up8 a)) (8 + length (snd t)) = tag_bytes t
     \<and> tags_at m (up8 a + (8 + length (snd t))) ts"

lemma length_tag_bytes [simp]: "length (tag_bytes t) = 8 + length (snd t)"
  by (simp add: tag_bytes_def tag_image_def)

lemma length_images [simp]: "length (tag_image a b) = 8" "length (mod_image a b) = 8"
  "length (memory_image a b) = 8" "length (info_image a b) = 8" "length (entry_image x y z) = 24"
  by (simp_all add: tag_image_def mod_image_def memory_image_def info_image_def entry_image_def)

lemma tags_end_append [simp]: "tags_end a (ts @ us) = tags_end (tags_end a ts) us"
  by (induction ts arbitrary: a) auto

lemma tags_at_append [simp]: "tags_at m a (ts @ us) \<longleftrightarrow> tags_at m a ts \<and> tags_at m (tags_end a ts) us"
  by (induction ts arbitrary: a) auto

lemma tags_end_ge: "a \<le> tags_end a ts"
proof (induction ts arbitrary: a)
  case (Cons t ts)
  have "a \<le> up8 a + (8 + length (snd t))" using up8_ge [of a] by simp
  also have "\<dots> \<le> tags_end (up8 a + (8 + length (snd t))) ts" by (rule Cons.IH)
  finally show ?case by simp
qed simp

lemma tags_at_frame:
  assumes "tags_at m a ts" and "\<And>x. a \<le> unat x \<Longrightarrow> unat x < tags_end a ts \<Longrightarrow> m' x = m x"
    and "tags_end a ts \<le> 2 ^ 32"
  shows "tags_at m' a ts"
  using assms
proof (induction ts arbitrary: a)
  case (Cons t ts)
  let ?b = "up8 a" and ?n = "8 + length (snd t)"
  have e: "?b + ?n \<le> tags_end a (t # ts)" "a \<le> ?b" using tags_end_ge up8_ge by simp_all
  have "read_bytes m' (of_nat ?b) ?n = read_bytes m (of_nat ?b) ?n"
  proof (rule read_bytes_cong)
    fix i assume i: "i < ?n"
    then have "unat (of_nat ?b + of_nat i :: u32) = ?b + i"
      using unat_of_nat_small [of "?b + i", where 'a = 32] e Cons.prems(3) by simp
    then show "m' (of_nat ?b + of_nat i) = m (of_nat ?b + of_nat i)"
      using Cons.prems(2) [of "of_nat ?b + of_nat i"] e i by simp
  qed
  moreover have "tags_at m' (?b + ?n) ts"
    by (rule Cons.IH) (use Cons.prems e in auto)
  ultimately show ?case using Cons.prems(1) by simp
qed simp

section \<open>Appending a tag\<close>

text \<open>The builder and the machine once the bytes \<open>w\<close> of a tag have been put out.\<close>

definition put :: "mbi2_builder \<Rightarrow> machine \<Rightarrow> u8 list \<Rightarrow> mbi2_builder \<times> machine" where
  "put bld s w = (let b = up8 (unat (bld_cur bld)) in
     (bld\<lparr>bld_cur := of_nat (b + length w)\<rparr>, s\<lparr>ram := write_bytes (ram s) (of_nat b) w\<rparr>))"

text \<open>What every operation that adds a tag is meant to do. The space asked for includes the 8 bytes
  for alignment at first and one byte at the end.\<close>

definition has_room :: "mbi2_builder \<Rightarrow> nat \<Rightarrow> bool" where
  "has_room bld n \<longleftrightarrow> unat (bld_cur bld) + 16 \<le> unat (bld_end bld)
     \<and> up8 (unat (bld_cur bld)) + n < unat (bld_end bld)"

definition append_tag :: "mbi2_builder \<Rightarrow> tag \<Rightarrow> machine \<Rightarrow> (fault + mbi2_builder \<times> machine) option" where
  "append_tag bld t s = Some (if has_room bld (8 + length (snd t)) then Inr (put bld s (tag_bytes t)) else Inl no_space)"

text \<open>What a blob brings to memory, at \<open>w\<close> bytes into the tag.\<close>

definition brings :: "mbi2_builder \<Rightarrow> machine \<Rightarrow> u8 list \<Rightarrow> blob \<Rightarrow> u8 list \<Rightarrow> bool" where
  "brings bld s w data q \<longleftrightarrow> unat (blob_size data) = length q
     \<and> (let d = up8 (unat (bld_cur bld)) + length w; m = write_bytes (ram s) (of_nat (up8 (unat (bld_cur bld)))) w
        in d + length q < unat (bld_end bld) \<longrightarrow> copy_blob m (of_nat d) data = write_bytes m (of_nat d) q)"

lemma put_tag:
  assumes "in_order bld" and "length bs = 8"
  shows "mbi2_add_blob bld MBI2_TAG_ALIGNMENT (Local bs) s =
    (if unat (bld_cur bld) + 16 \<le> unat (bld_end bld) then Some (Inr (put bld s bs)) else Some (Inl no_space))"
  using assms by (simp add: add_blob_8 put_def Let_def)

lemma put_more:
  assumes "in_order bld" and "up8 (unat (bld_cur bld)) + length w \<le> unat (bld_end bld)"
    and "brings bld s w data q" and "length q + 1 < 2 ^ 32"
  shows "mbi2_add_blob (fst (put bld s w)) 1 data (snd (put bld s w)) =
    (if up8 (unat (bld_cur bld)) + length (w @ q) < unat (bld_end bld)
     then Some (Inr (put bld s (w @ q))) else Some (Inl no_space))"
proof -
  let ?b = "up8 (unat (bld_cur bld))"
  have "?b + length w < 4294967296" using assms(2) unat32_bound_eval [of "bld_end bld"] by linarith
  then have u: "unat (of_nat (?b + length w) :: u32) = ?b + length w" by (intro unat_of_nat_small) simp
  have ord: "in_order (fst (put bld s w))"
    using assms(2) u by (simp add: put_def Let_def in_order_def word_le_nat_alt del: of_nat_add)
  have q: "unat (blob_size data) = length q" using assms(3) by (simp add: brings_def)
  have size': "blob_size data = of_nat (length q)" using nat_to_word_back [OF q] .
  have split: "write_bytes (ram s) (of_nat ?b) (w @ q) = write_bytes (write_bytes (ram s) (of_nat ?b) w) (of_nat (?b + length w)) q"
    by (simp add: write_bytes_append)
  show ?thesis
    using add_blob_1 [OF ord, of data "snd (put bld s w)"] assms(3,4) u
    by (simp add: q put_def Let_def brings_def split size' add.assoc Suc_le_eq del: of_nat_add)
       (simp add: add.assoc)
qed

lemma brings_local: "length q < 2 ^ 32 \<Longrightarrow> brings bld s w (Local q) q"
  by (simp add: brings_def Let_def unat_of_nat_small)

text \<open>Sources the builder does not overwrite.\<close>

definition source :: "mbi2_builder \<Rightarrow> u32 \<Rightarrow> nat \<Rightarrow> bool" where
  "source bld p n \<longleftrightarrow> fits p n \<and> apart (bld_cur bld) (unat (bld_end bld) - unat (bld_cur bld)) p n"

lemma read_source:
  assumes "source bld p n" and "in_order bld" and "up8 (unat (bld_cur bld)) + length w \<le> unat (bld_end bld)"
  shows "read_bytes (write_bytes m (of_nat (up8 (unat (bld_cur bld)))) w) p n = read_bytes m p n"
proof (rule read_write_apart)
  let ?b = "up8 (unat (bld_cur bld))"
  have e: "unat (bld_end bld) < 4294967296" by simp
  then have "?b < 4294967296" using assms(3) by linarith
  then have u: "unat (of_nat ?b :: u32) = ?b" by (intro unat_of_nat_small) simp
  show "fits (of_nat ?b) (length w)"
    unfolding fits_def u using assms(3) unat32_bound [of "bld_end bld"] by linarith
  have "apart (bld_cur bld) (unat (bld_end bld) - unat (bld_cur bld)) p n" using assms(1) by (simp add: source_def)
  then show "apart (of_nat ?b) (length w) p n"
    by (rule apart_part) (use u up8_ge [of "unat (bld_cur bld)"] assms(2,3) in \<open>simp_all add: in_order_def word_le_nat_alt\<close>)
qed (use assms in \<open>simp add: source_def\<close>)

lemma brings_at:
  assumes "source bld p (unat n)" and "in_order bld"
  shows "brings bld s w (At p n) (read_bytes (ram s) p (unat n))"
proof -
  let ?b = "up8 (unat (bld_cur bld))"
  have "copy_blob (write_bytes (ram s) (of_nat ?b) w) (of_nat (?b + length w)) (At p n)
      = write_bytes (write_bytes (ram s) (of_nat ?b) w) (of_nat (?b + length w)) (read_bytes (ram s) p (unat n))"
    if room: "?b + length w + unat n < unat (bld_end bld)"
  proof -
    have e: "unat (bld_end bld) < 4294967296" by simp
    then have "?b + length w < 4294967296" using room by linarith
    then have u: "unat (of_nat (?b + length w) :: u32) = ?b + length w" by (intro unat_of_nat_small) simp
    have "apart (bld_cur bld) (unat (bld_end bld) - unat (bld_cur bld)) p (unat n)" using assms(1) by (simp add: source_def)
    then have "apart (of_nat (?b + length w)) (unat n) p (unat n)"
      by (rule apart_part)
        (use u up8_ge [of "unat (bld_cur bld)"] assms(2) room in \<open>simp_all add: in_order_def word_le_nat_alt del: of_nat_add\<close>)
    moreover have "fits (of_nat (?b + length w)) (unat n)" unfolding fits_def u using room unat32_bound [of "bld_end bld"] by linarith
    ultimately have "memcpy (write_bytes (ram s) (of_nat ?b) w) (of_nat (?b + length w)) p n
        = write_bytes (write_bytes (ram s) (of_nat ?b) w) (of_nat (?b + length w))
            (read_bytes (write_bytes (ram s) (of_nat ?b) w) p (unat n))"
      using assms(1) by (intro memcpy_apart) (simp_all add: source_def)
    then show ?thesis using read_source [OF assms, of w] room by simp
  qed
  then show ?thesis by (simp add: brings_def Let_def)
qed

lemma up8_16: "up8 a + 9 \<le> a + 16"
  using up8_le [of a] by simp

section \<open>The operations append tags\<close>

lemma tag_then:
  assumes "in_order bld" and "length bs = 8"
  shows "andthen (mbi2_add_blob bld MBI2_TAG_ALIGNMENT (Local bs)) k s =
    (if unat (bld_cur bld) + 16 \<le> unat (bld_end bld) then k (fst (put bld s bs)) (snd (put bld s bs)) else Some (Inl no_space))"
  using put_tag [OF assms] by (simp add: andthen_def)

lemma part_then:
  assumes "in_order bld" and "up8 (unat (bld_cur bld)) + length w \<le> unat (bld_end bld)"
    and "brings bld s w data q" and "length q + 1 < 2 ^ 32"
  shows "andthen (mbi2_add_blob (fst (put bld s w)) 1 data) k (snd (put bld s w)) =
    (if up8 (unat (bld_cur bld)) + length (w @ q) < unat (bld_end bld)
     then k (fst (put bld s (w @ q))) (snd (put bld s (w @ q))) else Some (Inl no_space))"
  using put_more [OF assms] by (simp add: andthen_def)

lemma string_size:
  assumes "cstr m p str" and "length str + 16 < 2 ^ 32"
  shows "unat (of_nat (length str) + 1 :: u32) = Suc (length str)"
    "read_bytes m p (Suc (length str)) = str @ [0]"
  using unat_of_nat_small [of "Suc (length str)", where 'a = 32] cstr_read [OF assms(1)] assms(2)
  by (simp_all add: add.commute [of _ "1 :: u32"] del: read_bytes.simps)

lemma reads_string: "cstr (ram s) p str \<Longrightarrow> andthen (reads (\<lambda>s. strlen (ram s) p)) k s = k (of_nat (length str)) s"
  by (simp add: andthen_reads strlen_cstr)

lemma brings_string:
  assumes "in_order bld" and "cstr (ram s) p str" and "source bld p (Suc (length str))" and "length str + 16 < 2 ^ 32"
  shows "brings bld s w (At p (of_nat (length str) + 1)) (str @ [0])"
  using brings_at [of bld p "of_nat (length str) + 1" s w] assms(1,3) string_size [OF assms(2,4)] by simp

lemma cmdline_appends:
  assumes "in_order bld" and "cstr (ram s) p str" and "source bld p (Suc (length str))" and "length str + 16 < 2 ^ 32"
  shows "mbi2_add_boot_cmdline bld p s = append_tag bld (MBI2_TAG_CMDLINE, str @ [0]) s"
proof -
  let ?tag = "tag_image MBI2_TAG_CMDLINE (8 + (of_nat (length str) + 1))"
  have t: "tag_bytes (MBI2_TAG_CMDLINE, str @ [0]) = ?tag @ str @ [0]" by (simp add: tag_bytes_def ac_simps)
  have "mbi2_add_boot_cmdline bld p s =
    (if unat (bld_cur bld) + 16 \<le> unat (bld_end bld) then mbi2_add_blob (fst (put bld s ?tag)) 1
       (At p (of_nat (length str) + 1)) (snd (put bld s ?tag)) else Some (Inl no_space))"
    unfolding mbi2_add_boot_cmdline_def reads_string [OF assms(2)] Let_def
    by (rule tag_then [OF assms(1)]) simp
  also have "\<dots> = append_tag bld (MBI2_TAG_CMDLINE, str @ [0]) s"
    using put_more [OF assms(1) _ brings_string [OF assms], of ?tag] up8_16 [of "unat (bld_cur bld)"] assms(4)
    by (auto simp: append_tag_def has_room_def t)
  finally show ?thesis .
qed

lemma module_appends:
  assumes "in_order bld" and "cstr (ram s) p str" and "source bld p (Suc (length str))" and "length str + 24 < 2 ^ 32"
  shows "mbi2_add_module bld start fin p s
    = append_tag bld (MBI2_TAG_MODULE, mod_image (ucast start) (ucast fin) @ str @ [0]) s"
proof -
  let ?tag = "tag_image MBI2_TAG_MODULE (8 + 8 + (of_nat (length str) + 1))" and ?mod = "mod_image (ucast start) (ucast fin)"
  let ?k = "\<lambda>bld. mbi2_add_blob bld 1 (At p (of_nat (length str) + 1))"
  have t: "tag_bytes (MBI2_TAG_MODULE, ?mod @ str @ [0]) = ?tag @ ?mod @ str @ [0]" by (simp add: tag_bytes_def ac_simps)
  have str: "brings bld s (?tag @ ?mod) (At p (of_nat (length str) + 1)) (str @ [0])"
    by (rule brings_string [OF assms(1-3)]) (use assms(4) in simp)
  have mod: "brings bld s ?tag (Local ?mod) ?mod" by (rule brings_local) simp
  have "mbi2_add_module bld start fin p s =
    (if unat (bld_cur bld) + 16 \<le> unat (bld_end bld)
     then andthen (mbi2_add_blob (fst (put bld s ?tag)) 1 (Local ?mod)) ?k (snd (put bld s ?tag)) else Some (Inl no_space))"
    unfolding mbi2_add_module_def reads_string [OF assms(2)] Let_def
    by (rule tag_then [OF assms(1)]) simp
  also have "\<dots> = append_tag bld (MBI2_TAG_MODULE, ?mod @ str @ [0]) s"
    using part_then [OF assms(1) _ mod, of ?k] put_more [OF assms(1) _ str] up8_16 [of "unat (bld_cur bld)"] assms(4)
    by (auto simp: append_tag_def has_room_def t)
  finally show ?thesis .
qed

text \<open>The memory map: one entry per entry of the Multiboot1 map, in its order.\<close>

lemma count_entries_chain: "mmap_chain m e p ps \<Longrightarrow> count_entries m p e n = Some (n + of_nat (length ps))"
proof (induction arbitrary: n rule: mmap_chain.induct)
  case chain_end
  then show ?case by (simp add: count_entries.simps)
next
  case (chain_step p ps)
  then show ?case by (subst count_entries.simps) (simp add: ac_simps)
qed

lemma load32_same:
  assumes "read_bytes m' p n = read_bytes m p n" and "off + 4 \<le> n"
  shows "load32 m' (p + of_nat off) = load32 m (p + of_nat off)"
  unfolding load32_def
proof (rule arg_cong [OF read_bytes_cong])
  fix i assume i: "i < (4::nat)"
  then have "read_bytes m' p n ! (off + i) = read_bytes m p n ! (off + i)" "off + i < n" using assms by simp_all
  then show "m' (p + of_nat off + of_nat i) = m (p + of_nat off + of_nat i)"
    by (simp add: nth_read_bytes add.assoc)
qed

lemma mmap_entry_same:
  assumes "read_bytes m' p 24 = read_bytes m p 24"
  shows "mmap_entry_image m' p = mmap_entry_image m p" "mbi_memory_map_next m' p e = mbi_memory_map_next m p e"
  using load32_same [OF assms, of 0] load32_same [OF assms, of 4] load32_same [OF assms, of 8]
    load32_same [OF assms, of 12] load32_same [OF assms, of 16] load32_same [OF assms, of 20]
  by (simp_all add: mmap_entry_image_def mbi_memory_base_addr_def mbi_memory_length_def mmap_type_def
      mbi_memory_map_next_def mmap_size_def)

lemma length_mmap_entry [simp]: "length (mmap_entry_image m p) = 24"
  by (simp add: mmap_entry_image_def)

lemma add_entries_chain:
  assumes "in_order bld"
  shows "mmap_chain (ram s) e p ps \<Longrightarrow> \<forall>p\<in>set ps. source bld p 24 \<Longrightarrow> up8 (unat (bld_cur bld)) + length w < unat (bld_end bld) \<Longrightarrow>
    add_entries p e (fst (put bld s w)) (snd (put bld s w)) =
      Some (if up8 (unat (bld_cur bld)) + (length w + 24 * length ps) < unat (bld_end bld)
        then Inr (put bld s (w @ concat (map (mmap_entry_image (ram s)) ps))) else Inl no_space)"
proof (induction ps arbitrary: p w)
  case Nil
  then show ?case by (subst add_entries.simps) simp
next
  case (Cons q ps)
  let ?m = "ram (snd (put bld s w))" and ?i = "mmap_entry_image (ram s) q" and ?b = "up8 (unat (bld_cur bld))"
  have q: "p = q" "q \<noteq> 0" "mmap_chain (ram s) e (mbi_memory_map_next (ram s) q e) ps" using Cons.prems(1) by simp_all
  have "read_bytes ?m q 24 = read_bytes (ram s) q 24"
    using read_source [of bld q 24 w] Cons.prems(2,3) assms by (simp add: put_def Let_def)
  note same = mmap_entry_same [OF this]
  have "brings bld s w (Local ?i) ?i" by (rule brings_local) simp
  note more = put_more [OF assms less_imp_le [OF Cons.prems(3)] this]
  show ?case
  proof (cases "?b + length (w @ ?i) < unat (bld_end bld)")
    case True
    have "read_bytes (ram (snd (put bld s (w @ ?i)))) q 24 = read_bytes (ram s) q 24"
      using read_source [of bld q 24 "w @ ?i"] Cons.prems(2) assms True by (simp add: put_def Let_def)
    note same' = mmap_entry_same [OF this]
    have "add_entries q e (fst (put bld s w)) (snd (put bld s w)) =
        add_entries (mbi_memory_map_next (ram s) q e) e (fst (put bld s (w @ ?i))) (snd (put bld s (w @ ?i)))"
      by (subst add_entries.simps) (use True q(2) more same same' in simp)
    also have "\<dots> = Some (if ?b + (length (w @ ?i) + 24 * length ps) < unat (bld_end bld)
        then Inr (put bld s ((w @ ?i) @ concat (map (mmap_entry_image (ram s)) ps))) else Inl no_space)"
      by (rule Cons.IH [OF q(3)]) (use Cons.prems(2) True in auto)
    finally show ?thesis by (simp add: q(1) add.assoc)
  next
    case False
    have "add_entries q e (fst (put bld s w)) (snd (put bld s w)) = Some (Inl no_space)"
      by (subst add_entries.simps) (use False q(2) more same in simp)
    then show ?thesis using False by (simp add: q(1))
  qed
qed

text \<open>
  What a memory tag has to hold, in terms of the bytes of the Multiboot1 map: the 20 bytes of an entry that
  follow its size, these being the base, the length and the type, each little endian, and four zero bytes; before the first entry the size of
  one and a zero version.
\<close>

definition raw_entry :: "mem \<Rightarrow> u32 \<Rightarrow> u8 list" where
  "raw_entry m p = read_bytes m (p + 4) 20 @ [0, 0, 0, 0]"

definition mmap_payload :: "mem \<Rightarrow> u32 list \<Rightarrow> u8 list" where
  "mmap_payload m ps = [24, 0, 0, 0, 0, 0, 0, 0] @ concat (map (raw_entry m) ps)"

lemma le_bytes_halves: "le_bytes 8 (push_bit 32 (ucast hi) OR ucast lo :: u64) = le_bytes 4 (lo :: u32) @ le_bytes 4 (hi :: u32)"
proof -
  have n: "(8::nat) = Suc (Suc (Suc (Suc (Suc (Suc (Suc (Suc 0)))))))" "(4::nat) = Suc (Suc (Suc (Suc 0)))" by simp_all
  have "\<not> bit lo k" if "32 \<le> k" for k using bit_imp_le_length [of lo k] that by auto
  then have high: "\<not> bit lo (32 + k)" "\<not> bit lo (40 + k)" "\<not> bit lo (48 + k)" "\<not> bit lo (56 + k)" for k by simp_all
  show ?thesis
    unfolding n le_bytes.simps append.simps drop_bit_drop_bit list.inject
    by (intro conjI refl; rule bit_word_eqI) (auto simp: bit_simps high n [symmetric])
qed

lemma le_bytes_load32: "le_bytes 4 (load32 m p) = read_bytes m p 4"
  unfolding load32_def by (rule le_bytes_of_le_bytes) simp_all

lemma mmap_entry_raw: "mmap_entry_image m p = raw_entry m p"
proof -
  have "read_bytes m (p + 4) (4 + (4 + (4 + (4 + 4)))) = read_bytes m (p + 4) 4 @ read_bytes m (p + 8) 4 @ read_bytes m (p + 12) 4
      @ read_bytes m (p + 16) 4 @ read_bytes m (p + 20) 4"
    by (simp only: read_bytes_append) (simp add: add.assoc del: read_bytes.simps)
  moreover have "le_bytes 4 (0 :: u32) = [0, 0, 0, 0]" by (simp add: eval_nat_numeral)
  ultimately show ?thesis
    by (simp add: mmap_entry_image_def entry_image_def mbi_memory_base_addr_def mbi_memory_length_def mmap_type_def
        le_bytes_halves le_bytes_load32 raw_entry_def del: read_bytes.simps le_bytes.simps)
qed

lemma mmap_payload_entries: "mmap_payload m ps = memory_image 24 0 @ concat (map (mmap_entry_image m) ps)"
proof -
  have n: "(4::nat) = Suc (Suc (Suc (Suc 0)))" by simp
  have "memory_image 24 0 = [24, 0, 0, 0, 0, 0, 0, 0]" unfolding memory_image_def n le_bytes.simps by simp
  moreover have "mmap_entry_image m = raw_entry m" by (rule ext) (rule mmap_entry_raw)
  ultimately show ?thesis by (simp only: mmap_payload_def)
qed

lemma length_mmap_payload [simp]: "length (mmap_payload m ps) = 8 + 24 * length ps"
  by (induction ps) (simp_all add: mmap_payload_def raw_entry_def)

lemma memmap_appends:
  assumes "in_order bld" and "mmap_chain (ram s) e p ps" and "\<forall>p\<in>set ps. source bld p 24"
  shows "mbi2_add_mbi1_memmap bld p e s = append_tag bld (MBI2_TAG_MEMORY, mmap_payload (ram s) ps) s"
proof -
  let ?tag = "tag_image MBI2_TAG_MEMORY (16 + 24 * of_nat (length ps))" and ?mem = "memory_image 24 0"
  have t: "tag_bytes (MBI2_TAG_MEMORY, mmap_payload (ram s) ps) = ?tag @ mmap_payload (ram s) ps"
    by (simp add: tag_bytes_def)
  have mem: "brings bld s ?tag (Local ?mem) ?mem" by (rule brings_local) simp
  have "mbi2_add_mbi1_memmap bld p e s =
    (if unat (bld_cur bld) + 16 \<le> unat (bld_end bld)
     then andthen (mbi2_add_blob (fst (put bld s ?tag)) 1 (Local ?mem)) (add_entries p e) (snd (put bld s ?tag)) else Some (Inl no_space))"
    by (simp add: mbi2_add_mbi1_memmap_def andthen_reads count_entries_chain [OF assms(2)] tag_then [OF assms(1)])
  also have "\<dots> = append_tag bld (MBI2_TAG_MEMORY, mmap_payload (ram s) ps) s"
  proof (cases "unat (bld_cur bld) + 16 \<le> unat (bld_end bld)")
    case True
    have part: "andthen (mbi2_add_blob (fst (put bld s ?tag)) 1 (Local ?mem)) (add_entries p e) (snd (put bld s ?tag)) =
      (if up8 (unat (bld_cur bld)) + 16 < unat (bld_end bld)
       then add_entries p e (fst (put bld s (?tag @ ?mem))) (snd (put bld s (?tag @ ?mem))) else Some (Inl no_space))"
      using part_then [OF assms(1) _ mem, of "add_entries p e"] True up8_16 [of "unat (bld_cur bld)"] by simp
    have "add_entries p e (fst (put bld s (?tag @ ?mem))) (snd (put bld s (?tag @ ?mem))) =
      Some (if up8 (unat (bld_cur bld)) + (16 + 24 * length ps) < unat (bld_end bld)
        then Inr (put bld s (?tag @ mmap_payload (ram s) ps)) else Inl no_space)"
      if "up8 (unat (bld_cur bld)) + 16 < unat (bld_end bld)"
      using add_entries_chain [OF assms, of "?tag @ ?mem"] that by (simp add: mmap_payload_entries)
    then show ?thesis
      using True unfolding part by (simp add: append_tag_def has_room_def t)
  qed (simp add: append_tag_def has_room_def)
  finally show ?thesis .
qed

text \<open>The root pointer: 20 bytes of revisions 0 and 1, else as many as it says.\<close>

definition rsdp_length :: "mem \<Rightarrow> u32 \<Rightarrow> u32" where
  "rsdp_length m p = (if rsdp_rev m p \<le> 1 then 20 else rsdp_size m p)"

definition rsdp_tag :: "mem \<Rightarrow> u32 \<Rightarrow> tag" where
  "rsdp_tag m p = (if rsdp_rev m p = 1 then MBI2_TAG_RSDP_V1 else MBI2_TAG_RSDP_V2,
     read_bytes m p (unat (rsdp_length m p)))"

text \<open>A root pointer of ACPI 1.0 has revision 0: it gets the tag of the second version, with 20 bytes only.\<close>

lemma rsdp_revision_0: "rsdp_rev m p = 0 \<Longrightarrow> rsdp_tag m p = (MBI2_TAG_RSDP_V2, read_bytes m p 20)"
  by (simp add: rsdp_tag_def rsdp_length_def)

lemma rsdp_appends:
  assumes "in_order bld" and "source bld p (unat (rsdp_length (ram s) p))" and "unat (rsdp_length (ram s) p) + 16 < 2 ^ 32"
  shows "mbi2_add_rsdp bld p s = append_tag bld (rsdp_tag (ram s) p) s"
proof -
  let ?n = "rsdp_length (ram s) p" and ?ty = "fst (rsdp_tag (ram s) p)" and ?q = "snd (rsdp_tag (ram s) p)"
  let ?tag = "tag_image ?ty (8 + ?n)"
  have q: "length ?q = unat ?n" "tag_bytes (rsdp_tag (ram s) p) = ?tag @ ?q"
    by (simp_all add: rsdp_tag_def tag_bytes_def)
  have ty: "(if rsdp_rev (ram s) p = 1 then MBI2_TAG_RSDP_V1 else MBI2_TAG_RSDP_V2) = ?ty" by (simp add: rsdp_tag_def)
  have b: "brings bld s ?tag (At p ?n) ?q"
    using brings_at [OF assms(2,1)] by (simp add: rsdp_tag_def)
  have "mbi2_add_rsdp bld p s =
    (if unat (bld_cur bld) + 16 \<le> unat (bld_end bld) then mbi2_add_blob (fst (put bld s ?tag)) 1 (At p ?n) (snd (put bld s ?tag))
     else Some (Inl no_space))"
    by (simp add: mbi2_add_rsdp_def Let_def rsdp_length_def [symmetric] ty tag_then [OF assms(1)] split del: if_split)
  also have "\<dots> = append_tag bld (rsdp_tag (ram s) p) s"
    using put_more [OF assms(1) _ b] up8_16 [of "unat (bld_cur bld)"] assms(3)
    by (auto simp: append_tag_def has_room_def q)
  finally show ?thesis .
qed

section \<open>The invariant of the builder\<close>

text \<open>\<open>built m bld ts\<close>: the tags \<open>ts\<close> follow the 8 bytes of \<open>struct mbi2_boot_info\<close> and the cursor is
  where the last one ends.\<close>

definition built :: "mem \<Rightarrow> mbi2_builder \<Rightarrow> tag list \<Rightarrow> bool" where
  "built m bld ts \<longleftrightarrow> unat (bld_start bld) mod 8 = 0 \<and> in_order bld
     \<and> unat (bld_cur bld) = tags_end (unat (bld_start bld) + 8) ts \<and> tags_at m (unat (bld_start bld) + 8) ts"

definition region :: "mbi2_builder \<Rightarrow> nat" where
  "region bld = unat (bld_end bld) - unat (bld_start bld)"

lemma built_in_order: "built m bld ts \<Longrightarrow> in_order bld"
  by (simp add: built_def)

lemma built_start: "built m bld ts \<Longrightarrow> unat (bld_start bld) + 8 \<le> unat (bld_cur bld)"
  using tags_end_ge by (simp add: built_def)

lemma put_frame:
  assumes "up8 (unat (bld_cur bld)) + length w < unat (bld_end bld)"
  shows "bld_start (fst (put bld s w)) = bld_start bld" "bld_end (fst (put bld s w)) = bld_end bld"
    "unat (bld_cur (fst (put bld s w))) = up8 (unat (bld_cur bld)) + length w"
    "read_bytes (ram (snd (put bld s w))) (of_nat (up8 (unat (bld_cur bld)))) (length w) = w"
    "snd (put bld s w) = s\<lparr>ram := ram (snd (put bld s w))\<rparr>"
    "unat a < unat (bld_cur bld) \<or> unat (bld_end bld) \<le> unat a \<Longrightarrow> ram (snd (put bld s w)) a = ram s a"
proof -
  let ?b = "up8 (unat (bld_cur bld))"
  have e: "unat (bld_end bld) < 2 ^ 32" by (rule unat32_bound)
  have le: "?b + length w < 2 ^ 32" using assms e by linarith
  have u: "unat (of_nat ?b :: u32) = ?b" "unat (of_nat (?b + length w) :: u32) = ?b + length w"
    by (rule unat_of_nat_small, use le in simp)+
  show "bld_start (fst (put bld s w)) = bld_start bld" "bld_end (fst (put bld s w)) = bld_end bld"
    "snd (put bld s w) = s\<lparr>ram := ram (snd (put bld s w))\<rparr>"
    by (simp_all add: put_def Let_def)
  show "unat (bld_cur (fst (put bld s w))) = ?b + length w"
    using u(2) by (simp add: put_def Let_def)
  show "read_bytes (ram (snd (put bld s w))) (of_nat ?b) (length w) = w"
    using le by (simp add: put_def Let_def read_write_same)
  have f: "fits (of_nat ?b) (length w)" using le u by (simp add: fits_def)
  assume a: "unat a < unat (bld_cur bld) \<or> unat (bld_end bld) \<le> unat a"
  then have "\<not> in_region (of_nat ?b) (length w) a"
    unfolding in_region_nat [OF f] u using assms up8_ge [of "unat (bld_cur bld)"] by linarith
  then show "ram (snd (put bld s w)) a = ram s a"
    using f by (simp add: put_def Let_def write_apart_outside)
qed

lemma built_append:
  assumes "built (ram s) bld ts" and "has_room bld (8 + length (snd t))"
  shows "built (ram (snd (put bld s (tag_bytes t)))) (fst (put bld s (tag_bytes t))) (ts @ [t])"
proof -
  have room: "up8 (unat (bld_cur bld)) + length (tag_bytes t) < unat (bld_end bld)"
    using assms(2) by (simp add: has_room_def)
  note f = put_frame [OF room, where s = s]
  have old: "tags_at (ram s) (unat (bld_start bld) + 8) ts" "unat (bld_cur bld) = tags_end (unat (bld_start bld) + 8) ts"
    using assms(1) by (simp_all add: built_def)
  have "tags_at (ram (snd (put bld s (tag_bytes t)))) (unat (bld_start bld) + 8) ts"
    by (rule tags_at_frame [OF old(1)])
      (use f(6) old(2) less_imp_le [OF unat32_bound [of "bld_cur bld"]] in \<open>simp_all only: simp_thms\<close>)
  then show ?thesis
    using assms(1) f(1-4) room old(2) by (simp add: built_def in_order_def word_le_nat_alt)
qed

text \<open>
  What adding tags leaves alone: where the region starts and ends, memory outside its free part,
  and everything of the machine but memory and output. Sources keep their contents.
\<close>

definition keeps :: "mbi2_builder \<Rightarrow> machine \<Rightarrow> mbi2_builder \<Rightarrow> machine \<Rightarrow> bool" where
  "keeps bld s bld' s' \<longleftrightarrow> bld_start bld' = bld_start bld \<and> bld_end bld' = bld_end bld \<and> bld_cur bld \<le> bld_cur bld'
     \<and> quiet (s\<lparr>ram := ram s'\<rparr>) s'
     \<and> (\<forall>a. unat a < unat (bld_cur bld) \<or> unat (bld_end bld) \<le> unat a \<longrightarrow> ram s' a = ram s a)"

lemma keeps_refl [simp]: "keeps bld s bld s"
  by (simp add: keeps_def)

lemma keeps_trans:
  assumes "keeps bld s bld' s'" and "keeps bld' s' bld2 s2"
  shows "keeps bld s bld2 s2"
proof -
  have "unat (bld_cur bld) \<le> unat (bld_cur bld')" using assms(1) by (simp add: keeps_def word_le_nat_alt)
  then show ?thesis using assms by (auto simp: keeps_def quiet_def)
qed

lemma keeps_quiet: "quiet s s' \<Longrightarrow> keeps bld s bld s'"
  by (simp add: keeps_def quiet_def)

lemma keeps_source:
  assumes "keeps bld s bld' s'" and "in_order bld'" and "source bld p n"
  shows "source bld' p n" "read_bytes (ram s') p n = read_bytes (ram s) p n"
proof -
  have c: "unat (bld_cur bld) \<le> unat (bld_cur bld')" "bld_end bld' = bld_end bld" "unat (bld_cur bld') \<le> unat (bld_end bld)"
    using assms(1,2) by (simp_all add: keeps_def in_order_def word_le_nat_alt)
  have ap: "apart (bld_cur bld) (unat (bld_end bld) - unat (bld_cur bld)) p n" "fits p n"
    using assms(3) by (simp_all add: source_def)
  have "apart (bld_cur bld') (unat (bld_end bld) - unat (bld_cur bld')) p n"
    by (rule apart_part [OF ap(1)]) (use c in simp_all)
  then show "source bld' p n" using ap c by (simp add: source_def)
  show "read_bytes (ram s') p n = read_bytes (ram s) p n"
  proof (rule read_bytes_cong)
    fix i assume "i < n"
    then have "unat (p + of_nat i) < unat (bld_cur bld) \<or> unat (bld_end bld) \<le> unat (p + of_nat i)"
      using in_region_offset [OF ap(2)] ap(1) c by (auto simp: apart_def)
    then show "ram s' (p + of_nat i) = ram s (p + of_nat i)" using assms(1) unfolding keeps_def by blast
  qed
qed

lemma keeps_string:
  "keeps bld s bld' s' \<Longrightarrow> in_order bld' \<Longrightarrow> source bld p (Suc (length str)) \<Longrightarrow> cstr (ram s) p str \<Longrightarrow> cstr (ram s') p str"
  using keeps_source(2) cstr_cong by blast

text \<open>
  The outcome of adding the tags \<open>us\<close> to the tags \<open>ts\<close>: with room for them, the builder goes on with
  these tags more; else the call fails. \<open>room_for c e us\<close>: there is room from \<open>c\<close> up to \<open>e\<close>.
\<close>

primrec room_for :: "nat \<Rightarrow> nat \<Rightarrow> tag list \<Rightarrow> bool" where
  "room_for c e [] \<longleftrightarrow> True"
| "room_for c e (t # us) \<longleftrightarrow> c + 16 \<le> e \<and> up8 c + (8 + length (snd t)) < e
     \<and> room_for (up8 c + (8 + length (snd t))) e us"

lemma room_for_append [simp]: "room_for c e (us @ vs) \<longleftrightarrow> room_for c e us \<and> room_for (tags_end c us) e vs"
  by (induction us arbitrary: c) auto

definition builds :: "mbi2_builder \<Rightarrow> machine \<Rightarrow> tag list \<Rightarrow> tag list \<Rightarrow> (fault + mbi2_builder \<times> machine) option \<Rightarrow> bool" where
  "builds bld s ts us r \<longleftrightarrow>
     (if room_for (unat (bld_cur bld)) (unat (bld_end bld)) us
      then \<exists>bld' s'. r = Some (Inr (bld', s')) \<and> built (ram s') bld' (ts @ us) \<and> keeps bld s bld' s'
      else r = Some (Inl no_space))"

lemma append_builds: "built (ram s) bld ts \<Longrightarrow> builds bld s ts [t] (append_tag bld t s)"
proof (cases "has_room bld (8 + length (snd t))")
  case True
  assume b: "built (ram s) bld ts"
  have room: "up8 (unat (bld_cur bld)) + length (tag_bytes t) < unat (bld_end bld)"
    using True by (simp add: has_room_def)
  note f = put_frame [OF room, where s = s]
  have "quiet (s\<lparr>ram := ram (snd (put bld s (tag_bytes t)))\<rparr>) (snd (put bld s (tag_bytes t)))"
    by (simp add: put_def Let_def)
  moreover have "bld_cur bld \<le> bld_cur (fst (put bld s (tag_bytes t)))"
    unfolding word_le_nat_alt f(3) using up8_ge [of "unat (bld_cur bld)"] by simp
  ultimately have "keeps bld s (fst (put bld s (tag_bytes t))) (snd (put bld s (tag_bytes t)))"
    using f(1,2,6) unfolding keeps_def by blast
  moreover have "append_tag bld t s = Some (Inr (fst (put bld s (tag_bytes t)), snd (put bld s (tag_bytes t))))"
    using True by (simp add: append_tag_def)
  moreover have "room_for (unat (bld_cur bld)) (unat (bld_end bld)) [t]" using True by (simp add: has_room_def)
  ultimately show ?thesis
    unfolding builds_def using built_append [OF b True] by (simp only: if_True) blast
qed (auto simp: builds_def append_tag_def has_room_def)

lemma builds_then:
  assumes "built (ram s) bld ts" and "builds bld s ts us (m s)"
    and "\<And>bld' s'. built (ram s') bld' (ts @ us) \<Longrightarrow> keeps bld s bld' s' \<Longrightarrow> builds bld' s' (ts @ us) vs (k bld' s')"
  shows "builds bld s ts (us @ vs) (andthen m k s)"
proof (cases "room_for (unat (bld_cur bld)) (unat (bld_end bld)) us")
  case True
  then obtain bld' s' where r: "m s = Some (Inr (bld', s'))" "built (ram s') bld' (ts @ us)" "keeps bld s bld' s'"
    using assms(2) by (auto simp: builds_def)
  have c: "tags_end (unat (bld_cur bld)) us = unat (bld_cur bld')" "bld_end bld' = bld_end bld"
    using assms(1) r(2,3) by (simp_all add: built_def keeps_def)
  have "builds bld' s' (ts @ us) vs (k bld' s')" using assms(3) r(2,3) .
  then show ?thesis
    using True r keeps_trans [OF r(3)] by (auto simp: builds_def c andthen_def)
next
  case False
  then show ?thesis using assms(2) by (simp add: builds_def andthen_def)
qed

lemma builds_skip: "built (ram s) bld ts \<Longrightarrow> builds bld s ts [] (ret bld s)"
  by (auto simp: builds_def ret_def)

text \<open>The interface of the operations that add a tag: all a client of the builder needs.\<close>

locale adds_tag =
  fixes op :: "mbi2_builder \<Rightarrow> machine \<Rightarrow> (fault + mbi2_builder \<times> machine) option"
    and tag :: "machine \<Rightarrow> tag"
    and ready :: "mbi2_builder \<Rightarrow> machine \<Rightarrow> bool"
  assumes appends: "in_order bld \<Longrightarrow> ready bld s \<Longrightarrow> op bld s = append_tag bld (tag s) s"
begin

lemma builds_one: "built (ram s) bld ts \<Longrightarrow> ready bld s \<Longrightarrow> builds bld s ts [tag s] (op bld s)"
  using append_builds appends built_in_order by metis

lemma builds_more:
  assumes "built (ram s) bld ts" and "ready bld s"
    and "\<And>bld' s'. built (ram s') bld' (ts @ [tag s]) \<Longrightarrow> keeps bld s bld' s' \<Longrightarrow> builds bld' s' (ts @ [tag s]) vs (k bld' s')"
  shows "builds bld s ts (tag s # vs) (andthen (op bld) k s)"
  using builds_then [of s bld ts "[tag s]" "op bld" vs k] assms builds_one by simp

lemma no_space_fails:
  "built (ram s) bld ts \<Longrightarrow> ready bld s \<Longrightarrow> \<not> has_room bld (8 + length (snd (tag s))) \<Longrightarrow> op bld s = Some (Inl no_space)"
  by (simp add: appends built_in_order append_tag_def)

end

definition string_ready :: "u32 \<Rightarrow> u8 list \<Rightarrow> mbi2_builder \<Rightarrow> machine \<Rightarrow> bool" where
  "string_ready p str bld s \<longleftrightarrow> cstr (ram s) p str \<and> source bld p (Suc (length str)) \<and> length str + 24 < 2 ^ 32"

interpretation cmdline: adds_tag "\<lambda>bld. mbi2_add_boot_cmdline bld p" "\<lambda>_. (MBI2_TAG_CMDLINE, str @ [0])" "string_ready p str"
  for p str
  by unfold_locales (simp add: string_ready_def cmdline_appends)

interpretation modules: adds_tag "\<lambda>bld. mbi2_add_module bld start fin p"
    "\<lambda>_. (MBI2_TAG_MODULE, mod_image (ucast start) (ucast fin) @ str @ [0])" "string_ready p str"
  for start fin p str
  by unfold_locales (simp add: string_ready_def module_appends)

interpretation memmap: adds_tag "\<lambda>bld. mbi2_add_mbi1_memmap bld p e" "\<lambda>s. (MBI2_TAG_MEMORY, mmap_payload (ram s) ps)"
    "\<lambda>bld s. mmap_chain (ram s) e p ps \<and> (\<forall>p\<in>set ps. source bld p 24)"
  for p e ps
  by unfold_locales (simp add: memmap_appends)

interpretation rsdp: adds_tag "\<lambda>bld. mbi2_add_rsdp bld p" "\<lambda>s. rsdp_tag (ram s) p"
    "\<lambda>bld s. source bld p (unat (rsdp_length (ram s) p)) \<and> unat (rsdp_length (ram s) p) + 16 < 2 ^ 32"
  for p
  by unfold_locales (simp add: rsdp_appends)

lemma build_starts:
  assumes "unat start mod 8 = 0" and "unat start + unat len < 2 ^ 32"
  shows "if 16 \<le> unat len then \<exists>bld s'. mbi2_build (ucast start) len s = Some (Inr (bld, s')) \<and> built (ram s') bld []
      \<and> quiet (s\<lparr>ram := ram s'\<rparr>) s' \<and> bld_start bld = start \<and> bld_end bld = start + len
      \<and> (\<forall>a. unat a < unat start \<or> unat start + unat len \<le> unat a \<longrightarrow> ram s' a = ram s a)
    else mbi2_build (ucast start) len s = Some (Inl no_space)"
proof -
  let ?bld = "\<lparr>bld_start = start, bld_cur = start, bld_end = start + len\<rparr>"
  have e: "unat (start + len) = unat start + unat len" using assms(2) by (simp add: unat_add_small)
  have ord: "in_order ?bld" using e by (simp add: in_order_def word_le_nat_alt)
  have c: "ucast (ucast start :: u64) = start" by (rule bit_word_eqI) (simp add: bit_simps)
  have "start mod 8 = 0" using assms(1) by (simp add: word_unat_eq_iff unat_mod_distrib)
  then have b: "mbi2_build (ucast start) len s = mbi2_add_blob ?bld MBI2_TAG_ALIGNMENT (Local (info_image 0 0)) s"
    by (simp add: mbi2_build_def Let_def c MBI2_TAG_ALIGNMENT_def)
  note p = put_tag [OF ord, of "info_image 0 0" s]
  show ?thesis
  proof (cases "16 \<le> unat len")
    case True
    then have room: "up8 (unat (bld_cur ?bld)) + length (info_image 0 0) < unat (bld_end ?bld)"
      using assms(1) e by (simp add: up8_aligned)
    note f = put_frame [OF room, where s = s]
    have "built (ram (snd (put ?bld s (info_image 0 0)))) (fst (put ?bld s (info_image 0 0))) []"
      using f(1-3) e True assms(1) by (simp add: built_def in_order_def word_le_nat_alt up8_aligned)
    then show ?thesis
      unfolding if_P [OF True] b using p f(1,2,5,6) True e
      by (auto intro!: exI [of _ "fst (put ?bld s (info_image 0 0))"] exI [of _ "snd (put ?bld s (info_image 0 0))"])
  next
    case False
    then show ?thesis unfolding b using p e by simp
  qed
qed

section \<open>Reading the information\<close>

text \<open>What a reader sees that goes from tag to tag with the accessors until there is no next one.\<close>

primrec reads_tags :: "mem \<Rightarrow> u32 \<Rightarrow> tag list \<Rightarrow> bool" where
  "reads_tags m p [] \<longleftrightarrow> p = 0"
| "reads_tags m p (t # ts) \<longleftrightarrow> p \<noteq> 0 \<and> unat p + (8 + length (snd t)) < 2 ^ 32 \<and> tag_type m p = fst t \<and> unat (tag_size m p) = 8 + length (snd t)
     \<and> read_bytes m (mbi2_tag_payload p) (length (snd t)) = snd t \<and> reads_tags m (mbi2_tag_next m p) ts"

lemma load32_le_bytes: "read_bytes m p 4 = le_bytes 4 v \<Longrightarrow> load32 m p = v"
  by (simp add: load32_def)

lemma tag_header:
  assumes "read_bytes m p (8 + length (snd t)) = tag_bytes t" and "8 + length (snd t) < 2 ^ 32"
  shows "tag_type m p = fst t" "unat (tag_size m p) = 8 + length (snd t)"
    "read_bytes m (mbi2_tag_payload p) (length (snd t)) = snd t"
proof -
  have "read_bytes m p (4 + (4 + length (snd t))) = le_bytes 4 (fst t) @ le_bytes 4 (of_nat (8 + length (snd t)) :: u32) @ snd t"
    using assms(1) by (simp add: tag_bytes_def tag_image_def)
  then have "read_bytes m p 4 = le_bytes 4 (fst t)" "read_bytes m (p + 4) 4 = le_bytes 4 (of_nat (8 + length (snd t)) :: u32)"
    "read_bytes m (p + 4 + 4) (length (snd t)) = snd t"
    unfolding read_bytes_append by (simp_all add: append_eq_append_conv)
  then show "tag_type m p = fst t" "unat (tag_size m p) = 8 + length (snd t)"
    "read_bytes m (mbi2_tag_payload p) (length (snd t)) = snd t"
    using unat_of_nat_small [of "8 + length (snd t)", where 'a = 32] assms(2) load32_le_bytes
    by (simp_all add: add.commute [of _ p] tag_type_def tag_size_def mbi2_tag_payload_def)
qed

lemma unat_and_not_7: "unat ((x::u32) AND NOT (8 - 1)) = unat x div 8 * 8"
proof -
  have m: "(8 - 1 :: u32) = mask 3" by (simp add: mask_eq_exp_minus_1)
  have le: "take_bit 3 x \<le> x"
    unfolding word_le_nat_alt unsigned_take_bit_eq by (simp only: take_bit_eq_mod mod_less_eq_dividend)
  have "unat (take_bit 3 x) = unat x mod 8"
    unfolding unsigned_take_bit_eq by (simp add: take_bit_eq_mod)
  then show ?thesis
    unfolding m and_not_mask unat_sub [OF le] by (simp add: minus_mod_eq_div_mult)
qed

lemma tag_next_at:
  assumes "unat (tag_size m (of_nat b)) = n" and "b mod 8 = 0" and "n + 8 < 2 ^ 32"
  shows "mbi2_tag_next m (of_nat b) =
    (if tag_type m (of_nat (up8 (b + n))) = 0 then 0 else of_nat (up8 (b + n)))"
proof -
  have "unat (tag_size m (of_nat b) + (8 - 1)) = n + 7"
    using unat_add_of_nat [of "tag_size m (of_nat b)" 7] assms(1,3) by simp
  then have "unat ((tag_size m (of_nat b) + (8 - 1)) AND NOT (8 - 1)) = up8 n"
    unfolding unat_and_not_7 by (simp add: up8_def)
  from nat_to_word_back [OF this] have "(tag_size m (of_nat b) + (8 - 1)) AND NOT (8 - 1) = of_nat (up8 n)" .
  then show ?thesis
    unfolding mbi2_tag_next_def Let_def using up8_add [OF assms(2), of n] by (simp only: of_nat_add)
qed

text \<open>A list of tags that a tag of type 0 ends is read back.\<close>

lemma reads_tags_at:
  assumes "tags_at m a (ts @ [(0, [])])" and "tags_end a (ts @ [(0, [])]) < 2 ^ 32" and "0 < a"
    and "\<forall>t\<in>set ts. fst t \<noteq> 0"
  shows "reads_tags m (if ts = [] then 0 else of_nat (up8 a)) ts"
  using assms
proof (induction ts arbitrary: a)
  case (Cons t ts)
  let ?b = "up8 a" and ?n = "8 + length (snd t)"
  have e: "tags_end (?b + ?n) (ts @ [(0, [])]) < 2 ^ 32" using Cons.prems(2) by simp
  have e2: "?b + ?n + 8 \<le> tags_end (?b + ?n) (ts @ [(0, [])])"
    using tags_end_ge [of "?b + ?n" ts] up8_ge [of "tags_end (?b + ?n) ts"] by simp
  have h: "tag_type m (of_nat ?b) = fst t" "unat (tag_size m (of_nat ?b)) = ?n"
    "read_bytes m (mbi2_tag_payload (of_nat ?b)) (length (snd t)) = snd t"
    using tag_header [of m "of_nat ?b" t] Cons.prems(1) e e2 by simp_all
  have next_type: "tag_type m (of_nat (up8 (?b + ?n))) = (if ts = [] then 0 else fst (hd ts))"
  proof (cases ts)
    case Nil
    then show ?thesis using tag_header(1) [of m "of_nat (up8 (?b + ?n))" "(0, [])"] Cons.prems(1) by simp
  next
    case (Cons u us)
    have "8 + length (snd u) < 2 ^ 32"
      using e tags_end_ge [of "up8 (?b + ?n) + (8 + length (snd u))" "us @ [(0, [])]"] by (simp add: Cons)
    then show ?thesis
      using tag_header(1) [of m "of_nat (up8 (?b + ?n))" u] \<open>tags_at m a ((t # ts) @ [(0, [])])\<close> by (simp add: Cons)
  qed
  have n: "mbi2_tag_next m (of_nat ?b) = (if ts = [] then 0 else of_nat (up8 (?b + ?n)))"
  proof -
    have "?n + 8 < 2 ^ 32" using e e2 by simp
    from tag_next_at [OF h(2) up8_mod this] show ?thesis
      using next_type Cons.prems(4) by (cases ts) auto
  qed
  have "reads_tags m (if ts = [] then 0 else of_nat (up8 (?b + ?n))) ts"
    by (rule Cons.IH) (use Cons.prems e in simp_all)
  moreover have b: "unat (of_nat ?b :: u32) = ?b" by (rule unat_of_nat_small) (use e e2 in simp)
  moreover have "(of_nat ?b :: u32) \<noteq> 0" using b Cons.prems(3) up8_ge [of a] by auto
  ultimately show ?case using h n e e2 by simp
qed simp

text \<open>An information of \<open>n\<close> bytes: it reads as these tags whatever lies outside it.\<close>

definition holds_tags :: "mem \<Rightarrow> u32 \<Rightarrow> nat \<Rightarrow> tag list \<Rightarrow> bool" where
  "holds_tags m start n ts \<longleftrightarrow>
     (\<forall>m'. (\<forall>a. in_region start n a \<longrightarrow> m' a = m a) \<longrightarrow> reads_tags m' (mbi2_tag_first start) ts)"

lemma holds_tags_reads: "holds_tags m start n ts \<Longrightarrow> reads_tags m (mbi2_tag_first start) ts"
  by (simp add: holds_tags_def)

lemma holds_tags_frame: "holds_tags m start n ts \<Longrightarrow> \<forall>a. in_region start n a \<longrightarrow> m' a = m a \<Longrightarrow> holds_tags m' start n ts"
  by (simp add: holds_tags_def)

lemma finish_reads:
  assumes "built (ram s) bld ts" and "ts \<noteq> []" and "\<forall>t\<in>set ts. fst t \<noteq> 0"
  shows "if unat (bld_cur bld) + 16 \<le> unat (bld_end bld)
    then \<exists>s'. mbi2_finish bld s = Some (Inr (ucast (bld_start bld), s'))
      \<and> holds_tags (ram s') (bld_start bld) (region bld) ts
      \<and> unat (load32 (ram s') (bld_start bld)) = up8 (unat (bld_cur bld)) + 8 - unat (bld_start bld)
      \<and> (\<forall>a. \<not> in_region (bld_start bld) (region bld) a \<longrightarrow> ram s' a = ram s a) \<and> s' = s\<lparr>ram := ram s'\<rparr>
    else mbi2_finish bld s = Some (Inl no_space)"
proof (cases "unat (bld_cur bld) + 16 \<le> unat (bld_end bld)")
  case True
  let ?w = "tag_image MBI2_TAG_END 8" and ?b = "up8 (unat (bld_cur bld))" and ?st = "unat (bld_start bld)"
  have ord: "in_order bld" and st: "?st mod 8 = 0" "?st + 8 \<le> unat (bld_cur bld)"
    and cur: "unat (bld_cur bld) = tags_end (?st + 8) ts" and old: "tags_at (ram s) (?st + 8) ts"
    using assms(1) built_start by (simp_all add: built_def)
  have e: "unat (bld_end bld) < 2 ^ 32" by (rule unat32_bound)
  have room: "?b + length ?w < unat (bld_end bld)" using True up8_le [of "unat (bld_cur bld)"] by simp
  note f = put_frame [OF room, where s = s]
  define m1 where "m1 = ram (snd (put bld s ?w))"
  define total where "total = bld_cur (fst (put bld s ?w)) - bld_start bld"
  define m2 where "m2 = store32 m1 (bld_start bld) total"
  have run: "mbi2_finish bld s = Some (Inr (ucast (bld_start bld), s\<lparr>ram := m2\<rparr>))"
  proof -
    have "mbi2_finish bld s = Some (Inr (ucast (bld_start bld), (snd (put bld s ?w))\<lparr>ram := m2\<rparr>))"
      using f(1) True by (simp add: mbi2_finish_def tag_then [OF ord] m2_def m1_def total_def) (simp add: ret_def)
    also have "(snd (put bld s ?w))\<lparr>ram := m2\<rparr> = s\<lparr>ram := m2\<rparr>" by (subst f(5)) simp
    finally show ?thesis .
  qed
  have "length ?w = 8" by simp
  then have room8: "?b + 8 < 2 ^ 32" using room e by linarith
  have fs: "fits (bld_start bld) 4"
    unfolding fits_def using st(2) room8 up8_ge [of "unat (bld_cur bld)"] by linarith
  have tags: "tags_at m1 (?st + 8) (ts @ [(0, [])])"
  proof -
    have "tags_at m1 (?st + 8) ts"
      by (rule tags_at_frame [OF old]) (use f(6) cur less_imp_le [OF unat32_bound [of "bld_cur bld"]]
        in \<open>simp_all only: m1_def simp_thms\<close>)
    moreover have "tag_bytes (0, []) = ?w" by (simp add: tag_bytes_def MBI2_TAG_END_def)
    ultimately show ?thesis using f(4) by (simp add: m1_def cur [symmetric])
  qed
  have fin: "tags_end (?st + 8) (ts @ [(0, [])]) = ?b + 8" by (simp add: cur)
  have at2: "tags_at m2 (?st + 8) (ts @ [(0, [])])"
  proof (rule tags_at_frame [OF tags])
    fix x :: u32 assume "?st + 8 \<le> unat x"
    then have "\<not> in_region (bld_start bld) 4 x" using in_region_nat [OF fs] by simp
    then show "m2 x = m1 x" using fs by (simp add: m2_def store32_outside)
  qed (use fin room8 in linarith)
  have g: "fits (bld_start bld) (region bld)"
    unfolding fits_def region_def using e st(2) True by linarith
  have read: "holds_tags m2 (bld_start bld) (region bld) ts"
    unfolding holds_tags_def
  proof (intro allI impI)
    fix m' assume m': "\<forall>a. in_region (bld_start bld) (region bld) a \<longrightarrow> m' a = m2 a"
    have "tags_at m' (?st + 8) (ts @ [(0, [])])"
    proof (rule tags_at_frame [OF at2])
      fix x :: u32 assume "?st + 8 \<le> unat x" "unat x < tags_end (?st + 8) (ts @ [(0, [])])"
      then have "in_region (bld_start bld) (region bld) x"
        unfolding in_region_nat [OF g] using room fin by (simp add: region_def)
      then show "m' x = m2 x" using m' by blast
    qed (use fin room8 in linarith)
    then have "reads_tags m' (of_nat (up8 (?st + 8))) ts"
      using reads_tags_at [of m' "?st + 8" ts] fin room8 assms(2,3) by simp
    then show "reads_tags m' (mbi2_tag_first (bld_start bld)) ts"
      using st(1) by (simp add: up8_aligned mod_add_self2 mbi2_tag_first_def)
  qed
  have total: "unat (load32 m2 (bld_start bld)) = ?b + 8 - ?st"
  proof -
    have "bld_start bld \<le> bld_cur (fst (put bld s ?w))"
      unfolding word_le_nat_alt f(3) using st(2) up8_ge [of "unat (bld_cur bld)"] by simp
    then show ?thesis using f(3) by (simp add: m2_def mem_simps total_def unat_sub)
  qed
  have frame: "m2 a = ram s a" if "\<not> in_region (bld_start bld) (region bld) a" for a
  proof -
    have out: "unat a < ?st \<or> unat (bld_end bld) \<le> unat a"
      using that st(2) True in_region_nat [OF g, of a] by (auto simp: region_def)
    then have "\<not> in_region (bld_start bld) 4 a" "unat a < unat (bld_cur bld) \<or> unat (bld_end bld) \<le> unat a"
      using st(2) True in_region_nat [OF fs, of a] by auto
    then show ?thesis
      using f(6) fs by (simp add: m2_def store32_outside m1_def)
  qed
  show ?thesis unfolding if_P [OF True] using run read total frame by auto
next
  case False
  have "in_order bld" using assms(1) by (simp add: built_def)
  then show ?thesis using False by (simp add: mbi2_finish_def tag_then)
qed

text \<open>
  C13. Finishing the information: with 16 bytes left, the call returns the start of the region, the
  first word is the size of it all, and a reader that follows the accessors from the first tag on
  sees exactly the tags that were added, in order and with their payloads, and then the end.
  With less space the call fails.
\<close>

theorem mbi2_finish_readable:
  assumes "built (ram s) bld ts" and "ts \<noteq> []" and "\<forall>t\<in>set ts. fst t \<noteq> 0"
  shows "if unat (bld_cur bld) + 16 \<le> unat (bld_end bld)
    then \<exists>s'. mbi2_finish bld s = Some (Inr (ucast (bld_start bld), s'))
      \<and> reads_tags (ram s') (mbi2_tag_first (bld_start bld)) ts
      \<and> unat (load32 (ram s') (bld_start bld)) = up8 (unat (bld_cur bld)) + 8 - unat (bld_start bld)
      \<and> (\<forall>a. \<not> in_region (bld_start bld) (region bld) a \<longrightarrow> ram s' a = ram s a) \<and> s' = s\<lparr>ram := ram s'\<rparr>
    else mbi2_finish bld s = Some (Inl no_space)"
  using finish_reads [OF assms] holds_tags_reads by (auto split: if_splits)

text \<open>An empty machine with 4 KiB for an information at 0x2000.\<close>

definition blank :: machine where
  "blank = undefined\<lparr>ram := \<lambda>_. 0\<rparr>"

definition blank_builder :: mbi2_builder where
  "blank_builder = \<lparr>bld_start = 0x2000, bld_cur = 0x2008, bld_end = 0x3000\<rparr>"

lemma blank_built: "built (ram blank) blank_builder []" "ram blank = (\<lambda>_. 0)"
  "n \<le> 4096 \<Longrightarrow> source blank_builder 0x1000 n"
  "unat (bld_cur blank_builder) = 0x2008" "unat (bld_end blank_builder) = 0x3000"
  by (auto simp: blank_def blank_builder_def built_def in_order_def source_def fits_def apart_def)

definition one_tag :: machine where
  "one_tag = blank\<lparr>ram := write_bytes (\<lambda>_. 0) 0x2008 (tag_bytes (1, [0]))\<rparr>"

lemma mbi2_finish_readable_witness:
  "\<exists>s'. mbi2_finish (blank_builder\<lparr>bld_cur := 0x2011\<rparr>) one_tag = Some (Inr (0x2000, s'))
    \<and> reads_tags (ram s') 0x2008 [(1, [0])] \<and> unat (load32 (ram s') 0x2000) = 0x20"
proof -
  have "read_bytes (ram one_tag) 0x2008 9 = tag_bytes (1, [0])"
    by (simp add: one_tag_def read_write_same del: write_bytes.simps read_bytes.simps)
  then have "built (ram one_tag) (blank_builder\<lparr>bld_cur := 0x2011\<rparr>) [(1, [0])]"
    by (simp add: built_def blank_builder_def in_order_def up8_def)
  from mbi2_finish_readable [OF this] show ?thesis
    by (auto simp: blank_builder_def mbi2_tag_first_def up8_def)
qed

text \<open>
  C14. Adding a module appends one tag to those of the information: type 3, the addresses of the
  module, its command line and a NUL. The tags already there, everything outside the free part of
  the region and the rest of the machine stay as they are. Without room for the tag the call fails.
\<close>

theorem mbi2_add_module_appends:
  assumes "built (ram s) bld ts" and "cstr (ram s) p str" and "source bld p (Suc (length str))"
    and "length str + 24 < 2 ^ 32"
  shows "if room_for (unat (bld_cur bld)) (unat (bld_end bld)) [(MBI2_TAG_MODULE, mod_image (ucast start) (ucast fin) @ str @ [0])]
    then \<exists>bld' s'. mbi2_add_module bld start fin p s = Some (Inr (bld', s')) \<and> keeps bld s bld' s'
      \<and> built (ram s') bld' (ts @ [(MBI2_TAG_MODULE, mod_image (ucast start) (ucast fin) @ str @ [0])])
    else mbi2_add_module bld start fin p s = Some (Inl no_space)"
proof -
  have "string_ready p str bld s" using assms by (simp add: string_ready_def)
  from modules.builds_one [OF assms(1) this, of start fin] show ?thesis
    unfolding builds_def by (auto split: if_splits)
qed

lemma mbi2_add_module_appends_witness:
  "\<exists>bld' s'. mbi2_add_module blank_builder 0x5000 0x6000 0x1000 blank = Some (Inr (bld', s'))
    \<and> built (ram s') bld' [(MBI2_TAG_MODULE, mod_image 0x5000 0x6000 @ [0])]"
  using mbi2_add_module_appends [OF blank_built(1) _ blank_built(3), of "[]" "0x5000" "0x6000"]
  by (auto simp: blank_built up8_def)

text \<open>
  C15. Adding the Multiboot1 memory map counts and copies its entries in their order: one memory
  tag with 24 bytes for every entry: the bytes of its 64-bit base and length and of its type as they are in
  the Multiboot1 map, and four zeros. It
  needs a map that is walked to its end and lies outside the free part of the region.
\<close>

theorem mbi2_add_mbi1_memmap_appends:
  assumes "built (ram s) bld ts" and "mmap_chain (ram s) e p ps" and "\<forall>p\<in>set ps. source bld p 24"
  shows "if room_for (unat (bld_cur bld)) (unat (bld_end bld)) [(MBI2_TAG_MEMORY, mmap_payload (ram s) ps)]
    then \<exists>bld' s'. mbi2_add_mbi1_memmap bld p e s = Some (Inr (bld', s')) \<and> keeps bld s bld' s'
      \<and> built (ram s') bld' (ts @ [(MBI2_TAG_MEMORY, mmap_payload (ram s) ps)])
    else mbi2_add_mbi1_memmap bld p e s = Some (Inl no_space)"
proof -
  have "mmap_chain (ram s) e p ps \<and> (\<forall>p\<in>set ps. source bld p 24)" using assms by simp
  from memmap.builds_one [OF assms(1) this] show ?thesis
    unfolding builds_def by (auto split: if_splits)
qed

lemma sample_mbi_entry:
  "mmap_payload sample_mbi [0x1000]
    = [24, 0, 0, 0, 0, 0, 0, 0] @ [0, 0, 0x10, 0, 0, 0, 0, 0] @ [0, 0x40, 0, 0, 0, 0, 0, 0] @ [1, 0, 0, 0] @ [0, 0, 0, 0]"
proof -
  have n: "(20::nat) = Suc (Suc (Suc (Suc (Suc (Suc (Suc (Suc (Suc (Suc (Suc (Suc (Suc (Suc (Suc (Suc (Suc (Suc (Suc (Suc 0)))))))))))))))))))"
    by simp
  have "read_bytes sample_mbi (0x1000 + 4) 20 = [0, 0, 0x10, 0, 0, 0, 0, 0, 0, 0x40, 0, 0, 0, 0, 0, 0, 1, 0, 0, 0]"
    unfolding n read_bytes.simps by (simp add: sample_mbi_def)
  then show ?thesis by (simp add: mmap_payload_def raw_entry_def del: read_bytes.simps)
qed

text \<open>The map has one entry: 16 KiB available at 1M.\<close>

lemma mbi2_add_mbi1_memmap_appends_witness:
  "\<exists>bld' s'. mbi2_add_mbi1_memmap blank_builder 0x1000 0x1001 (blank\<lparr>ram := sample_mbi\<rparr>) = Some (Inr (bld', s'))
    \<and> built (ram s') bld' [(6, [24, 0, 0, 0, 0, 0, 0, 0] @ [0, 0, 0x10, 0, 0, 0, 0, 0] @ [0, 0x40, 0, 0, 0, 0, 0, 0] @ [1, 0, 0, 0] @ [0, 0, 0, 0])]"
proof -
  let ?s = "blank\<lparr>ram := sample_mbi\<rparr>"
  have b: "built (ram ?s) blank_builder []" using blank_built(1) by (simp add: built_def)
  have chain: "mmap_chain (ram ?s) 0x1001 0x1000 [0x1000]"
    by (simp add: mbi_memory_map_next_def sample_mbi_fields)
  have p: "mmap_payload (ram ?s) [0x1000] = mmap_payload sample_mbi [0x1000]" by simp
  have "room_for (unat (bld_cur blank_builder)) (unat (bld_end blank_builder)) [(MBI2_TAG_MEMORY, mmap_payload sample_mbi [0x1000])]"
    by (simp add: blank_built up8_def)
  then have "\<exists>bld' s'. mbi2_add_mbi1_memmap blank_builder 0x1000 0x1001 ?s = Some (Inr (bld', s'))
      \<and> built (ram s') bld' [(MBI2_TAG_MEMORY, mmap_payload sample_mbi [0x1000])]"
    using mbi2_add_mbi1_memmap_appends [OF b chain] blank_built(3) unfolding p by auto
  then show ?thesis unfolding sample_mbi_entry MBI2_TAG_MEMORY_def .
qed

section \<open>The entries of a memory tag\<close>

text \<open>The payload of a memory tag whose entries are the given blocks of 24 bytes.\<close>

definition blocks_payload :: "u8 list list \<Rightarrow> u8 list" where
  "blocks_payload es = memory_image 24 0 @ concat es"

lemma blocks_payload_payload: "blocks_payload (map (raw_entry m) ps) = mmap_payload m ps"
  using mmap_entry_raw [of m] by (simp add: blocks_payload_def mmap_payload_entries cong: map_cong)

lemma length_blocks_payload: "\<forall>e\<in>set es. length e = 24 \<Longrightarrow> length (blocks_payload es) = 8 + 24 * length es"
  by (induction es) (simp_all add: blocks_payload_def)

lemma memory_tag_walk:
  fixes s :: machine
  assumes "tag_type (ram s) p = MBI2_TAG_MEMORY" and "unat (tag_size (ram s) p) = 16 + 24 * length es"
    and "read_bytes (ram s) (p + 8) (8 + 24 * length es) = blocks_payload es" and "\<forall>e\<in>set es. length e = 24"
    and "i < length es" and "unat p + 16 + 24 * length es < 2 ^ 32"
  shows "mbi2_memory_map_first p s = Some (Inr (p + 16, s))"
    "mbi2_memory_map_next p (p + 16 + 24 * of_nat i) s = Some (Inr (if Suc i = length es then 0 else p + 16 + 24 * of_nat (Suc i), s))"
    "read_bytes (ram s) (p + 16 + 24 * of_nat i) 24 = es ! i"
proof -
  let ?n = "length es"
  have "read_bytes (ram s) (p + 8) (4 + (4 + 24 * ?n)) = le_bytes 4 (24::u32) @ le_bytes 4 (0::u32) @ concat es"
    using assms(3) by (simp add: blocks_payload_def memory_image_def)
  then have es: "load32 (ram s) (p + 8) = 24" and body: "read_bytes (ram s) (p + 16) (24 * ?n) = concat es"
    unfolding read_bytes_append by (simp_all add: append_eq_append_conv load32_le_bytes ac_simps)
  have part: "length (concat xs) = 24 * length xs" if "\<forall>e\<in>set xs. length e = 24" for xs :: "u8 list list"
    using that by (induction xs) simp_all
  have entry: "read_bytes (ram s) (p + 16 + of_nat (24 * i)) 24 = es ! i"
  proof -
    have "24 * ?n = 24 * i + (24 + 24 * (?n - Suc i))" using assms(5) by simp
    then have "read_bytes (ram s) (p + 16) (24 * i + (24 + 24 * (?n - Suc i))) = concat (take i es @ es ! i # drop (Suc i) es)"
      using body assms(5) by (simp add: id_take_nth_drop [symmetric])
    moreover have "length (concat (take i es)) = 24 * i"
      using part [of "take i es"] assms(4,5) by (auto dest: in_set_takeD)
    ultimately show ?thesis
      using assms(4,5) unfolding read_bytes_append by (simp add: append_eq_append_conv)
  qed
  have u: "unat (p + 16 + of_nat (24 * i) + 24) = unat p + 16 + 24 * Suc i" "unat (p + tag_size (ram s) p) = unat p + (16 + 24 * ?n)"
    using unat_add_of_nat [of p "16 + 24 * i + 24"] assms(5,6) unat_add_no_wrap [of p "tag_size (ram s) p"] assms(2)
    by (simp_all add: add.assoc)
  have less: "p + 16 + of_nat (24 * i) + 24 < p + tag_size (ram s) p \<longleftrightarrow> Suc i \<noteq> ?n"
    unfolding word_less_nat_alt u using assms(5) by auto
  show "mbi2_memory_map_first p s = Some (Inr (p + 16, s))"
    "mbi2_memory_map_next p (p + 16 + 24 * of_nat i) s = Some (Inr (if Suc i = ?n then 0 else p + 16 + 24 * of_nat (Suc i), s))"
    "read_bytes (ram s) (p + 16 + 24 * of_nat i) 24 = es ! i"
    using entry less
    by (auto simp: mbi2_memory_map_first_def mbi2_memory_map_next_def assms(1) mbi2_tag_payload_def es Let_def run_simps algebra_simps)
qed

text \<open>The first entry is not checked against the size of the tag: an empty map has one.\<close>

lemma first_entry_unchecked:
  fixes s :: machine
  shows "tag_type (ram s) p = MBI2_TAG_MEMORY \<Longrightarrow> mbi2_memory_map_first p s = Some (Inr (p + 16, s))"
  by (simp add: mbi2_memory_map_first_def mbi2_tag_payload_def Let_def run_simps)

lemma wrong_tag:
  fixes s :: machine
  assumes "tag_type (ram s) p \<noteq> MBI2_TAG_MEMORY"
  shows "mbi2_memory_map_first p s = Some (Inl (Assert_failed ''Need memory tag, but got something else''))"
    "mbi2_memory_map_next p q s = Some (Inl (Assert_failed ''Need memory tag, but got something else''))"
  using assms by (simp_all add: mbi2_memory_map_first_def mbi2_memory_map_next_def run_simps)

text \<open>
  C29. The entry accessors walk a memory tag that the builder has made: the first one gives the first
  entry, the next ones the entries that follow, the last one NULL, and at the \<open>i\<close>-th address lies the
  \<open>i\<close>-th entry. On a tag of another type they fail.
\<close>

theorem mbi2_memory_map_entries:
  fixes s :: machine
  assumes "read_bytes (ram s) p (16 + 24 * length ps) = tag_bytes (ty, mmap_payload m ps)"
    and "i < length ps" and "unat p + 16 + 24 * length ps < 2 ^ 32"
  shows "if ty = MBI2_TAG_MEMORY
    then mbi2_memory_map_first p s = Some (Inr (p + 16, s))
      \<and> mbi2_memory_map_next p (p + 16 + 24 * of_nat i) s
          = Some (Inr (if Suc i = length ps then 0 else p + 16 + 24 * of_nat (Suc i), s))
      \<and> read_bytes (ram s) (p + 16 + 24 * of_nat i) 24 = raw_entry m (ps ! i)
    else mbi2_memory_map_first p s = Some (Inl (Assert_failed ''Need memory tag, but got something else''))
      \<and> mbi2_memory_map_next p q s = Some (Inl (Assert_failed ''Need memory tag, but got something else''))"
proof -
  let ?es = "map (raw_entry m) ps"
  have h: "tag_type (ram s) p = ty" "unat (tag_size (ram s) p) = 16 + 24 * length ?es"
    "read_bytes (ram s) (p + 8) (8 + 24 * length ?es) = blocks_payload ?es"
    using tag_header [of "ram s" p "(ty, mmap_payload m ps)"] assms(1,3)
    by (simp_all add: mbi2_tag_payload_def blocks_payload_payload)
  have "\<forall>e\<in>set ?es. length e = 24" by (simp add: raw_entry_def)
  from memory_tag_walk [of s p ?es i, OF _ h(2,3) this] wrong_tag(1) [of s p] wrong_tag(2) [of s p q] assms(2,3) h(1) show ?thesis
    by (auto simp: nth_map)
qed

lemma mbi2_memory_map_entries_witness:
  "\<exists>s. mbi2_memory_map_first 0x2000 s = Some (Inr (0x2010, s)) \<and> mbi2_memory_map_next 0x2000 0x2010 s = Some (Inr (0, s))
    \<and> read_bytes (ram s) 0x2010 24 = raw_entry (\<lambda>_. 0) 0x1000"
proof -
  let ?t = "(MBI2_TAG_MEMORY, mmap_payload (\<lambda>_. 0) [0x1000])"
  have "read_bytes (ram (blank\<lparr>ram := write_bytes (\<lambda>_. 0) 0x2000 (tag_bytes ?t)\<rparr>)) 0x2000 (16 + 24 * length [0x1000]) = tag_bytes ?t"
    by (simp add: read_write_same del: write_bytes.simps read_bytes.simps)
  from mbi2_memory_map_entries [OF this, of 0] show ?thesis
    by (auto simp del: write_bytes.simps read_bytes.simps)
qed

section \<open>The size check of the builder\<close>

lemma aligned_up:
  assumes "0 < (a::nat)" and "d = c + (if c mod a = 0 then 0 else a - c mod a)"
  shows "c \<le> d" "d < c + a" "d mod a = 0"
proof -
  have m: "c mod a < a" using assms(1) by simp
  show "c \<le> d" "d < c + a" using assms m by auto
  have "c + (a - c mod a) = (c div a + 1) * a" using m div_mult_mod_eq [of c a] by (simp only: distrib_right)
  then show "d mod a = 0" using assms(2) by simp
qed

lemma add_blob_result:
  assumes "0 < align"
    and d: "d = unat (bld_cur bld) + (if unat (bld_cur bld) mod unat align = 0 then 0 else unat align - unat (bld_cur bld) mod unat align)"
  shows "mbi2_add_blob bld align (At p n) s =
    (if (unat n + unat align) mod 2 ^ 32 \<le> unat (bld_end bld - bld_cur bld)
     then Some (Inr (bld\<lparr>bld_cur := of_nat d + n\<rparr>, s\<lparr>ram := memcpy (ram s) (of_nat d) p n\<rparr>))
     else Some (Inl (Assert_failed ''Out of space when building MBI2 info'')))"
proof -
  have al: "0 < unat align" using assms(1) by (simp add: word_less_nat_alt)
  have c: "(n + align \<le> bld_end bld - bld_cur bld) = ((unat n + unat align) mod 2 ^ 32 \<le> unat (bld_end bld - bld_cur bld))"
    by (simp add: word_le_nat_alt unat_word_ariths)
  have z: "bld_cur bld mod align = 0 \<longleftrightarrow> unat (bld_cur bld) mod unat align = 0"
    by (simp only: unat_eq_0 [symmetric] unat_mod)
  have "of_nat (unat align - unat (bld_cur bld) mod unat align) = align - bld_cur bld mod align"
  proof -
    have "bld_cur bld mod align \<le> align" using al by (simp add: word_le_nat_alt unat_mod less_imp_le)
    then have "unat (align - bld_cur bld mod align) = unat align - unat (bld_cur bld) mod unat align"
      by (simp only: unat_sub unat_mod)
    then have "of_nat (unat align - unat (bld_cur bld) mod unat align) = (of_nat (unat (align - bld_cur bld mod align)) :: u32)" by simp
    then show ?thesis by (simp only: of_nat_unat ucast_id)
  qed
  then have "bld_cur bld + (if bld_cur bld mod align = 0 then 0 else align - bld_cur bld mod align) = of_nat d"
    unfolding z d by simp
  then show ?thesis
    by (simp add: mbi2_add_blob_def mbi2_available_bytes_def c Let_def run_simps)
qed

text \<open>
  C31. Adding a blob of \<open>n\<close> bytes: it fails exactly if the size and the alignment, added in 32 bits, exceed what is left between cursor and
  end. Otherwise the cursor goes on to the next multiple of the alignment and behind the \<open>n\<close> bytes, which are the source's unless the
  copy runs over the source, and nothing else is written. The bytes end before the end of the region
  if that sum does not wrap round; a blob of \<open>2^32 - 1\<close> bytes passes the check with a single byte left, and the cursor steps back.
\<close>

theorem mbi2_add_blob_checks:
  assumes "0 < align"
  shows "if (unat n + unat align) mod 2 ^ 32 \<le> unat (bld_end bld - bld_cur bld)
    then \<exists>d s'. unat (bld_cur bld) \<le> d \<and> d < unat (bld_cur bld) + unat align \<and> d mod unat align = 0
      \<and> mbi2_add_blob bld align (At p n) s = Some (Inr (bld\<lparr>bld_cur := of_nat d + n\<rparr>, s'))
      \<and> s' = s\<lparr>ram := ram s'\<rparr> \<and> (\<forall>a. \<not> in_region (of_nat d) (unat n) a \<longrightarrow> ram s' a = ram s a)
      \<and> (if unat n \<le> unat (of_nat d - p) then read_bytes (ram s') (of_nat d) (unat n) = read_bytes (ram s) p (unat n) else True)
      \<and> (if unat n + unat align < 2 ^ 32 \<and> unat (bld_cur bld) \<le> unat (bld_end bld) then d + unat n < unat (bld_end bld) else True)
    else mbi2_add_blob bld align (At p n) s = Some (Inl (Assert_failed ''Out of space when building MBI2 info''))"
proof (cases "(unat n + unat align) mod 2 ^ 32 \<le> unat (bld_end bld - bld_cur bld)")
  case True
  define d where "d = unat (bld_cur bld) + (if unat (bld_cur bld) mod unat align = 0 then 0 else unat align - unat (bld_cur bld) mod unat align)"
  define m where "m = memcpy (ram s) (of_nat d) p n"
  have al: "0 < unat align" using assms by (simp add: word_less_nat_alt)
  note a = aligned_up [OF al d_def]
  have bound: "d + unat n < unat (bld_end bld)" if "unat n + unat align < 2 ^ 32" "unat (bld_cur bld) \<le> unat (bld_end bld)"
  proof -
    have "unat n + unat align \<le> unat (bld_end bld) - unat (bld_cur bld)"
      using that True by (simp add: unat_sub word_le_nat_alt)
    then show ?thesis using a(2) that(2) by linarith
  qed
  have run: "mbi2_add_blob bld align (At p n) s = Some (Inr (bld\<lparr>bld_cur := of_nat d + n\<rparr>, s\<lparr>ram := m\<rparr>))"
    unfolding add_blob_result [OF assms d_def] if_P [OF True] m_def ..
  have frame: "m x = ram s x" if "\<not> in_region (of_nat d) (unat n) x" for x
    using that by (simp add: m_def memcpy_def rep_movsb_outside)
  have copied: "read_bytes m (of_nat d) (unat n) = read_bytes (ram s) p (unat n)" if "unat n \<le> unat (of_nat d - p)"
    using that less_imp_le [OF unat32_bound [of n]] by (simp add: m_def memcpy_eq read_write_same)
  show ?thesis
    unfolding if_P [OF True] using a run frame copied bound by (intro exI [of _ d] exI [of _ "s\<lparr>ram := m\<rparr>"]) simp
next
  case False
  then show ?thesis using add_blob_result [OF assms refl, of bld p n s] by simp
qed

lemma mbi2_add_blob_checks_witness:
  "(\<exists>s'. mbi2_add_blob \<lparr>bld_start = 0x2000, bld_cur = 0x2008, bld_end = 0x2009\<rparr> 1 (At 0x1000 0xFFFFFFFF) blank
      = Some (Inr (\<lparr>bld_start = 0x2000, bld_cur = 0x2007, bld_end = 0x2009\<rparr>, s')))
    \<and> mbi2_add_blob \<lparr>bld_start = 0x2000, bld_cur = 0x2008, bld_end = 0x2009\<rparr> 8 (At 0x1000 3) blank
      = Some (Inl (Assert_failed ''Out of space when building MBI2 info''))"
proof
  let ?bld = "\<lparr>bld_start = 0x2000, bld_cur = 0x2008, bld_end = 0x2009\<rparr>"
  obtain d s' where d: "0x2008 \<le> d" "d < 0x2008 + (1 :: nat)"
    "mbi2_add_blob ?bld 1 (At 0x1000 0xFFFFFFFF) blank
      = Some (Inr (?bld\<lparr>bld_cur := of_nat d + 0xFFFFFFFF\<rparr>, s'))"
    using mbi2_add_blob_checks [of 1 "0xFFFFFFFF" ?bld "0x1000" blank] by auto
  have "d = 0x2008" using d(1,2) by simp
  then show "\<exists>s'. mbi2_add_blob ?bld 1 (At 0x1000 0xFFFFFFFF) blank = Some (Inr (\<lparr>bld_start = 0x2000, bld_cur = 0x2007, bld_end = 0x2009\<rparr>, s'))"
    using d(3) by simp
  show "mbi2_add_blob ?bld 8 (At 0x1000 3) blank = Some (Inl (Assert_failed ''Out of space when building MBI2 info''))"
    using mbi2_add_blob_checks [of 8 3 ?bld "0x1000" blank] by simp
qed

section \<open>The header of a kernel\<close>

definition is_header :: "mem \<Rightarrow> u32 \<Rightarrow> bool" where
  "is_header m h \<longleftrightarrow> load32 m h = MBI2_HEADER_MAGIC
     \<and> load32 m h + load32 m (h + 4) + load32 m (h + 8) + load32 m (h + 12) = 0"

lemma header_check: "(header_magic m h = MBI2_HEADER_MAGIC \<and> mbi2_header_checksum m h = 0) = is_header m h"
  by (simp add: is_header_def header_magic_def mbi2_header_checksum_def)

definition header_slots :: "nat \<Rightarrow> nat \<Rightarrow> u32 list" where
  "header_slots data n = map (\<lambda>i. of_nat (data + 8 * i)) [0..<n]"

lemma header_slots_Suc: "header_slots data (Suc n) = of_nat data # header_slots (data + 8) n"
  by (simp add: header_slots_def upt_conv_Cons map_Suc_upt [symmetric] comp_def del: upt_Suc)

lemma header_loop_first:
  assumes "data + len + 16 < 2 ^ 32"
  shows "header_loop m (of_nat data) (of_nat (data + len)) =
    Some (case List.find (is_header m) (header_slots data ((len - 8) div 8)) of None \<Rightarrow> 0 | Some h \<Rightarrow> h)"
  using assms
proof (induction "(len - 8) div 8" arbitrary: data len)
  case 0
  then have len: "len < 16" by (simp add: div_eq_0_iff)
  have "unat (of_nat data + 16 :: u32) = data + 16" "unat (of_nat (data + len) :: u32) = data + len"
    using unat_of_nat_small [of "data + 16", where 'a = 32] unat_of_nat_small [of "data + len", where 'a = 32] 0 by simp_all
  then have "\<not> (of_nat data :: u32) + 16 \<le> of_nat (data + len)" using len by (simp add: word_le_nat_alt)
  then show ?case using 0(1) by (subst header_loop.simps) (simp add: header_slots_def)
next
  case (Suc n)
  have l8: "8 \<le> len - 8"
  proof (rule ccontr)
    assume "\<not> 8 \<le> len - 8"
    then have "(len - 8) div 8 = 0" by simp
    then show False using Suc.hyps(2) by simp
  qed
  then have len: "16 \<le> len" "n = (len - 8 - 8) div 8"
    using Suc.hyps(2) le_div_geq [of 8 "len - 8"] by simp_all
  have "unat (of_nat data + 16 :: u32) = data + 16" "unat (of_nat (data + len) :: u32) = data + len"
    using unat_of_nat_small [of "data + 16", where 'a = 32] unat_of_nat_small [of "data + len", where 'a = 32] Suc.prems by simp_all
  then have le: "(of_nat data :: u32) + 16 \<le> of_nat (data + len)" using len by (simp add: word_le_nat_alt)
  have IH: "header_loop m (of_nat (data + 8)) (of_nat (data + 8 + (len - 8))) =
    Some (case List.find (is_header m) (header_slots (data + 8) n) of None \<Rightarrow> 0 | Some h \<Rightarrow> h)"
    using Suc.hyps(1) [of "len - 8" "data + 8"] len Suc.prems by simp
  show ?case
    unfolding Suc.hyps(2) [symmetric] header_slots_Suc
    by (subst header_loop.simps) (use le IH len in \<open>simp add: header_check add.commute\<close>)
qed

text \<open>
  C30. The search for a Multiboot2 header ends; it returns the first address, in steps of 8 bytes from
  the start of the module, at which 16 bytes of the module are a header (the magic number, and four
  words that sum up to zero), and NULL if there is none. The whole module is searched.
\<close>

theorem mbi2_header_find_first:
  assumes "unat data + unat len + 16 < 2 ^ 32"
  shows "mbi2_header_find m data len =
    Some (case List.find (is_header m) (header_slots (unat data) ((unat len - 8) div 8)) of None \<Rightarrow> 0 | Some h \<Rightarrow> h)"
proof -
  have "of_nat (unat data) = data" "of_nat (unat data + unat len) = data + len" by simp_all
  then show ?thesis
    unfolding mbi2_header_find_def using header_loop_first [OF assms, of m] by simp
qed

lemma mbi2_header_find_first_witness:
  "mbi2_header_find (\<lambda>_. 0) 0x100000 0x2000 = Some 0"
proof -
  have "\<not> is_header (\<lambda>_. 0) h" for h by (simp add: is_header_def load32_bytes MBI2_HEADER_MAGIC_def)
  then have "List.find (is_header (\<lambda>_. 0)) xs = None" for xs by (induction xs) simp_all
  then show ?thesis
    using mbi2_header_find_first [of "0x100000" "0x2000" "\<lambda>_. 0"] by simp
qed

end
