(* ===== verification/Elf_Proof.thy ===== *)
theory Elf_Proof imports Elf Mbi2_Proof begin

text \<open>
  The generated loader: what code is put at 0x7C00, and that the processor, when it runs this code,
  copies the segments of the kernel, clears what follows them and jumps to its entry point.
\<close>

unbundle bit_operations_syntax

section \<open>The code\<close>

text \<open>A segment: target, source, and how many bytes are copied and cleared.\<close>

type_synonym segment = "u32 \<times> u32 \<times> u32 \<times> u32"

definition mov_code :: "reg \<Rightarrow> u32 \<Rightarrow> u8 list" where
  "mov_code r k = (0xB8 OR reg_num r) # le_bytes 4 k"

fun segment_code :: "segment \<Rightarrow> u8 list" where
  "segment_code (target, src, len, fill) =
     mov_code EDI target @ mov_code ESI src @ mov_code ECX len @ [0xF3, 0xA4] @ mov_code ECX fill @ [0xF3, 0xAA]"

definition loader_code :: "segment list \<Rightarrow> u32 \<Rightarrow> u32 \<Rightarrow> u8 list" where
  "loader_code segs entry magic =
     concat (map segment_code segs) @ mov_code EDX entry @ mov_code EAX magic @ [0xFF, 0xE2]"

lemma length_mov_code [simp]: "length (mov_code r k) = 5"
  by (simp add: mov_code_def)

lemma length_segment_code [simp]: "length (segment_code sg) = 24"
  by (cases sg) simp

lemma length_segments_code [simp]: "length (concat (map segment_code segs)) = 24 * length segs"
  by (induction segs) simp_all

lemma length_loader_code [simp]: "length (loader_code segs entry magic) = 24 * length segs + 12"
  by (simp add: loader_code_def)

text \<open>Memory and code pointer after \<open>w\<close> has been put out from \<open>p\<close> on.\<close>

definition emitted :: "mem \<Rightarrow> u32 \<Rightarrow> u8 list \<Rightarrow> mem \<times> u32" where
  "emitted m p w = (write_bytes m p w, p + of_nat (length w))"

lemma emitted_Nil: "emitted m p [] = (m, p)"
  by (simp add: emitted_def)

lemma byte_out_emits: "byte_out b (emitted m p w) = emitted m p (w @ [b])"
  by (simp add: byte_out_def emitted_def write_bytes_append algebra_simps)

lemma gen_mov_emits: "gen_mov r k (emitted m p w) = emitted m p (w @ mov_code r k)"
  unfolding gen_mov_def byte_out_emits Let_def
  by (simp add: emitted_def store32_def write_bytes_append mov_code_def algebra_simps)

lemma gen_jmp_emits: "gen_jmp_edx (emitted m p w) = emitted m p (w @ [0xFF, 0xE2])"
  by (simp add: gen_jmp_edx_def byte_out_emits)

lemma gen_elf_segment_emits:
  "gen_elf_segment t s l f (emitted m p w) = emitted m p (w @ segment_code (t, s, l, f))"
  by (simp add: gen_elf_segment_def Let_def byte_out_emits gen_mov_emits)

section \<open>The segments of an ELF image\<close>

fun header_size :: "elf_class \<Rightarrow> nat" where
  "header_size Elf32 = 52" | "header_size Elf64 = 64"

fun ph_size :: "elf_class \<Rightarrow> nat" where
  "ph_size Elf32 = 32" | "ph_size Elf64 = 56"

definition segment_of :: "elf_class \<Rightarrow> mem \<Rightarrow> u32 \<Rightarrow> u32 \<Rightarrow> segment" where
  "segment_of cls m elf ph = (ucast (p_paddr cls m ph), ucast (ucast elf + p_offset cls m ph),
     ucast (p_filesz cls m ph), ucast (p_memsz cls m ph - p_filesz cls m ph))"

definition segments_from :: "elf_class \<Rightarrow> mem \<Rightarrow> u32 \<Rightarrow> nat \<Rightarrow> segment list" where
  "segments_from cls m elf i = map (segment_of cls m elf)
     (filter (\<lambda>ph. p_type m ph = 1) (map (ph_at cls m elf) [i..<unat (e_phnum cls m elf)]))"

text \<open>The file header and the program headers lie outside the \<open>n\<close> bytes of code from \<open>p\<close> on.\<close>

definition headers_clear :: "elf_class \<Rightarrow> mem \<Rightarrow> u32 \<Rightarrow> u32 \<Rightarrow> nat \<Rightarrow> bool" where
  "headers_clear cls m elf p n \<longleftrightarrow> fits p n \<and> fits elf (header_size cls) \<and> apart p n elf (header_size cls)
     \<and> (\<forall>i<unat (e_phnum cls m elf). fits (ph_at cls m elf i) (ph_size cls) \<and> apart p n (ph_at cls m elf i) (ph_size cls))"

lemma load_same:
  assumes "read_bytes m' p n = read_bytes m p n"
  shows "off + 2 \<le> n \<Longrightarrow> load16 m' (p + of_nat off) = load16 m (p + of_nat off)"
    "off + 4 \<le> n \<Longrightarrow> load32 m' (p + of_nat off) = load32 m (p + of_nat off)"
    "off + 8 \<le> n \<Longrightarrow> load64 m' (p + of_nat off) = load64 m (p + of_nat off)"
proof -
  have "read_bytes m' (p + of_nat off) k = read_bytes m (p + of_nat off) k" if "off + k \<le> n" for k
  proof (rule read_bytes_cong)
    fix i assume "i < k"
    then have "read_bytes m' p n ! (off + i) = read_bytes m p n ! (off + i)" "off + i < n" using assms that by simp_all
    then show "m' (p + of_nat off + of_nat i) = m (p + of_nat off + of_nat i)"
      by (simp add: nth_read_bytes add.assoc)
  qed
  then show "off + 2 \<le> n \<Longrightarrow> load16 m' (p + of_nat off) = load16 m (p + of_nat off)"
    "off + 4 \<le> n \<Longrightarrow> load32 m' (p + of_nat off) = load32 m (p + of_nat off)"
    "off + 8 \<le> n \<Longrightarrow> load64 m' (p + of_nat off) = load64 m (p + of_nat off)"
    by (simp_all add: load16_def load32_def load64_def)
qed

lemma header_same:
  assumes "read_bytes m' elf (header_size cls) = read_bytes m elf (header_size cls)"
  shows "e_phoff cls m' elf = e_phoff cls m elf" "e_phentsize cls m' elf = e_phentsize cls m elf"
    "e_phnum cls m' elf = e_phnum cls m elf" "e_entry cls m' elf = e_entry cls m elf"
    "ph_at cls m' elf i = ph_at cls m elf i"
proof -
  note w = load_same(1) [OF assms] and d = load_same(2) [OF assms] and q = load_same(3) [OF assms]
  show "e_phoff cls m' elf = e_phoff cls m elf" "e_phentsize cls m' elf = e_phentsize cls m elf"
    "e_phnum cls m' elf = e_phnum cls m elf" "e_entry cls m' elf = e_entry cls m elf"
    using d [of 28] q [of 32] w [of 42] w [of 54] w [of 44] w [of 56] d [of 24] q [of 24]
    by (cases cls; simp)+
  then show "ph_at cls m' elf i = ph_at cls m elf i" by (simp add: ph_at_def)
qed

lemma ph_same:
  assumes "read_bytes m' ph (ph_size cls) = read_bytes m ph (ph_size cls)"
  shows "p_type m' ph = p_type m ph" "segment_of cls m' elf ph = segment_of cls m elf ph"
proof -
  note d = load_same(2) [OF assms] and q = load_same(3) [OF assms]
  show "p_type m' ph = p_type m ph"
    using d [of 0] by (cases cls) (simp_all add: p_type_def)
  show "segment_of cls m' elf ph = segment_of cls m elf ph"
    using d [of 4] q [of 8] d [of 12] q [of 24] d [of 16] q [of 32] d [of 20] q [of 40]
    by (cases cls) (simp_all add: segment_of_def)
qed

lemma emitted_same:
  assumes "headers_clear cls m elf p n" and "length w \<le> n"
  shows "read_bytes (write_bytes m p w) elf (header_size cls) = read_bytes m elf (header_size cls)"
    "i < unat (e_phnum cls m elf) \<Longrightarrow>
      read_bytes (write_bytes m p w) (ph_at cls m elf i) (ph_size cls) = read_bytes m (ph_at cls m elf i) (ph_size cls)"
proof -
  have fw: "fits p (length w)" using assms by (simp add: headers_clear_def fits_def)
  have keep: "read_bytes (write_bytes m p w) q k = read_bytes m q k" if "fits q k" "apart p n q k" for q k
    by (rule read_write_apart [OF apart_part [OF that(2)] fw that(1)]) (use assms(2) in simp_all)
  show "read_bytes (write_bytes m p w) elf (header_size cls) = read_bytes m elf (header_size cls)"
    "i < unat (e_phnum cls m elf) \<Longrightarrow>
      read_bytes (write_bytes m p w) (ph_at cls m elf i) (ph_size cls) = read_bytes m (ph_at cls m elf i) (ph_size cls)"
    using assms(1) keep by (simp_all add: headers_clear_def)
qed

lemma segments_from_step:
  assumes "i < unat (e_phnum cls m elf)"
  shows "segments_from cls m elf i =
    (if p_type m (ph_at cls m elf i) = 1 then [segment_of cls m elf (ph_at cls m elf i)] else []) @ segments_from cls m elf (Suc i)"
  using assms by (simp add: segments_from_def upt_conv_Cons)

lemma emitted_mem [simp]: "fst (emitted m p w) = write_bytes m p w"
  by (simp add: emitted_def)

lemma gen_segment_alt:
  "gen_segment cls elf ph mc = (if p_type (fst mc) ph \<noteq> 1 then mc
     else case segment_of cls (fst mc) elf ph of (t, s, l, f) \<Rightarrow> gen_elf_segment t s l f mc)"
  by (simp add: gen_segment_def Let_def segment_of_def)

lemma gen_segment_emits:
  assumes "headers_clear cls m elf p n" and "length w \<le> n" and "i < unat (e_phnum cls m elf)"
  shows "gen_segment cls elf (ph_at cls m elf i) (emitted m p w) = emitted m p (w @
    concat (map segment_code (if p_type m (ph_at cls m elf i) = 1 then [segment_of cls m elf (ph_at cls m elf i)] else [])))"
proof -
  note same = ph_same [OF emitted_same(2) [OF assms]]
  show ?thesis
    by (cases "segment_of cls m elf (ph_at cls m elf i)")
      (simp add: gen_segment_alt same gen_elf_segment_emits del: segment_code.simps)
qed

lemma gen_segments_emits:
  assumes "headers_clear cls m elf p n" and "i \<le> unat (e_phnum cls m elf)"
    and "length w + 24 * length (segments_from cls m elf i) \<le> n"
  shows "gen_segments cls elf i (emitted m p w)
    = emitted m p (w @ concat (map segment_code (segments_from cls m elf i)))"
  using assms(2,3)
proof (induction "unat (e_phnum cls m elf) - i" arbitrary: i w)
  case 0
  then have i: "i = unat (e_phnum cls m elf)" by simp
  have "e_phnum cls (write_bytes m p w) elf = e_phnum cls m elf"
    using header_same [OF emitted_same(1) [OF assms(1)]] 0 by simp
  then show ?case
    by (subst gen_segments.simps) (simp add: i segments_from_def)
next
  case (Suc k)
  then have i: "i < unat (e_phnum cls m elf)" by simp
  note step = segments_from_step [OF i]
  have w: "length w \<le> n" using Suc.prems by simp
  let ?c = "concat (map segment_code (if p_type m (ph_at cls m elf i) = 1 then [segment_of cls m elf (ph_at cls m elf i)] else []))"
  have "length ?c + 24 * length (segments_from cls m elf (Suc i)) = 24 * length (segments_from cls m elf i)"
    unfolding step by simp
  then have IH: "gen_segments cls elf (Suc i) (emitted m p (w @ ?c))
      = emitted m p ((w @ ?c) @ concat (map segment_code (segments_from cls m elf (Suc i))))"
    using Suc.prems Suc.hyps(2) i by (intro Suc.hyps(1)) simp_all
  have "e_phnum cls (write_bytes m p w) elf = e_phnum cls m elf"
    "ph_at cls (write_bytes m p w) elf i = ph_at cls m elf i"
    using header_same [OF emitted_same(1) [OF assms(1) w]] by simp_all
  then have "gen_segments cls elf i (emitted m p w) = gen_segments cls elf (Suc i) (emitted m p (w @ ?c))"
    using gen_segment_emits [OF assms(1) w i] i by (subst gen_segments.simps) simp
  then show ?case unfolding IH step by simp
qed

text \<open>The image is the same in a memory that differs only in a region clear of its headers.\<close>

lemma elf_kept:
  assumes "headers_clear cls m elf p n" and "\<forall>a. \<not> in_region p n a \<longrightarrow> m' a = m a"
  shows "read_bytes m' elf (header_size cls) = read_bytes m elf (header_size cls)"
    "segments_from cls m' elf 0 = segments_from cls m elf 0"
    "headers_clear cls m' elf q k = headers_clear cls m elf q k"
proof -
  have keep: "read_bytes m' a j = read_bytes m a j" if "fits a j" "apart p n a j" for a j
  proof (rule read_bytes_cong)
    fix i assume "i < j"
    have "fits p n" using assms(1) by (simp add: headers_clear_def)
    then have "\<not> in_region p n (a + of_nat i)"
      using in_region_offset [OF that(1) \<open>i < j\<close>] that(2) \<open>i < j\<close> in_region_nat [of p n "a + of_nat i"] by (auto simp: apart_def)
    then show "m' (a + of_nat i) = m (a + of_nat i)" using assms(2) by simp
  qed
  show hd: "read_bytes m' elf (header_size cls) = read_bytes m elf (header_size cls)"
    using assms(1) keep by (simp add: headers_clear_def)
  have ph: "read_bytes m' (ph_at cls m elf i) (ph_size cls) = read_bytes m (ph_at cls m elf i) (ph_size cls)"
    if "i < unat (e_phnum cls m elf)" for i
    using assms(1) keep that by (simp add: headers_clear_def)
  show "segments_from cls m' elf 0 = segments_from cls m elf 0"
    unfolding segments_from_def header_same [OF hd] filter_map map_map
    by (rule map_cong [OF filter_cong [OF refl]]) (use ph_same [OF ph] in \<open>auto\<close>)
  show "headers_clear cls m' elf q k = headers_clear cls m elf q k"
    unfolding headers_clear_def header_same [OF hd] ..
qed

section \<open>Generating the loader\<close>

text \<open>What \<open>generate_loader\<close> accepts.\<close>

definition loadable :: "elf_class \<Rightarrow> mem \<Rightarrow> u32 \<Rightarrow> bool" where
  "loadable cls m elf \<longleftrightarrow> read_bytes m elf 4 = [0x7F, 0x45, 0x4C, 0x46]
     \<and> m (elf + 4) = (case cls of Elf32 \<Rightarrow> 1 | Elf64 \<Rightarrow> 2)
     \<and> e_type m elf = 2 \<and> (e_machine m elf = 3 \<or> e_machine m elf = 62) \<and> e_version m elf = 1
     \<and> sizeof_ph cls \<le> e_phentsize cls m elf"

lemma loadable_kept:
  assumes "read_bytes m' elf (header_size cls) = read_bytes m elf (header_size cls)"
  shows "loadable cls m' elf = loadable cls m elf"
proof -
  have part: "read_bytes m' elf 4 = read_bytes m elf 4" "m' (elf + 4) = m (elf + 4)"
  proof -
    have n: "header_size cls = 4 + (header_size cls - 4)" "4 < header_size cls" by (cases cls; simp)+
    show "read_bytes m' elf 4 = read_bytes m elf 4"
      using assms by (subst (asm) (1 2) n(1)) (simp add: read_bytes_append append_eq_append_conv)
    have "read_bytes m' elf (header_size cls) ! 4 = read_bytes m elf (header_size cls) ! 4" using assms by simp
    then show "m' (elf + 4) = m (elf + 4)" using n(2) by (simp add: nth_read_bytes)
  qed
  have "e_type m' elf = e_type m elf" "e_machine m' elf = e_machine m elf" "e_version m' elf = e_version m elf"
    using load_same(1) [OF assms, of 16] load_same(1) [OF assms, of 18] load_same(2) [OF assms, of 20]
    by (cases cls; simp add: e_type_def e_machine_def e_version_def)+
  then show ?thesis using part header_same(2) [OF assms] by (simp only: loadable_def)
qed

lemma magic_check: "memcmp (at m elf) (lit ELFMAG) SELFMAG = 0 \<longleftrightarrow> read_bytes m elf 4 = [0x7F, 0x45, 0x4C, 0x46]"
proof -
  have "unat SELFMAG = 4" "length ELFMAG = 4" "map of_char ELFMAG = [0x7F, 0x45, 0x4C, 0x46 :: u8]"
    by (simp_all add: SELFMAG_def ELFMAG_def)
  then show ?thesis using memcmp_lit [of SELFMAG ELFMAG m elf] by (simp only: simp_thms)
qed

lemma LOADER_emits:
  assumes "loadable cls (ram s) elf" and "headers_clear cls (ram s) elf p n"
    and "24 * length (segments_from cls (ram s) elf 0) \<le> n"
  shows "LOADER cls elf p s = Some (Inr (p + of_nat (24 * length (segments_from cls (ram s) elf 0) + 5),
    s\<lparr>ram := write_bytes (ram s) p (concat (map segment_code (segments_from cls (ram s) elf 0))
      @ mov_code EDX (ucast (e_entry cls (ram s) elf)))\<rparr>))"
proof -
  let ?w = "concat (map segment_code (segments_from cls (ram s) elf 0))"
  have segs: "gen_segments cls elf 0 (ram s, p) = emitted (ram s) p ?w"
    using gen_segments_emits [OF assms(2), of 0 "[]"] assms(3) by (simp add: emitted_Nil)
  have "e_entry cls (write_bytes (ram s) p ?w) elf = e_entry cls (ram s) elf"
    using header_same [OF emitted_same(1) [OF assms(2)]] assms(3) by simp
  then show ?thesis
    using assms(1) by (simp add: LOADER_def loadable_def EM_386_def EM_X86_64_def run_simps runs_def Let_def segs gen_mov_emits)
      (simp add: emitted_def)
qed

lemma loadable_class:
  "loadable cls m elf \<Longrightarrow> m (elf + EI_CLASS) = (case cls of Elf32 \<Rightarrow> ELFCLASS32 | Elf64 \<Rightarrow> ELFCLASS64)"
  by (cases cls) (simp_all add: loadable_def EI_CLASS_def ELFCLASS32_def ELFCLASS64_def)

lemma generate_loader_emits:
  assumes "loadable cls (ram s) elf"
    and "headers_clear cls (ram s) elf 0x7C00 (24 * length (segments_from cls (ram s) elf 0) + 12)"
  shows "generate_loader elf magic s = Some (Inr (0x7C00 + of_nat (24 * length (segments_from cls (ram s) elf 0) + 12),
    s\<lparr>ram := write_bytes (ram s) 0x7C00 (loader_code (segments_from cls (ram s) elf 0) (ucast (e_entry cls (ram s) elf)) magic)\<rparr>))"
proof -
  let ?segs = "segments_from cls (ram s) elf 0"
  let ?w = "concat (map segment_code ?segs) @ mov_code EDX (ucast (e_entry cls (ram s) elf))"
  have ok: "memcmp (at (ram s) elf) (lit ELFMAG) SELFMAG = 0"
    unfolding magic_check using assms(1) by (simp add: loadable_def)
  have "ELFCLASS64 \<noteq> ELFCLASS32" by (simp add: ELFCLASS32_def ELFCLASS64_def)
  then have cls: "(if ram s (elf + EI_CLASS) = ELFCLASS32 then LOADER Elf32 elf 0x7C00
      else if ram s (elf + EI_CLASS) = ELFCLASS64 then LOADER Elf64 elf 0x7C00
      else fail (Assert_failed ''Invalid ELF class'')) = LOADER cls elf 0x7C00"
    unfolding loadable_class [OF assms(1)] by (cases cls) simp_all
  have run: "LOADER cls elf 0x7C00 s = Some (Inr (0x7C00 + of_nat (length ?w), s\<lparr>ram := write_bytes (ram s) 0x7C00 ?w\<rparr>))"
    using LOADER_emits [OF assms] by simp
  have "gen_jmp_edx (gen_mov EAX magic (write_bytes (ram s) 0x7C00 ?w, 0x7C00 + of_nat (length ?w)))
      = emitted (ram s) 0x7C00 (loader_code ?segs (ucast (e_entry cls (ram s) elf)) magic)"
    using gen_mov_emits [of EAX magic "ram s" "0x7C00" ?w]
    by (simp only: emitted_def [symmetric] gen_jmp_emits) (simp add: loader_code_def)
  then show ?thesis
    unfolding generate_loader_def by (simp add: ok cls andthen_def [of "LOADER _ _ _"] run runs_def Let_def) (simp add: emitted_def)
qed

text \<open>
  C34. The checks before a kernel is loaded: without the ELF magic number, with an unknown class, with
  a type, machine or version other than an executable for i386 or x86-64, and with program headers
  too small for their class, the call fails with the message for the first of these that applies.
\<close>

theorem generate_loader_rejects:
  "if read_bytes (ram s) elf 4 \<noteq> [0x7F, 0x45, 0x4C, 0x46]
   then generate_loader elf magic s = Some (Inl (Assert_failed ''ELF header incorrect''))
   else if ram s (elf + 4) \<notin> {1, 2} then generate_loader elf magic s = Some (Inl (Assert_failed ''Invalid ELF class''))
   else if \<not> (e_type (ram s) elf = 2 \<and> e_machine (ram s) elf \<in> {3, 62} \<and> e_version (ram s) elf = 1)
   then generate_loader elf magic s = Some (Inl (Assert_failed ''ELF type incorrect''))
   else if e_phentsize (if ram s (elf + 4) = 1 then Elf32 else Elf64) (ram s) elf
        < sizeof_ph (if ram s (elf + 4) = 1 then Elf32 else Elf64)
   then generate_loader elf magic s = Some (Inl (Assert_failed ''e_phentsize too small''))
   else \<exists>code s'. generate_loader elf magic s = Some (Inr (code, s')) \<and> s' = s\<lparr>ram := ram s'\<rparr>"
proof -
  have fails: "andthen (LOADER cls elf p) k s = Some (Inl (Assert_failed ''ELF type incorrect''))"
    if "\<not> (e_type (ram s) elf = 2 \<and> e_machine (ram s) elf \<in> {3, 62} \<and> e_version (ram s) elf = 1)"
    for cls p and k :: "u32 \<Rightarrow> (machine, u32) comp"
    using that by (auto simp: LOADER_def EM_386_def EM_X86_64_def andthen_def [of "andthen _ _"])
  show ?thesis
    unfolding generate_loader_def
    by (simp add: magic_check EI_CLASS_def ELFCLASS32_def ELFCLASS64_def)
      (auto simp: fails LOADER_def EM_386_def EM_X86_64_def andthen_def [of "andthen _ _"] runs_def Let_def not_le)
qed

section \<open>A processor that runs the code\<close>

text \<open>
  The five instructions the program generates, as the processor executes them in 32-bit mode with
  flat segments and the direction flag clear. A repeated string instruction is one step.
\<close>

record cpu =
  eip :: u32
  regs :: "reg \<Rightarrow> u32"
  cmem :: mem

definition reg_of :: "u8 \<Rightarrow> reg" where
  "reg_of op = [EAX, ECX, EDX, EBX, ESP, EBP, ESI, EDI] ! unat (op AND 7)"

definition cpu_step :: "cpu \<Rightarrow> cpu option" where
  "cpu_step c =
     (let op = cmem c (eip c); op2 = cmem c (eip c + 1)
      in if op AND 0xF8 = 0xB8
         then Some (c\<lparr>regs := (regs c)(reg_of op := load32 (cmem c) (eip c + 1)), eip := eip c + 5\<rparr>)
         else if op = 0xF3 \<and> op2 = 0xA4
         then Some (c\<lparr>cmem := rep_movsb (cmem c) (regs c EDI) (regs c ESI) (unat (regs c ECX)),
                      regs := (regs c)(EDI := regs c EDI + regs c ECX, ESI := regs c ESI + regs c ECX, ECX := 0),
                      eip := eip c + 2\<rparr>)
         else if op = 0xF3 \<and> op2 = 0xAA
         then Some (c\<lparr>cmem := rep_stosb (cmem c) (regs c EDI) (ucast (regs c EAX)) (unat (regs c ECX)),
                      regs := (regs c)(EDI := regs c EDI + regs c ECX, ECX := 0), eip := eip c + 2\<rparr>)
         else if op = 0xFF \<and> op2 = 0xE2 then Some (c\<lparr>eip := regs c EDX\<rparr>)
         else None)"

inductive cpu_run :: "cpu \<Rightarrow> cpu \<Rightarrow> bool" where
  run_refl [intro]: "cpu_run c c"
| run_step: "cpu_step c = Some c1 \<Longrightarrow> cpu_run c1 c' \<Longrightarrow> cpu_run c c'"

lemma cpu_run_trans: "cpu_run c c1 \<Longrightarrow> cpu_run c1 c2 \<Longrightarrow> cpu_run c c2"
  by (induction rule: cpu_run.induct) (auto intro: run_step)

text \<open>The bytes \<open>w\<close> are the next instructions.\<close>

definition next_code :: "cpu \<Rightarrow> u8 list \<Rightarrow> bool" where
  "next_code c w \<longleftrightarrow> read_bytes (cmem c) (eip c) (length w) = w"

lemma next_code_append:
  "next_code c (v @ w) \<Longrightarrow> next_code c v \<and> read_bytes (cmem c) (eip c + of_nat (length v)) (length w) = w"
  by (simp add: next_code_def read_bytes_append append_eq_append_conv)

lemma reg_of_code: "(0xB8 OR reg_num r) AND 0xF8 = 0xB8" "reg_of (0xB8 OR reg_num r) = r"
  by (cases r; simp add: reg_of_def)+

lemma step_mov:
  assumes "next_code c (mov_code r k)"
  shows "cpu_step c = Some (c\<lparr>regs := (regs c)(r := k), eip := eip c + 5\<rparr>)"
proof -
  have len: "length (mov_code r k) = Suc 4" by simp
  have "cmem c (eip c) # read_bytes (cmem c) (eip c + 1) 4 = (0xB8 OR reg_num r) # le_bytes 4 k"
    using assms unfolding next_code_def len by (simp only: read_bytes.simps mov_code_def)
  then have "cmem c (eip c) = 0xB8 OR reg_num r" "load32 (cmem c) (eip c + 1) = k"
    by (simp_all add: load32_le_bytes)
  then show ?thesis by (simp add: cpu_step_def Let_def reg_of_code)
qed

lemma step_movs:
  "next_code c [0xF3, 0xA4] \<Longrightarrow> cpu_step c = Some (c\<lparr>cmem := rep_movsb (cmem c) (regs c EDI) (regs c ESI) (unat (regs c ECX)),
     regs := (regs c)(EDI := regs c EDI + regs c ECX, ESI := regs c ESI + regs c ECX, ECX := 0), eip := eip c + 2\<rparr>)"
  by (simp add: next_code_def cpu_step_def Let_def)

lemma step_stos:
  "next_code c [0xF3, 0xAA] \<Longrightarrow> cpu_step c = Some (c\<lparr>cmem := rep_stosb (cmem c) (regs c EDI) (ucast (regs c EAX)) (unat (regs c ECX)),
     regs := (regs c)(EDI := regs c EDI + regs c ECX, ECX := 0), eip := eip c + 2\<rparr>)"
  by (simp add: next_code_def cpu_step_def Let_def)

lemma step_jmp: "next_code c [0xFF, 0xE2] \<Longrightarrow> cpu_step c = Some (c\<lparr>eip := regs c EDX\<rparr>)"
  by (simp add: next_code_def cpu_step_def Let_def)

section \<open>Running the loader\<close>

text \<open>Loading one segment: its bytes are copied and what follows them is cleared.\<close>

fun load_segment :: "segment \<Rightarrow> mem \<Rightarrow> mem" where
  "load_segment (target, src, len, fill) m = memset (memcpy m target src len) (target + len) 0 fill"

text \<open>A segment that leaves the \<open>n\<close> bytes of code at \<open>p\<close> alone.\<close>

fun spares :: "u32 \<Rightarrow> nat \<Rightarrow> segment \<Rightarrow> bool" where
  "spares p n (target, src, len, fill) \<longleftrightarrow> fits target (unat len + unat fill) \<and> apart target (unat len + unat fill) p n"

lemma load_segment_outside:
  assumes "fits t (unat l + unat f)" and "\<not> in_region t (unat l + unat f) a"
  shows "load_segment (t, s, l, f) m a = m a" "memcpy m t s l a = m a"
proof -
  have f1: "fits t (unat l)" using assms(1) by (simp add: fits_def)
  have "\<not> in_region t (unat l) a"
    using assms(2) in_region_nat [OF assms(1)] in_region_nat [OF f1] by auto
  then show copy: "memcpy m t s l a = m a"
    by (simp add: memcpy_def rep_movsb_outside)
  show "load_segment (t, s, l, f) m a = m a"
  proof (cases "unat f = 0")
    case True
    then show ?thesis using copy by (simp add: memset_eq)
  next
    case False
    then have u: "unat (t + l) = unat t + unat l"
      using assms(1) unat_add_small [of t l] by (simp add: fits_def)
    then have f2: "fits (t + l) (unat f)" using assms(1) by (simp add: fits_def)
    have "\<not> in_region (t + l) (unat f) a"
      using assms(2) in_region_nat [OF assms(1)] in_region_nat [OF f2] u by auto
    then show ?thesis using copy f2 by (simp add: memset_eq write_apart_outside)
  qed
qed

lemma load_segment_code:
  assumes "spares p n (t, s, l, f)" and "fits p n"
  shows "read_bytes (load_segment (t, s, l, f) m) p n = read_bytes m p n" "read_bytes (memcpy m t s l) p n = read_bytes m p n"
proof -
  have "\<not> in_region t (unat l + unat f) (p + of_nat i)" if "i < n" for i
    using assms that apart_not_in_region [of t "unat l + unat f" p n i] by simp
  then show "read_bytes (load_segment (t, s, l, f) m) p n = read_bytes m p n" "read_bytes (memcpy m t s l) p n = read_bytes m p n"
    using assms load_segment_outside by (auto intro!: read_bytes_cong simp del: load_segment.simps)
qed

lemma spares_part:
  "spares p n sg \<Longrightarrow> unat p \<le> unat q \<Longrightarrow> unat q + k \<le> unat p + n \<Longrightarrow> spares q k sg"
  by (cases sg) (auto intro: apart_part)

lemma run_segment:
  assumes code: "next_code c (segment_code (t, s, l, f))" and zero: "regs c EAX = 0"
    and sp: "spares (eip c) 24 (t, s, l, f)" and fits: "fits (eip c) 24"
  shows "\<exists>c'. cpu_run c c' \<and> eip c' = eip c + 24 \<and> regs c' EAX = 0 \<and> regs c' EBX = regs c EBX
    \<and> cmem c' = load_segment (t, s, l, f) (cmem c)"
proof -
  let ?m = "cmem c" and ?p = "eip c"
  let ?copy = "memcpy ?m t s l"
  have bytes: "read_bytes m ?p 5 = mov_code EDI t \<and> read_bytes m (?p + 5) 5 = mov_code ESI s
      \<and> read_bytes m (?p + 10) 5 = mov_code ECX l \<and> read_bytes m (?p + 15) 2 = [0xF3, 0xA4]
      \<and> read_bytes m (?p + 17) 5 = mov_code ECX f \<and> read_bytes m (?p + 22) 2 = [0xF3, 0xAA]"
    if "read_bytes m ?p 24 = segment_code (t, s, l, f)" for m
  proof -
    define movs stos :: "u8 list" where "movs = [0xF3, 0xA4]" and "stos = [0xF3, 0xAA]"
    have len: "length movs = 2" "length stos = 2" by (simp_all add: movs_def stos_def)
    have "read_bytes m ?p (5 + (5 + (5 + (2 + (5 + 2))))) = mov_code EDI t @ mov_code ESI s @ mov_code ECX l @ movs
        @ mov_code ECX f @ stos"
      using that by (simp add: movs_def stos_def)
    then show ?thesis
      unfolding read_bytes_append movs_def [symmetric] stos_def [symmetric]
      using len by (simp add: append_eq_append_conv add.assoc)
  qed
  have now: "read_bytes ?m ?p 24 = segment_code (t, s, l, f)" using code by (simp add: next_code_def)
  have later: "read_bytes ?copy ?p 24 = segment_code (t, s, l, f)"
    using load_segment_code(2) [OF sp fits] now by simp
  define c1 where "c1 = c\<lparr>regs := (regs c)(EDI := t), eip := ?p + 5\<rparr>"
  define c2 where "c2 = c1\<lparr>regs := (regs c1)(ESI := s), eip := eip c1 + 5\<rparr>"
  define c3 where "c3 = c2\<lparr>regs := (regs c2)(ECX := l), eip := eip c2 + 5\<rparr>"
  define c4 where "c4 = c3\<lparr>cmem := ?copy, regs := (regs c3)(EDI := t + l, ESI := s + l, ECX := 0), eip := eip c3 + 2\<rparr>"
  define c5 where "c5 = c4\<lparr>regs := (regs c4)(ECX := f), eip := eip c4 + 5\<rparr>"
  define c6 where "c6 = c5\<lparr>cmem := load_segment (t, s, l, f) ?m,
    regs := (regs c5)(EDI := t + l + f, ECX := 0), eip := eip c5 + 2\<rparr>"
  note defs = c1_def c2_def c3_def c4_def c5_def c6_def
  have 1: "cpu_step c = Some c1" unfolding c1_def
    by (rule step_mov) (use bytes [OF now] in \<open>simp add: next_code_def\<close>)
  have 2: "cpu_step c1 = Some c2" unfolding c2_def
    by (rule step_mov) (use bytes [OF now] in \<open>simp add: next_code_def c1_def\<close>)
  have 3: "cpu_step c2 = Some c3" unfolding c3_def
    by (rule step_mov) (use bytes [OF now] in \<open>simp add: next_code_def c1_def c2_def add.assoc\<close>)
  have "next_code c3 [0xF3, 0xA4]"
    using bytes [OF now] by (simp add: next_code_def c1_def c2_def c3_def add.assoc numeral_2_eq_2)
  then have 4: "cpu_step c3 = Some c4"
    by (simp add: step_movs c4_def) (simp add: c3_def c2_def c1_def memcpy_def)
  have 5: "cpu_step c4 = Some c5" unfolding c5_def
    by (rule step_mov) (use bytes [OF later] in \<open>simp add: next_code_def c1_def c2_def c3_def c4_def add.assoc\<close>)
  have "next_code c5 [0xF3, 0xAA]"
    using bytes [OF later] by (simp add: next_code_def c1_def c2_def c3_def c4_def c5_def add.assoc numeral_2_eq_2)
  then have 6: "cpu_step c5 = Some c6"
    by (simp add: step_stos c6_def) (simp add: c5_def c4_def c3_def c2_def c1_def zero memset_def)
  have "cpu_run c c6"
    using 1 2 3 4 5 6 by (blast intro: run_step)
  moreover have "eip c6 = ?p + 24 \<and> regs c6 EAX = 0 \<and> regs c6 EBX = regs c EBX \<and> cmem c6 = load_segment (t, s, l, f) ?m"
    by (simp add: defs zero)
  ultimately show ?thesis by blast
qed

lemma run_segments:
  assumes "read_bytes (cmem c) p n = pre @ concat (map segment_code segs) @ post" and "eip c = p + of_nat (length pre)"
    and "regs c EAX = 0" and "fits p n" and "\<forall>sg\<in>set segs. spares p n sg"
  shows "\<exists>c'. cpu_run c c' \<and> eip c' = p + of_nat (length pre + 24 * length segs) \<and> regs c' EAX = 0 \<and> regs c' EBX = regs c EBX
    \<and> cmem c' = fold load_segment segs (cmem c) \<and> read_bytes (cmem c') p n = read_bytes (cmem c) p n"
  using assms(1,2,3,5)
proof (induction segs arbitrary: c pre)
  case Nil
  then show ?case by auto
next
  case (Cons sg segs)
  obtain t s l f where sg: "sg = (t, s, l, f)" by (cases sg)
  let ?w = "concat (map segment_code segs) @ post"
  have n: "n = length pre + (24 + length ?w)" using arg_cong [OF Cons.prems(1), of length] by simp
  have "read_bytes (cmem c) p (length pre + (24 + length ?w)) = pre @ segment_code sg @ ?w"
    using Cons.prems(1) n by simp
  then have code: "read_bytes (cmem c) (p + of_nat (length pre)) 24 = segment_code sg"
    unfolding read_bytes_append by (simp add: append_eq_append_conv)
  have "length pre < n" using n by simp
  then have u: "unat (eip c) = unat p + length pre"
    unfolding Cons.prems(2) using assms(4) in_region_offset by blast
  have sp: "spares p n sg" using Cons.prems(4) by simp
  have "spares (eip c) 24 sg" by (rule spares_part [OF sp]) (use u n in simp_all)
  moreover have "fits (eip c) 24" using assms(4) u n by (simp add: fits_def)
  moreover have "next_code c (segment_code sg)" using code Cons.prems(2) by (simp add: next_code_def)
  ultimately obtain c1 where c1: "cpu_run c c1" "eip c1 = eip c + 24" "regs c1 EAX = 0" "regs c1 EBX = regs c EBX"
    "cmem c1 = load_segment sg (cmem c)"
    using run_segment [of c t s l f] Cons.prems(3) unfolding sg by blast
  have same: "read_bytes (cmem c1) p n = read_bytes (cmem c) p n"
    unfolding c1(5) sg by (rule load_segment_code(1)) (use sp assms(4) in \<open>simp_all add: sg\<close>)
  have "\<exists>c'. cpu_run c1 c' \<and> eip c' = p + of_nat (length (pre @ segment_code sg) + 24 * length segs) \<and> regs c' EAX = 0
      \<and> regs c' EBX = regs c1 EBX \<and> cmem c' = fold load_segment segs (cmem c1) \<and> read_bytes (cmem c') p n = read_bytes (cmem c1) p n"
    by (rule Cons.IH) (use Cons.prems c1 same in \<open>simp_all add: algebra_simps\<close>)
  then show ?case
    using cpu_run_trans [OF c1(1)] c1(4,5) same by (auto simp: algebra_simps)
qed

lemma run_loader:
  assumes "read_bytes (cmem c) p (length (loader_code segs entry magic)) = loader_code segs entry magic"
    and "eip c = p" and "regs c EAX = 0" and "fits p (length (loader_code segs entry magic))"
    and "\<forall>sg\<in>set segs. spares p (length (loader_code segs entry magic)) sg"
  shows "\<exists>c'. cpu_run c c' \<and> eip c' = entry \<and> regs c' EAX = magic \<and> regs c' EBX = regs c EBX
    \<and> cmem c' = fold load_segment segs (cmem c)"
proof -
  let ?code = "loader_code segs entry magic" and ?fin = "mov_code EDX entry @ mov_code EAX magic @ [0xFF, 0xE2]"
  have code: "?code = [] @ concat (map segment_code segs) @ ?fin" by (simp add: loader_code_def)
  have pre: "read_bytes (cmem c) p (length ?code) = [] @ concat (map segment_code segs) @ ?fin"
    using assms(1) code by (simp only:)
  have "eip c = p + of_nat (length ([] :: u8 list))" using assms(2) by simp
  from run_segments [OF pre this assms(3-5)] obtain c1 where c1: "cpu_run c c1"
    "eip c1 = p + of_nat (length ([] :: u8 list) + 24 * length segs)" "regs c1 EAX = 0" "regs c1 EBX = regs c EBX"
    "cmem c1 = fold load_segment segs (cmem c)" "read_bytes (cmem c1) p (length ?code) = read_bytes (cmem c) p (length ?code)"
    by blast
  have at: "read_bytes (cmem c1) (eip c1) 12 = ?fin"
  proof -
    have "read_bytes (cmem c1) p (24 * length segs + 12) = concat (map segment_code segs) @ ?fin"
      using c1(6) pre by simp
    then show ?thesis unfolding read_bytes_append c1(2) by (simp add: append_eq_append_conv)
  qed
  define jmp :: "u8 list" where "jmp = [0xFF, 0xE2]"
  have "length jmp = 2" by (simp add: jmp_def)
  then have bytes: "read_bytes (cmem c1) (eip c1) 5 = mov_code EDX entry" "read_bytes (cmem c1) (eip c1 + 5) 5 = mov_code EAX magic"
    "read_bytes (cmem c1) (eip c1 + 10) 2 = jmp"
    using at [folded jmp_def] read_bytes_append [of "cmem c1" "eip c1" 5 7] read_bytes_append [of "cmem c1" "eip c1 + 5" 5 2]
    by (simp_all add: append_eq_append_conv add.assoc)
  define c2 where "c2 = c1\<lparr>regs := (regs c1)(EDX := entry), eip := eip c1 + 5\<rparr>"
  define c3 where "c3 = c2\<lparr>regs := (regs c2)(EAX := magic), eip := eip c2 + 5\<rparr>"
  have "cpu_step c1 = Some c2" unfolding c2_def by (rule step_mov) (use bytes in \<open>simp add: next_code_def\<close>)
  moreover have "cpu_step c2 = Some c3" unfolding c3_def
    by (rule step_mov) (use bytes in \<open>simp add: next_code_def c2_def\<close>)
  moreover have "next_code c3 [0xFF, 0xE2]"
    using bytes(3) by (simp add: next_code_def c2_def c3_def jmp_def add.assoc numeral_2_eq_2)
  then have "cpu_step c3 = Some (c3\<lparr>eip := entry\<rparr>)" by (simp add: step_jmp) (simp add: c3_def c2_def)
  ultimately have "cpu_run c1 (c3\<lparr>eip := entry\<rparr>)" by (blast intro: run_step)
  then have "cpu_run c (c3\<lparr>eip := entry\<rparr>)" by (rule cpu_run_trans [OF c1(1)])
  moreover have "regs c3 EAX = magic \<and> regs c3 EBX = regs c EBX \<and> cmem c3 = fold load_segment segs (cmem c)"
    using c1(4,5) by (simp add: c3_def c2_def)
  ultimately show ?thesis by (intro exI [of _ "c3\<lparr>eip := entry\<rparr>"]) simp
qed

section \<open>Segments that do not disturb each other\<close>

fun target_apart :: "segment \<Rightarrow> u32 \<Rightarrow> nat \<Rightarrow> bool" where
  "target_apart (t, s, l, f) q n \<longleftrightarrow> apart t (unat l + unat f) q n"

fun self_apart :: "segment \<Rightarrow> bool" where
  "self_apart (t, s, l, f) \<longleftrightarrow> fits t (unat l + unat f) \<and> fits s (unat l) \<and> apart t (unat l + unat f) s (unat l)"

fun disturbs :: "segment \<Rightarrow> segment \<Rightarrow> bool" where
  "disturbs sg (t, s, l, f) \<longleftrightarrow> \<not> (target_apart sg t (unat l + unat f) \<and> target_apart sg s (unat l))"

text \<open>No segment is loaded onto its own source, onto an earlier segment or onto a later one's source.\<close>

primrec independent :: "segment list \<Rightarrow> bool" where
  "independent [] \<longleftrightarrow> True"
| "independent (sg # segs) \<longleftrightarrow> self_apart sg \<and> (\<forall>sg'\<in>set segs. \<not> disturbs sg sg') \<and> independent segs"

fun loaded :: "mem \<Rightarrow> mem \<Rightarrow> segment \<Rightarrow> bool" where
  "loaded m m' (t, s, l, f) \<longleftrightarrow> read_bytes m' t (unat l) = read_bytes m s (unat l)
     \<and> read_bytes m' (t + l) (unat f) = replicate (unat f) 0"

lemma load_one:
  assumes "self_apart sg"
  shows "loaded m (load_segment sg m) sg"
proof -
  obtain t s l f where sg: "sg = (t, s, l, f)" by (cases sg)
  have a: "fits t (unat l + unat f)" "fits s (unat l)" "apart t (unat l + unat f) s (unat l)"
    using assms by (simp_all add: sg)
  have fl: "fits t (unat l)" using a(1) by (simp add: fits_def)
  have "apart t (unat l) s (unat l)" by (rule apart_part [OF a(3)]) simp_all
  then have copy: "memcpy m t s l = write_bytes m t (read_bytes m s (unat l))"
    using a fl by (intro memcpy_apart)
  have low: "read_bytes (write_bytes m' (t + l) (replicate (unat f) 0)) t (unat l) = read_bytes m' t (unat l)" for m'
  proof (cases "unat f = 0")
    case False
    then have u: "unat (t + l) = unat t + unat l" using a(1) unat_add_small [of t l] by (simp add: fits_def)
    show ?thesis by (rule read_write_apart) (use a(1) u fl in \<open>simp_all add: apart_def fits_def\<close>)
  qed simp
  show ?thesis
    by (simp add: sg copy memset_eq low read_write_same less_imp_le [OF unat32_bound_eval])
qed

lemma fold_spares:
  "\<forall>sg\<in>set segs. spares p n sg \<Longrightarrow> fits p n \<Longrightarrow> read_bytes (fold load_segment segs m) p n = read_bytes m p n"
proof (induction segs arbitrary: m)
  case (Cons sg segs)
  obtain t s l f where sg: "sg = (t, s, l, f)" by (cases sg)
  show ?case
    using Cons load_segment_code(1) [of p n t s l f m] by (simp add: sg del: load_segment.simps)
qed simp

lemma load_all:
  "independent segs \<Longrightarrow> \<forall>sg\<in>set segs. loaded m (fold load_segment segs m) sg"
proof (induction segs arbitrary: m)
  case (Cons sg segs)
  obtain t s l f where sg: "sg = (t, s, l, f)" by (cases sg)
  let ?m = "load_segment sg m"
  have self: "self_apart sg" and others: "\<forall>sg'\<in>set segs. \<not> disturbs sg sg'" and ind: "independent segs"
    using Cons.prems by simp_all
  have IH: "\<forall>sg'\<in>set segs. loaded ?m (fold load_segment segs ?m) sg'" by (rule Cons.IH [OF ind])
  have fits: "\<forall>sg'\<in>set us. self_apart sg'" if "independent us" for us using that by (induction us) auto
  have rest: "loaded m (fold load_segment segs ?m) sg'" if "sg' \<in> set segs" for sg'
  proof -
    obtain t' s' l' f' where sg': "sg' = (t', s', l', f')" by (cases sg')
    have "fits s' (unat l')" using fits [OF ind] that sg' by auto
    moreover have "spares s' (unat l') sg" using others that self by (auto simp: sg sg')
    ultimately have "read_bytes ?m s' (unat l') = read_bytes m s' (unat l')"
      using load_segment_code(1) [of s' "unat l'" t s l f m] by (simp add: sg del: load_segment.simps)
    then show ?thesis using IH that by (auto simp: sg' simp del: load_segment.simps)
  qed
  have tgt: "fits t (unat l + unat f)" using self by (simp add: sg)
  have "\<forall>sg'\<in>set segs. spares t (unat l + unat f) sg'"
  proof
    fix sg' assume sg'': "sg' \<in> set segs"
    obtain t' s' l' f' where sg': "sg' = (t', s', l', f')" by (cases sg')
    have "apart t (unat l + unat f) t' (unat l' + unat f')" using others sg'' by (auto simp: sg sg')
    then show "spares t (unat l + unat f) sg'" using fits [OF ind] sg'' by (auto simp: sg' apart_sym [of t])
  qed
  note keep = this
  have same: "read_bytes (fold load_segment segs ?m) q k = read_bytes ?m q k"
    if "unat t \<le> unat q" "unat q + k \<le> unat t + (unat l + unat f)" for q k
  proof (rule fold_spares)
    show "\<forall>sg\<in>set segs. spares q k sg" using keep spares_part that by blast
    show "fits q k" using tgt that by (simp add: fits_def)
  qed
  have "loaded m ?m sg" by (rule load_one [OF self])
  moreover have "read_bytes (fold load_segment segs ?m) t (unat l) = read_bytes ?m t (unat l)" by (rule same) simp_all
  moreover have "read_bytes (fold load_segment segs ?m) (t + l) (unat f) = read_bytes ?m (t + l) (unat f)"
  proof (cases "unat f = 0")
    case False
    then have "unat (t + l) = unat t + unat l" using tgt unat_add_small [of t l] by (simp add: fits_def)
    then show ?thesis by (intro same) simp_all
  qed simp
  ultimately have "loaded m (fold load_segment segs ?m) sg" by (simp add: sg del: load_segment.simps)
  then show ?case using rest by simp
qed simp

text \<open>The addresses a segment is loaded to; all others keep their contents.\<close>

fun target_at :: "segment \<Rightarrow> u32 \<Rightarrow> bool" where
  "target_at (t, s, l, f) a \<longleftrightarrow> in_region t (unat l + unat f) a"

lemma fold_outside:
  "independent segs \<Longrightarrow> \<forall>sg\<in>set segs. \<not> target_at sg a \<Longrightarrow> fold load_segment segs m a = m a"
proof (induction segs arbitrary: m)
  case (Cons sg segs)
  obtain t s l f where sg: "sg = (t, s, l, f)" by (cases sg)
  have "load_segment sg m a = m a"
    unfolding sg by (rule load_segment_outside(1)) (use Cons.prems in \<open>simp_all add: sg\<close>)
  then show ?case using Cons by (simp del: load_segment.simps)
qed simp

section \<open>The loader loads the kernel\<close>

lemma loader_result:
  fixes s :: machine and cls :: elf_class and elf magic :: u32
  defines "segs \<equiv> segments_from cls (ram s) elf 0"
  assumes "loadable cls (ram s) elf" and "headers_clear cls (ram s) elf 0x7C00 (24 * length segs + 12)"
    and "\<forall>sg\<in>set segs. spares 0x7C00 (24 * length segs + 12) sg" and "independent segs"
  shows "\<exists>code s'. generate_loader elf magic s = Some (Inr (code, s'))
    \<and> (\<forall>a. \<not> in_region 0x7C00 (24 * length segs + 12) a \<longrightarrow> ram s' a = ram s a)
    \<and> (\<forall>c. cmem c = ram s' \<longrightarrow> eip c = 0x7C00 \<longrightarrow> regs c EAX = 0 \<longrightarrow>
        (\<exists>c'. cpu_run c c' \<and> eip c' = ucast (e_entry cls (ram s) elf) \<and> regs c' EAX = magic \<and> regs c' EBX = regs c EBX
          \<and> (\<forall>sg\<in>set segs. loaded (ram s') (cmem c') sg)
          \<and> (\<forall>a. (\<forall>sg\<in>set segs. \<not> target_at sg a) \<longrightarrow> cmem c' a = ram s' a)))"
proof -
  let ?code = "loader_code segs (ucast (e_entry cls (ram s) elf)) magic"
  define m where "m = write_bytes (ram s) 0x7C00 ?code"
  have len: "length ?code = 24 * length segs + 12" by simp
  have fits: "fits 0x7C00 (24 * length segs + 12)" using assms(3) by (simp add: headers_clear_def)
  have "generate_loader elf magic s = Some (Inr (0x7C00 + of_nat (24 * length segs + 12), s\<lparr>ram := m\<rparr>))"
    using generate_loader_emits [OF assms(2)] assms(3) unfolding segs_def m_def by simp
  moreover have "m a = ram s a" if "\<not> in_region 0x7C00 (24 * length segs + 12) a" for a
    unfolding m_def by (rule write_apart_outside) (use that fits len in simp_all)
  moreover have "read_bytes m 0x7C00 (length ?code) = ?code"
    unfolding m_def by (rule read_write_same) (use fits in \<open>simp_all add: fits_def\<close>)
  then have "\<exists>c'. cpu_run c c' \<and> eip c' = ucast (e_entry cls (ram s) elf) \<and> regs c' EAX = magic \<and> regs c' EBX = regs c EBX
      \<and> (\<forall>sg\<in>set segs. loaded m (cmem c') sg)
      \<and> (\<forall>a. (\<forall>sg\<in>set segs. \<not> target_at sg a) \<longrightarrow> cmem c' a = m a)" if "cmem c = m" "eip c = 0x7C00" "regs c EAX = 0" for c
    using run_loader [of c "0x7C00" segs "ucast (e_entry cls (ram s) elf)" magic] that fits assms(4) load_all [OF assms(5), of m] fold_outside [OF assms(5)]
    by (simp only: len) metis
  ultimately show ?thesis by (intro exI [of _ "s\<lparr>ram := m\<rparr>"] exI) auto
qed

text \<open>
  C6. For an executable ELF image of either class the call succeeds, and the code it leaves at 0x7C00
  loads it: a processor that starts there with EAX zero ends at the entry point of the image with the
  magic number in EAX and EBX as it was, and has then copied the file contents of every loadable segment
  to its physical address and cleared the rest of it, and changed nothing else in memory. This needs the headers and the segments to
  stay clear of the code, and the segments not to disturb each other.
\<close>

theorem generate_loader_loads:
  fixes s :: machine and cls :: elf_class and elf magic :: u32
  defines "segs \<equiv> segments_from cls (ram s) elf 0"
  assumes "loadable cls (ram s) elf" and "headers_clear cls (ram s) elf 0x7C00 (24 * length segs + 12)"
    and "\<forall>sg\<in>set segs. spares 0x7C00 (24 * length segs + 12) sg" and "independent segs"
  shows "\<exists>code s'. generate_loader elf magic s = Some (Inr (code, s'))
    \<and> (\<forall>a. \<not> in_region 0x7C00 (24 * length segs + 12) a \<longrightarrow> ram s' a = ram s a)
    \<and> (\<forall>c. cmem c = ram s' \<longrightarrow> eip c = 0x7C00 \<longrightarrow> regs c EAX = 0 \<longrightarrow>
        (\<exists>c'. cpu_run c c' \<and> eip c' = ucast (e_entry cls (ram s) elf) \<and> regs c' EAX = magic \<and> regs c' EBX = regs c EBX
          \<and> (\<forall>sg\<in>set segs. loaded (ram s') (cmem c') sg)
          \<and> (\<forall>a. (\<forall>sg\<in>set segs. \<not> target_at sg a) \<longrightarrow> cmem c' a = ram s' a)))"
  unfolding segs_def by (rule loader_result [OF assms(2-5) [unfolded segs_def]])

text \<open>An image of class 32 at 1M with one segment: 4 bytes to 2M, and 4 more to clear.\<close>

definition sample_elf :: mem where
  "sample_elf = (\<lambda>_. 0)(0x100000 := 0x7F, 0x100001 := 0x45, 0x100002 := 0x4C, 0x100003 := 0x46, 0x100004 := 1,
     0x100010 := 2, 0x100012 := 3, 0x100014 := 1, 0x10001A := 0x20, 0x10001C := 52, 0x10002A := 32, 0x10002C := 1,
     0x100034 := 1, 0x100039 := 0x10, 0x100042 := 0x20, 0x100044 := 4, 0x100048 := 8)"

lemma load16_bytes: "load16 m p = ucast (m p) OR push_bit 8 (ucast (m (p + 1)))"
  by (simp add: load16_def numeral_2_eq_2)

lemma sample_elf_fields:
  "load16 sample_elf 0x10002C = 1" "ph_at Elf32 sample_elf 0x100000 0 = 0x100034"
  "p_type sample_elf 0x100034 = 1" "segment_of Elf32 sample_elf 0x100000 0x100034 = (0x200000, 0x101000, 4, 4)"
  "load32 sample_elf 0x100018 = 0x200000"
  by (simp_all add: ph_at_def p_type_def segment_of_def load16_bytes load32_bytes sample_elf_def)

lemma sample_elf_loadable: "loadable Elf32 sample_elf 0x100000"
proof -
  have "read_bytes m p 4 = [m p, m (p + 1), m (p + 1 + 1), m (p + 1 + 1 + 1)]" for m p
    by (simp add: eval_nat_numeral)
  then show ?thesis
    by (simp add: loadable_def e_type_def e_machine_def e_version_def load16_bytes load32_bytes sample_elf_def)
qed

lemma generate_loader_loads_witness:
  "\<exists>code s' c'. generate_loader 0x100000 MBI_MAGIC (blank\<lparr>ram := sample_elf\<rparr>) = Some (Inr (code, s'))
    \<and> cpu_run \<lparr>eip = 0x7C00, regs = \<lambda>_. 0, cmem = ram s'\<rparr> c' \<and> eip c' = 0x200000 \<and> regs c' EAX = MBI_MAGIC
    \<and> loaded (ram s') (cmem c') (0x200000, 0x101000, 4, 4)"
proof -
  let ?s = "blank\<lparr>ram := sample_elf\<rparr>"
  have segs: "segments_from Elf32 sample_elf 0x100000 0 = [(0x200000, 0x101000, 4, 4)]"
    by (simp add: segments_from_def sample_elf_fields)
  have l: "loadable Elf32 (ram ?s) 0x100000" using sample_elf_loadable by simp
  have h: "headers_clear Elf32 (ram ?s) 0x100000 0x7C00 (24 * length (segments_from Elf32 (ram ?s) 0x100000 0) + 12)"
    by (simp add: segs headers_clear_def sample_elf_fields fits_def apart_def)
  have sp: "\<forall>sg\<in>set (segments_from Elf32 (ram ?s) 0x100000 0).
      spares 0x7C00 (24 * length (segments_from Elf32 (ram ?s) 0x100000 0) + 12) sg"
    by (simp add: segs fits_def apart_def)
  have ind: "independent (segments_from Elf32 (ram ?s) 0x100000 0)"
    by (simp add: segs fits_def apart_def)
  from generate_loader_loads [OF l h sp ind, of MBI_MAGIC] obtain code s' where
    "generate_loader 0x100000 MBI_MAGIC ?s = Some (Inr (code, s')) \<and> (\<forall>c. cmem c = ram s' \<longrightarrow> eip c = 0x7C00 \<longrightarrow> regs c EAX = 0 \<longrightarrow>
      (\<exists>c'. cpu_run c c' \<and> eip c' = 0x200000 \<and> regs c' EAX = MBI_MAGIC \<and> regs c' EBX = regs c EBX
        \<and> loaded (ram s') (cmem c') (0x200000, 0x101000, 4, 4)))"
    by (simp add: segs sample_elf_fields del: loaded.simps) blast
  then show ?thesis
    by (elim conjE allE [of _ "\<lparr>eip = 0x7C00, regs = \<lambda>_. 0, cmem = ram s'\<rparr>"]) (auto simp del: loaded.simps)
qed

end
