(* ===== verification/Convert_Proof.thy ===== *)
theory Convert_Proof imports Elf_Proof begin

text \<open>
  convert_mb1_to_mbi2: the Multiboot2 information built from the Multiboot1 one has exactly the tags
  that its flags, its modules and the root pointer of the machine call for, in this order.
\<close>

unbundle bit_operations_syntax

section \<open>The tags that are due\<close>

definition module_tag :: "mem \<Rightarrow> u32 \<Rightarrow> u8 list list \<Rightarrow> nat \<Rightarrow> tag" where
  "module_tag m mods names i = (MBI2_TAG_MODULE,
     mod_image (mod_start m (module_ptr mods i)) (mod_end m (module_ptr mods i)) @ names ! i @ [0])"

definition cmdline_tags :: "mem \<Rightarrow> u32 \<Rightarrow> u8 list \<Rightarrow> tag list" where
  "cmdline_tags m mbi cmdl = (if mbi_flags m mbi AND MBI_FLAG_CMDLINE \<noteq> 0 then [(MBI2_TAG_CMDLINE, cmdl @ [0])] else [])"

definition memory_tags :: "mem \<Rightarrow> u32 \<Rightarrow> u32 list \<Rightarrow> tag list" where
  "memory_tags m mbi ps = (if mbi_flags m mbi AND MBI_FLAG_MEM \<noteq> 0 then [(MBI2_TAG_MEMORY, mmap_payload m ps)] else [])"

definition module_tags :: "mem \<Rightarrow> u32 \<Rightarrow> u8 list list \<Rightarrow> tag list" where
  "module_tags m mbi names = (if mbi_flags m mbi AND MBI_FLAG_MODS \<noteq> 0
     then map (module_tag m (mbi_mods_addr m mbi) names) [0..<unat (mbi_mods_count m mbi)] else [])"

definition rsdp_tags :: "mem \<Rightarrow> u32 \<Rightarrow> tag list" where
  "rsdp_tags m rsdp = (if rsdp \<noteq> 0 then [rsdp_tag m rsdp] else [])"

definition boot_tags :: "mem \<Rightarrow> u32 \<Rightarrow> u8 list \<Rightarrow> u32 list \<Rightarrow> u8 list list \<Rightarrow> u32 \<Rightarrow> tag list" where
  "boot_tags m mbi cmdl ps names rsdp =
     cmdline_tags m mbi cmdl @ memory_tags m mbi ps @ module_tags m mbi names @ rsdp_tags m rsdp"

text \<open>
  The Multiboot1 information and all it refers to lies outside the region \<open>bld\<close> that the new one is
  built in: the structure itself, the command line \<open>cmdl\<close>, the memory map \<open>ps\<close>, the module array and
  the command lines \<open>names\<close>, the root pointer, and the memory in which it is searched.
\<close>

definition named_at :: "mbi2_builder \<Rightarrow> mem \<Rightarrow> u32 \<Rightarrow> u8 list \<Rightarrow> bool" where
  "named_at bld m p str \<longleftrightarrow> cstr m p str \<and> source bld p (Suc (length str)) \<and> length str + 24 < 2 ^ 32"

definition convertible :: "mbi2_builder \<Rightarrow> mem \<Rightarrow> u32 \<Rightarrow> u8 list \<Rightarrow> u32 list \<Rightarrow> u8 list list \<Rightarrow> u32 \<Rightarrow> bool" where
  "convertible bld m mbi cmdl ps names rsdp \<longleftrightarrow> source bld mbi 52
     \<and> (mbi_flags m mbi AND MBI_FLAG_CMDLINE \<noteq> 0 \<longrightarrow> named_at bld m (mbi_cmdline m mbi) cmdl)
     \<and> (mbi_flags m mbi AND MBI_FLAG_MEM \<noteq> 0 \<longrightarrow>
          mmap_chain m (mbi_mmap_addr m mbi + mbi_mmap_length m mbi) (mbi_mmap_addr m mbi) ps \<and> (\<forall>p\<in>set ps. source bld p 24))
     \<and> (mbi_flags m mbi AND MBI_FLAG_MODS \<noteq> 0 \<longrightarrow>
          (\<forall>i<unat (mbi_mods_count m mbi). source bld (module_ptr (mbi_mods_addr m mbi) i) 12
             \<and> named_at bld m (mod_string m (module_ptr (mbi_mods_addr m mbi) i)) (names ! i)))
     \<and> acpi_get_rsdp m = Some rsdp \<and> source bld 0x400 0x404 \<and> source bld 0xe0000 0x20004
     \<and> (rsdp \<noteq> 0 \<longrightarrow> source bld rsdp 24 \<and> source bld rsdp (unat (rsdp_length m rsdp)) \<and> unat (rsdp_length m rsdp) + 16 < 2 ^ 32)"

section \<open>What stays the same while the information is built\<close>

lemma mbi_same:
  assumes "read_bytes m' mbi 52 = read_bytes m mbi 52"
  shows "mbi_flags m' mbi = mbi_flags m mbi" "mbi_cmdline m' mbi = mbi_cmdline m mbi"
    "mbi_mods_count m' mbi = mbi_mods_count m mbi" "mbi_mods_addr m' mbi = mbi_mods_addr m mbi"
    "mbi_mmap_length m' mbi = mbi_mmap_length m mbi" "mbi_mmap_addr m' mbi = mbi_mmap_addr m mbi"
  using load32_same [OF assms, of 0] load32_same [OF assms, of 16] load32_same [OF assms, of 20]
    load32_same [OF assms, of 24] load32_same [OF assms, of 44] load32_same [OF assms, of 48]
  by (simp_all add: mbi_flags_def mbi_cmdline_def mbi_mods_count_def mbi_mods_addr_def mbi_mmap_length_def mbi_mmap_addr_def)

lemma mod_same:
  assumes "read_bytes m' p 12 = read_bytes m p 12"
  shows "mod_start m' p = mod_start m p" "mod_end m' p = mod_end m p" "mod_string m' p = mod_string m p"
  using load32_same [OF assms, of 0] load32_same [OF assms, of 4] load32_same [OF assms, of 8]
  by (simp_all add: mod_start_def mod_end_def mod_string_def)

lemma rsdp_same:
  assumes "read_bytes m' p 24 = read_bytes m p 24"
  shows "rsdp_rev m' p = rsdp_rev m p" "rsdp_length m' p = rsdp_length m p"
proof -
  have "read_bytes m' p 24 ! 15 = read_bytes m p 24 ! 15" using assms by simp
  then show rev: "rsdp_rev m' p = rsdp_rev m p" by (simp add: nth_read_bytes rsdp_rev_def)
  show "rsdp_length m' p = rsdp_length m p"
    using load32_same [OF assms, of 20] rev by (simp add: rsdp_length_def rsdp_size_def)
qed

lemma read_part:
  assumes "read_bytes m' p n = read_bytes m p n" and "off + k \<le> n"
  shows "read_bytes m' (p + of_nat off) k = read_bytes m (p + of_nat off) k"
proof (rule read_bytes_cong)
  fix i assume "i < k"
  then have "read_bytes m' p n ! (off + i) = read_bytes m p n ! (off + i)" "off + i < n" using assms by simp_all
  then show "m' (p + of_nat off + of_nat i) = m (p + of_nat off + of_nat i)" by (simp add: nth_read_bytes add.assoc)
qed

lemma find_cong: "(\<And>x. x \<in> set xs \<Longrightarrow> P x = Q x) \<Longrightarrow> List.find P xs = List.find Q xs"
  by (induction xs) auto

lemma rsdp_found_same:
  assumes "read_bytes m' 0x400 0x404 = read_bytes m 0x400 0x404"
    and "read_bytes m' 0xe0000 0x20004 = read_bytes m 0xe0000 0x20004"
  shows "acpi_get_rsdp m' = acpi_get_rsdp m"
proof -
  have same: "is_rsdp m' (q + of_nat (16 * i)) = is_rsdp m (q + of_nat (16 * i))"
    if "read_bytes m' q n = read_bytes m q n" "16 * i + 20 \<le> n" for q i n
    using read_part [OF that(1), of "16 * i" 8] read_part [OF that(1), of "16 * i" 20] that(2) by (simp add: is_rsdp_def)
  have low: "is_rsdp m' x = is_rsdp m x" if "x \<in> set (paragraphs 0x400 64)" for x
    using that same [OF assms(1)] by (auto simp: paragraphs_def)
  have high: "is_rsdp m' x = is_rsdp m x" if "x \<in> set (paragraphs 0xe0000 8192)" for x
    using that same [OF assms(2)] by (auto simp: paragraphs_def)
  show ?thesis
    unfolding acpi_get_rsdp_find
    by (rule arg_cong [where f = "\<lambda>x. Some (case x of None \<Rightarrow> 0 | Some p \<Rightarrow> p)"], rule find_cong) (use low high in auto)
qed

section \<open>The steps\<close>

lemma builds_quiet:
  assumes "quiet s s1" and "builds bld s1 ts us r"
  shows "builds bld s ts us r"
proof (cases "room_for (unat (bld_cur bld)) (unat (bld_end bld)) us")
  case True
  then obtain bld' s' where "r = Some (Inr (bld', s'))" "built (ram s') bld' (ts @ us)" "keeps bld s1 bld' s'"
    using assms(2) unfolding builds_def by (simp only: if_True) blast
  moreover have "keeps bld s bld' s'" using keeps_trans [OF keeps_quiet [OF assms(1)]] calculation(3) by blast
  ultimately show ?thesis unfolding builds_def using True by (simp only: if_True) blast
next
  case False
  then show ?thesis using assms(2) by (simp add: builds_def)
qed

lemma built_quiet: "quiet s s1 \<Longrightarrow> built (ram s1) bld ts = built (ram s) bld ts"
  by (simp add: quiet_ram)

lemma named_kept:
  assumes k: "keeps bld0 s0 bld s" "in_order bld" and nm: "named_at bld0 (ram s0) p str"
  shows "string_ready p str bld s"
proof -
  have n: "cstr (ram s0) p str" "source bld0 p (Suc (length str))" "length str + 24 < 2 ^ 32"
    using nm unfolding named_at_def by simp_all
  show ?thesis
    unfolding string_ready_def
    by (intro conjI keeps_string [OF k n(2,1)] keeps_source(1) [OF k n(2)] n(3))
qed

lemma chain_same:
  "mmap_chain m e p ps \<Longrightarrow> \<forall>p\<in>set ps. read_bytes m' p 24 = read_bytes m p 24 \<Longrightarrow> mmap_chain m' e p ps"
proof (induction rule: mmap_chain.induct)
  case (chain_step p ps)
  then show ?case using mmap_entry_same(2) [of m' p m e] by simp
qed simp

lemma payload_same:
  "\<forall>p\<in>set ps. read_bytes m' p 24 = read_bytes m p 24 \<Longrightarrow> mmap_payload m' ps = mmap_payload m ps"
proof -
  assume a: "\<forall>p\<in>set ps. read_bytes m' p 24 = read_bytes m p 24"
  have "map (mmap_entry_image m') ps = map (mmap_entry_image m) ps"
    by (rule map_cong [OF refl], rule mmap_entry_same(1)) (rule a [rule_format])
  then show ?thesis unfolding mmap_payload_entries by (rule arg_cong)
qed

text \<open>The optional steps, at any later state of the construction.\<close>

lemma cmdline_step:
  assumes c: "convertible bld0 (ram s0) mbi cmdl ps names rsdp" and k: "keeps bld0 s0 bld s" and b: "built (ram s) bld ts"
  shows "builds bld s ts (cmdline_tags (ram s0) mbi cmdl)
    (if mbi_flags (ram s) mbi AND MBI_FLAG_CMDLINE \<noteq> 0 then mbi2_add_boot_cmdline bld (mbi_cmdline (ram s) mbi) s else ret bld s)"
proof -
  note ord = built_in_order [OF b]
  have "source bld0 mbi 52" using c by (simp add: convertible_def)
  note f = mbi_same [OF keeps_source(2) [OF k ord this]]
  show ?thesis
  proof (cases "mbi_flags (ram s0) mbi AND MBI_FLAG_CMDLINE = 0")
    case True
    then show ?thesis using builds_skip [OF b] by (simp add: f cmdline_tags_def)
  next
    case False
    then have "named_at bld0 (ram s0) (mbi_cmdline (ram s0) mbi) cmdl" using c by (simp add: convertible_def)
    from named_kept [OF k ord this] show ?thesis
      using cmdline.builds_one [OF b] False by (simp add: f cmdline_tags_def)
  qed
qed

lemma memory_step:
  assumes c: "convertible bld0 (ram s0) mbi cmdl ps names rsdp" and k: "keeps bld0 s0 bld s" and b: "built (ram s) bld ts"
  shows "builds bld s ts (memory_tags (ram s0) mbi ps)
    (if mbi_flags (ram s) mbi AND MBI_FLAG_MEM \<noteq> 0
     then mbi2_add_mbi1_memmap bld (mbi_mmap_addr (ram s) mbi) (mbi_mmap_addr (ram s) mbi + mbi_mmap_length (ram s) mbi) s
     else ret bld s)"
proof -
  note ord = built_in_order [OF b]
  have "source bld0 mbi 52" using c by (simp add: convertible_def)
  note f = mbi_same [OF keeps_source(2) [OF k ord this]]
  show ?thesis
  proof (cases "mbi_flags (ram s0) mbi AND MBI_FLAG_MEM = 0")
    case True
    then show ?thesis using builds_skip [OF b] by (simp add: f memory_tags_def)
  next
    case False
    let ?a = "mbi_mmap_addr (ram s0) mbi" and ?e = "mbi_mmap_addr (ram s0) mbi + mbi_mmap_length (ram s0) mbi"
    have ch: "mmap_chain (ram s0) ?e ?a ps" "\<forall>p\<in>set ps. source bld0 p 24" using c False by (simp_all add: convertible_def)
    then have same: "\<forall>p\<in>set ps. read_bytes (ram s) p 24 = read_bytes (ram s0) p 24" and src: "\<forall>p\<in>set ps. source bld p 24"
      using keeps_source [OF k ord] by blast+
    have "mmap_chain (ram s) ?e ?a ps \<and> (\<forall>p\<in>set ps. source bld p 24)" using chain_same [OF ch(1) same] src by blast
    from memmap.builds_one [OF b this] show ?thesis
      using False by (simp add: f memory_tags_def payload_same [OF same])
  qed
qed

lemma add_modules_unfold:
  "add_modules mbi i bld s =
    (if i < mbi_mods_count (ram s) mbi then andthen (add_module_at mbi i bld) (add_modules mbi (i + 1)) s else ret bld s)"
  by (subst add_modules.simps) (simp add: andthen_def ret_def)

lemma module_step:
  assumes c: "convertible bld0 (ram s0) mbi cmdl ps names rsdp" and k: "keeps bld0 s0 bld s" and b: "built (ram s) bld ts"
    and flag: "mbi_flags (ram s0) mbi AND MBI_FLAG_MODS \<noteq> 0" and i: "i < unat (mbi_mods_count (ram s0) mbi)"
  shows "builds bld s ts [module_tag (ram s0) (mbi_mods_addr (ram s0) mbi) names i] (add_module_at mbi (of_nat i) bld s)"
proof -
  let ?p = "module_ptr (mbi_mods_addr (ram s0) mbi) i"
  let ?str = "mod_string (ram s0) ?p"
  note ord = built_in_order [OF b]
  have src: "source bld0 mbi 52" "source bld0 ?p 12" and nm: "named_at bld0 (ram s0) ?str (names ! i)"
    using c flag i by (simp_all add: convertible_def)
  note f = mbi_same [OF keeps_source(2) [OF k ord src(1)]] mod_same [OF keeps_source(2) [OF k ord src(2)]]
  have ready: "string_ready ?str (names ! i) bld s" by (rule named_kept [OF k ord nm])
  define ap where "ap = [Va_word (of_nat i :: u32), Va_word ?str]"
  define strs where "strs p = (if p = ?str then Some (names ! i) else None)" for p :: u32
  have "strings_in strs (ram s)" using ready by (simp add: strings_in_def strs_def string_ready_def)
  moreover have "expand strs (directives ''Adding module %u: %s\<newline>'') ap \<noteq> None"
    by (simp add: ap_def strs_def is_conv_def va_uint_def)
  ultimately obtain s1 where s1: "quiet s s1"
    "\<And>k. andthen (printf ''Adding module %u: %s\<newline>'' ap) k s = (k () s1 :: (fault + mbi2_builder \<times> machine) option)"
    using printf_then by blast
  have "add_module_at mbi (of_nat i) bld s = mbi2_add_module bld (ucast (mod_start (ram s0) ?p)) (ucast (mod_end (ram s0) ?p)) ?str s1"
    using s1 f by (simp add: add_module_at_def ap_def module_ptr_def quiet_ram)
  moreover have "string_ready ?str (names ! i) bld s1" using ready s1(1) by (simp add: string_ready_def quiet_ram)
  moreover have "built (ram s1) bld ts" using b s1(1) by (simp add: quiet_ram)
  moreover have "ucast (ucast x :: u64) = x" for x :: u32 by (rule bit_word_eqI) (simp add: bit_simps)
  ultimately show ?thesis
    using builds_quiet [OF s1(1) modules.builds_one [of s1 bld ts ?str "names ! i" "ucast (mod_start (ram s0) ?p)"
        "ucast (mod_end (ram s0) ?p)"]]
    by (simp add: module_tag_def)
qed

lemma modules_step:
  assumes c: "convertible bld0 (ram s0) mbi cmdl ps names rsdp" and flag: "mbi_flags (ram s0) mbi AND MBI_FLAG_MODS \<noteq> 0"
  shows "keeps bld0 s0 bld s \<Longrightarrow> built (ram s) bld ts \<Longrightarrow> i \<le> unat (mbi_mods_count (ram s0) mbi) \<Longrightarrow>
    builds bld s ts (map (module_tag (ram s0) (mbi_mods_addr (ram s0) mbi) names) [i..<unat (mbi_mods_count (ram s0) mbi)])
      (add_modules mbi (of_nat i) bld s)"
proof (induction "unat (mbi_mods_count (ram s0) mbi) - i" arbitrary: i bld s ts)
  case (0 i)
  have "source bld0 mbi 52" using c by (simp add: convertible_def)
  note f = mbi_same [OF keeps_source(2) [OF 0(2) built_in_order [OF 0(3)] this]]
  have i: "i = unat (mbi_mods_count (ram s0) mbi)" using 0 by simp
  have "add_modules mbi (of_nat i) bld s = ret bld s" unfolding i by (subst add_modules_unfold) (simp add: f)
  then show ?case using builds_skip [OF 0(3)] i by simp
next
  case (Suc d i)
  let ?n = "unat (mbi_mods_count (ram s0) mbi)" and ?t = "module_tag (ram s0) (mbi_mods_addr (ram s0) mbi) names"
  have "source bld0 mbi 52" using c by (simp add: convertible_def)
  note f = mbi_same [OF keeps_source(2) [OF Suc.prems(1) built_in_order [OF Suc.prems(2)] this]]
  have i: "i < ?n" using Suc.hyps(2) by simp
  then have "unat (of_nat i :: u32) = i" using less_trans [OF _ unat32_bound [of "mbi_mods_count (ram s0) mbi"]] by (intro unat_of_nat_small) (simp del: unat32_bound_eval)
  then have "of_nat i < mbi_mods_count (ram s) mbi" using i f by (simp add: word_less_nat_alt)
  then have run: "add_modules mbi (of_nat i) bld s = andthen (add_module_at mbi (of_nat i) bld) (add_modules mbi (of_nat (Suc i))) s"
    by (subst add_modules_unfold) (simp add: add.commute)
  have "builds bld s ts ([?t i] @ map ?t [Suc i..<?n]) (andthen (add_module_at mbi (of_nat i) bld) (add_modules mbi (of_nat (Suc i))) s)"
    using module_step [OF c Suc.prems(1,2) flag i]
  proof (rule builds_then [OF Suc.prems(2)])
    fix bld' s'
    assume b: "built (ram s') bld' (ts @ [?t i])" and k: "keeps bld s bld' s'"
    show "builds bld' s' (ts @ [?t i]) (map ?t [Suc i..<?n]) (add_modules mbi (of_nat (Suc i)) bld' s')"
      by (rule Suc.hyps(1) [OF _ keeps_trans [OF Suc.prems(1) k] b]) (use Suc.hyps(2) i in simp_all)
  qed
  then show ?case unfolding run using i by (simp add: upt_conv_Cons del: upt_Suc)
qed

lemma all_modules_step:
  assumes c: "convertible bld0 (ram s0) mbi cmdl ps names rsdp" and k: "keeps bld0 s0 bld s" and b: "built (ram s) bld ts"
  shows "builds bld s ts (module_tags (ram s0) mbi names)
    (if mbi_flags (ram s) mbi AND MBI_FLAG_MODS \<noteq> 0 then add_modules mbi 0 bld s else ret bld s)"
proof -
  have "source bld0 mbi 52" using c by (simp add: convertible_def)
  note f = mbi_same [OF keeps_source(2) [OF k built_in_order [OF b] this]]
  show ?thesis
    using modules_step [OF c _ k b, of 0] builds_skip [OF b] by (simp add: f module_tags_def)
qed

definition rsdp_op :: "u32 \<Rightarrow> mbi2_builder \<Rightarrow> (machine, mbi2_builder) comp" where
  "rsdp_op rsdp bld = (if rsdp \<noteq> 0
     then andthen (gets (\<lambda>s. [Va_word rsdp, Va_word (ucast (rsdp_rev (ram s) rsdp)), Va_word (rsdp_rsdt (ram s) rsdp)])) (\<lambda>ap.
          andthen (printf ''Adding RSDP info: %p (%d) -> %lx\<newline>'' ap) (\<lambda>_.
          mbi2_add_rsdp bld rsdp))
     else ret bld)"

lemma rsdp_step:
  assumes c: "convertible bld0 (ram s0) mbi cmdl ps names rsdp" and k: "keeps bld0 s0 bld s" and b: "built (ram s) bld ts"
  shows "builds bld s ts (rsdp_tags (ram s0) rsdp) (rsdp_op rsdp bld s)"
proof (cases "rsdp = 0")
  case True
  then show ?thesis using builds_skip [OF b] by (simp add: rsdp_op_def rsdp_tags_def)
next
  case False
  note ord = built_in_order [OF b]
  have src: "source bld0 rsdp 24" "source bld0 rsdp (unat (rsdp_length (ram s0) rsdp))" "unat (rsdp_length (ram s0) rsdp) + 16 < 2 ^ 32"
    using c False by (simp_all add: convertible_def)
  note f = rsdp_same [OF keeps_source(2) [OF k ord src(1)]]
  have t: "rsdp_tag (ram s) rsdp = rsdp_tag (ram s0) rsdp"
    using keeps_source(2) [OF k ord src(2)] by (simp add: rsdp_tag_def f)
  define ap where "ap = [Va_word rsdp, Va_word (ucast (rsdp_rev (ram s) rsdp)), Va_word (rsdp_rsdt (ram s) rsdp)]"
  have "strings_in (\<lambda>_. None) (ram s)" by (simp add: strings_in_def)
  moreover have "expand (\<lambda>_. None) (directives ''Adding RSDP info: %p (%d) -> %lx\<newline>'') ap \<noteq> None"
    by (simp add: ap_def is_conv_def va_uint_def)
  ultimately obtain s1 where s1: "quiet s s1"
    "\<And>k. andthen (printf ''Adding RSDP info: %p (%d) -> %lx\<newline>'' ap) k s = (k () s1 :: (fault + mbi2_builder \<times> machine) option)"
    using printf_then by blast
  have run: "rsdp_op rsdp bld s = mbi2_add_rsdp bld rsdp s1"
    using s1(2) False by (simp add: rsdp_op_def ap_def)
  have r: "ram s1 = ram s" using s1(1) by (simp add: quiet_ram)
  have ready: "source bld rsdp (unat (rsdp_length (ram s1) rsdp)) \<and> unat (rsdp_length (ram s1) rsdp) + 16 < 2 ^ 32"
    using keeps_source(1) [OF k ord src(2)] src(3) by (simp add: r f)
  have "built (ram s1) bld ts" using b by (simp add: r)
  from builds_quiet [OF s1(1) rsdp.builds_one [OF this ready]] show ?thesis
    using False by (simp add: run r t rsdp_tags_def)
qed

section \<open>The whole conversion\<close>

lemma reads_then: "andthen (reads (\<lambda>s. acpi_get_rsdp (ram s))) k s
  = (case acpi_get_rsdp (ram s) of Some p \<Rightarrow> k p s | None \<Rightarrow> None)"
  by (simp add: andthen_def reads_def split: option.splits)

lemma root_step:
  assumes c: "convertible bld0 (ram s0) mbi cmdl ps names rsdp" and k: "keeps bld0 s0 bld s" and b: "built (ram s) bld ts"
  shows "builds bld s ts (rsdp_tags (ram s0) rsdp)
    (andthen (reads (\<lambda>s. acpi_get_rsdp (ram s))) (\<lambda>rsdp. rsdp_op rsdp bld) s)"
proof -
  note same = keeps_source(2) [OF k built_in_order [OF b]]
  have src: "acpi_get_rsdp (ram s0) = Some rsdp" "source bld0 0x400 0x404" "source bld0 0xe0000 0x20004"
    using c by (simp_all only: convertible_def)
  have "acpi_get_rsdp (ram s) = Some rsdp"
    unfolding rsdp_found_same [OF same [OF src(2)] same [OF src(3)]] by (rule src(1))
  then show ?thesis using rsdp_step [OF assms] by (simp add: reads_then)
qed

text \<open>All the tags, from the empty information that the construction starts with.\<close>

definition tags_op :: "u32 \<Rightarrow> mbi2_builder \<Rightarrow> (machine, mbi2_builder) comp" where
  "tags_op mbi bld =
     andthen (\<lambda>s. if mbi_flags (ram s) mbi AND MBI_FLAG_CMDLINE \<noteq> 0
                  then mbi2_add_boot_cmdline bld (mbi_cmdline (ram s) mbi) s else ret bld s) (\<lambda>bld.
     andthen (\<lambda>s. if mbi_flags (ram s) mbi AND MBI_FLAG_MEM \<noteq> 0
                  then mbi2_add_mbi1_memmap bld (mbi_mmap_addr (ram s) mbi)
                         (mbi_mmap_addr (ram s) mbi + mbi_mmap_length (ram s) mbi) s
                  else ret bld s) (\<lambda>bld.
     andthen (\<lambda>s. if mbi_flags (ram s) mbi AND MBI_FLAG_MODS \<noteq> 0 then add_modules mbi 0 bld s else ret bld s) (\<lambda>bld.
     andthen (reads (\<lambda>s. acpi_get_rsdp (ram s))) (\<lambda>rsdp. rsdp_op rsdp bld))))"

lemma tags_step:
  assumes c: "convertible bld0 (ram s0) mbi cmdl ps names rsdp" and k: "keeps bld0 s0 bld s" and b: "built (ram s) bld ts"
  shows "builds bld s ts (boot_tags (ram s0) mbi cmdl ps names rsdp) (tags_op mbi bld s)"
proof -
  define adds where "adds us op \<longleftrightarrow>
    (\<forall>bld s ts. keeps bld0 s0 bld s \<longrightarrow> built (ram s) bld ts \<longrightarrow> builds bld s ts us (op bld s))"
    for us and op :: "mbi2_builder \<Rightarrow> (machine, mbi2_builder) comp"
  have seq: "adds (us @ vs) (\<lambda>bld. andthen (op bld) rest)" if "adds us op" "adds vs rest" for us vs op rest
    unfolding adds_def
  proof (intro allI impI)
    fix bld s ts assume k: "keeps bld0 s0 bld s" and b: "built (ram s) bld ts"
    then have "builds bld s ts us (op bld s)" using that(1) by (simp add: adds_def)
    then show "builds bld s ts (us @ vs) (andthen (op bld) rest s)"
    proof (rule builds_then [OF b])
      fix bld' s' assume "built (ram s') bld' (ts @ us)" "keeps bld s bld' s'"
      then show "builds bld' s' (ts @ us) vs (rest bld' s')"
        using that(2) keeps_trans [OF k] by (simp add: adds_def)
    qed
  qed
  have "adds (boot_tags (ram s0) mbi cmdl ps names rsdp) (tags_op mbi)"
    unfolding boot_tags_def tags_op_def
    by (intro seq; unfold adds_def; intro allI impI; rule cmdline_step [OF c] memory_step [OF c] all_modules_step [OF c] root_step [OF c])
  then show ?thesis using k b by (simp add: adds_def)
qed

lemma convert_split:
  "convert_mb1_to_mbi2 mbi phys_addr len =
     andthen (mbi2_build phys_addr len) (\<lambda>bld. andthen (tags_op mbi bld) (\<lambda>bld. andthen (mbi2_finish bld) (\<lambda>info. ret (ucast info))))"
  by (simp only: convert_mb1_to_mbi2_def tags_op_def rsdp_op_def andthen_assoc)

lemma boot_tags_typed: "t \<in> set (boot_tags m mbi cmdl ps names rsdp) \<Longrightarrow> fst t \<noteq> 0"
  by (auto simp: boot_tags_def cmdline_tags_def memory_tags_def module_tags_def rsdp_tags_def module_tag_def rsdp_tag_def
      MBI2_TAG_CMDLINE_def MBI2_TAG_MEMORY_def MBI2_TAG_MODULE_def MBI2_TAG_RSDP_V1_def MBI2_TAG_RSDP_V2_def split: if_splits)

abbreviation builder_at :: "u32 \<Rightarrow> u32 \<Rightarrow> mbi2_builder" where
  "builder_at start len \<equiv> \<lparr>bld_start = start, bld_cur = start, bld_end = start + len\<rparr>"

lemma convert_result:
  assumes "unat start mod 8 = 0" and "unat start + unat len < 2 ^ 32"
    and "convertible (builder_at start len) (ram s) mbi cmdl ps names rsdp"
    and "boot_tags (ram s) mbi cmdl ps names rsdp = ts" and "ts \<noteq> []"
  shows "if room_for (unat start + 8) (unat start + unat len) ts \<and> tags_end (unat start + 8) ts + 16 \<le> unat start + unat len
    then \<exists>s'. convert_mb1_to_mbi2 mbi (ucast start) len s = Some (Inr (start, s'))
      \<and> holds_tags (ram s') start (unat len) ts
      \<and> (\<forall>a. \<not> in_region start (unat len) a \<longrightarrow> ram s' a = ram s a) \<and> quiet (s\<lparr>ram := ram s'\<rparr>) s'
    else convert_mb1_to_mbi2 mbi (ucast start) len s = Some (Inl no_space)"
proof (cases "16 \<le> unat len")
  case False
  obtain t us where "ts = t # us" using assms(5) by (cases ts) simp_all
  then have "\<not> room_for (unat start + 8) (unat start + unat len) ts" using False by simp
  moreover have "mbi2_build (ucast start) len s = Some (Inl no_space)" using build_starts [OF assms(1,2)] False by simp
  ultimately show ?thesis by (simp add: convert_split andthen_Inl)
next
  case True
  let ?c = "unat start + 8" and ?e = "unat start + unat len"
  obtain bld1 s1 where b1: "mbi2_build (ucast start) len s = Some (Inr (bld1, s1))" "built (ram s1) bld1 []"
    "quiet (s\<lparr>ram := ram s1\<rparr>) s1" "bld_start bld1 = start" "bld_end bld1 = start + len"
    "\<forall>a. unat a < unat start \<or> ?e \<le> unat a \<longrightarrow> ram s1 a = ram s a"
    using build_starts [OF assms(1,2), of s] unfolding if_P [OF True] by (elim exE conjE)
  have e: "unat (start + len) = ?e" using assms(2) by (simp add: unat_add_small)
  have cur: "unat (bld_cur bld1) = ?c" using b1(2,4) by (simp add: built_def)
  have k: "keeps (builder_at start len) s bld1 s1"
    using b1(3-6) cur by (simp add: keeps_def word_le_nat_alt e)
  have "builds bld1 s1 [] ts (tags_op mbi bld1 s1)"
    using tags_step [OF assms(3) k b1(2)] assms(4) by simp
  then have all: "if room_for ?c ?e ts
    then \<exists>bld2 s2. tags_op mbi bld1 s1 = Some (Inr (bld2, s2)) \<and> built (ram s2) bld2 ts \<and> keeps bld1 s1 bld2 s2
    else tags_op mbi bld1 s1 = Some (Inl no_space)"
    by (simp only: builds_def cur b1(5) e append_Nil)
  show ?thesis
  proof (cases "room_for ?c ?e ts")
    case False
    then show ?thesis using all b1(1) by (simp add: convert_split andthen_Inl andthen_Inr)
  next
    case room: True
    obtain bld2 s2 where b2: "tags_op mbi bld1 s1 = Some (Inr (bld2, s2))" "built (ram s2) bld2 ts" "keeps bld1 s1 bld2 s2"
      using all unfolding if_P [OF room] by (elim exE conjE)
    note k2 = keeps_trans [OF k b2(3)]
    have g: "bld_start bld2 = start" "unat (bld_end bld2) = ?e" "unat (bld_cur bld2) = tags_end ?c ts" "region bld2 = unat len"
      using k2 b2(2) e by (simp_all add: keeps_def built_def region_def)
    have run: "convert_mb1_to_mbi2 mbi (ucast start) len s = andthen (mbi2_finish bld2) (\<lambda>info. ret (ucast info)) s2"
      using b1(1) b2(1) by (simp add: convert_split andthen_Inr)
    have "\<forall>t\<in>set ts. fst t \<noteq> 0" using boot_tags_typed assms(4) by blast
    note fin = finish_reads [OF b2(2) assms(5) this, unfolded g]
    show ?thesis
    proof (cases "tags_end ?c ts + 16 \<le> ?e")
      case False
      then show ?thesis using fin by (simp add: run andthen_Inl)
    next
      case True
      then obtain s3 where f: "mbi2_finish bld2 s2 = Some (Inr (ucast start, s3))" "holds_tags (ram s3) start (unat len) ts"
        "\<forall>a. \<not> in_region start (unat len) a \<longrightarrow> ram s3 a = ram s2 a" "s3 = s2\<lparr>ram := ram s3\<rparr>"
        using fin by (simp only: if_True) (elim exE conjE)
      have "ucast (ucast start :: u64) = start" by (rule bit_word_eqI) (simp add: bit_simps)
      then have "convert_mb1_to_mbi2 mbi (ucast start) len s = Some (Inr (start, s3))"
        by (simp add: run andthen_def f(1) ret_def)
      moreover have "quiet (s\<lparr>ram := ram s3\<rparr>) s3"
        using k2 by (subst f(4)) (simp add: keeps_def quiet_def)
      moreover have "ram s3 a = ram s a" if "\<not> in_region start (unat len) a" for a
      proof -
        have "fits start (unat len)" using assms(2) by (simp add: fits_def)
        from in_region_nat [OF this, of a] that have "unat a < unat start \<or> ?e \<le> unat a" by auto
        then have "ram s2 a = ram s a" using k2 e by (auto simp: keeps_def)
        then show ?thesis using f(3) that by simp
      qed
      ultimately show ?thesis using f(2) room True by simp
    qed
  qed
qed

text \<open>
  C7. The conversion of the boot information: the region given gets an information whose tags,
  read with the accessors, are exactly those that the flags of the Multiboot1 information, its modules
  and the root pointer call for, in this order and with the payloads the old information had when the
  call began; memory outside the region stays as it is. If they do not fit, the call fails.
\<close>

theorem convert_mb1_to_mbi2_tags:
  assumes "unat start mod 8 = 0" and "unat start + unat len < 2 ^ 32"
    and "convertible (builder_at start len) (ram s) mbi cmdl ps names rsdp"
    and "boot_tags (ram s) mbi cmdl ps names rsdp = ts" and "ts \<noteq> []"
  shows "if room_for (unat start + 8) (unat start + unat len) ts \<and> tags_end (unat start + 8) ts + 16 \<le> unat start + unat len
    then \<exists>s'. convert_mb1_to_mbi2 mbi (ucast start) len s = Some (Inr (start, s'))
      \<and> reads_tags (ram s') (mbi2_tag_first start) ts
      \<and> (\<forall>a. \<not> in_region start (unat len) a \<longrightarrow> ram s' a = ram s a) \<and> quiet (s\<lparr>ram := ram s'\<rparr>) s'
    else convert_mb1_to_mbi2 mbi (ucast start) len s = Some (Inl no_space)"
  using convert_result [OF assms] holds_tags_reads by (auto split: if_splits)

definition cmdline_only :: machine where
  "cmdline_only = blank\<lparr>ram := (\<lambda>_. 0)(0x1000 := 4)\<rparr>"

lemma cmdline_only_converts:
  "convertible (builder_at 0x2000 0x1000) (ram cmdline_only) 0x1000 [] [] [] 0"
  "boot_tags (ram cmdline_only) 0x1000 [] [] [] 0 = [(1, [0])]"
proof -
  let ?m = "(\<lambda>_. 0 :: u8)(0x1000 := 4)"
  have m: "ram cmdline_only = ?m" by (simp add: cmdline_only_def)
  have "\<not> is_rsdp ?m p" for p
  proof
    assume "is_rsdp ?m p"
    then have "read_bytes ?m p 8 ! 0 = 82" by (simp add: is_rsdp_def)
    moreover have "read_bytes ?m p 8 ! 0 = ?m p" by (simp add: nth_read_bytes)
    ultimately show False by (simp split: if_splits)
  qed
  then have "List.find (is_rsdp ?m) xs = None" for xs by (induction xs) simp_all
  then have none: "acpi_get_rsdp ?m = Some 0" unfolding acpi_get_rsdp_find by simp
  have f: "mbi_flags ?m 0x1000 = 4" "mbi_cmdline ?m 0x1000 = 0"
    by (simp_all add: mbi_flags_def mbi_cmdline_def load32_bytes)
  have flags: "mbi_flags ?m 0x1000 AND MBI_FLAG_CMDLINE \<noteq> 0" "mbi_flags ?m 0x1000 AND MBI_FLAG_MEM = 0" "mbi_flags ?m 0x1000 AND MBI_FLAG_MODS = 0"
    by (simp_all add: f MBI_FLAG_CMDLINE_def MBI_FLAG_MEM_def MBI_FLAG_MODS_def)
  have "named_at (builder_at 0x2000 0x1000) ?m 0 []"
    by (simp add: named_at_def source_def fits_def apart_def)
  then show "convertible (builder_at 0x2000 0x1000) (ram cmdline_only) 0x1000 [] [] [] 0"
    unfolding m convertible_def by (simp add: f none MBI_FLAG_CMDLINE_def MBI_FLAG_MEM_def MBI_FLAG_MODS_def source_def fits_def apart_def)
  show "boot_tags (ram cmdline_only) 0x1000 [] [] [] 0 = [(1, [0])]"
    unfolding m by (simp add: boot_tags_def cmdline_tags_def memory_tags_def module_tags_def rsdp_tags_def flags MBI2_TAG_CMDLINE_def)
qed

lemma convert_mb1_to_mbi2_tags_witness:
  "\<exists>s'. convert_mb1_to_mbi2 0x1000 0x2000 0x1000 cmdline_only = Some (Inr (0x2000, s'))
    \<and> reads_tags (ram s') 0x2008 [(1, [0])]"
  using convert_mb1_to_mbi2_tags [OF _ _ cmdline_only_converts] by (auto simp: up8_def mbi2_tag_first_def)

end
