(* ===== verification/Start_Proof.thy ===== *)
theory Start_Proof imports Convert_Proof begin

text \<open>
  start_module: the modules are relocated, the first one becomes the kernel, and the processor enters
  it as a Multiboot1 or a Multiboot2 kernel.
\<close>

unbundle bit_operations_syntax

section \<open>Kernels\<close>

definition code_size :: "elf_class \<Rightarrow> mem \<Rightarrow> u32 \<Rightarrow> nat" where
  "code_size cls m elf = 24 * length (segments_from cls m elf 0) + 12"

text \<open>An executable image the generated code can load.\<close>

definition bootable :: "elf_class \<Rightarrow> mem \<Rightarrow> u32 \<Rightarrow> bool" where
  "bootable cls m elf \<longleftrightarrow> loadable cls m elf \<and> headers_clear cls m elf 0x7C00 (code_size cls m elf)
     \<and> (\<forall>sg\<in>set (segments_from cls m elf 0). spares 0x7C00 (code_size cls m elf) sg) \<and> independent (segments_from cls m elf 0)"

text \<open>The code at 0x7C00 in \<open>m'\<close> loads the image, changes nothing else in memory, and enters it with these values in EAX and EBX.\<close>

definition enters :: "elf_class \<Rightarrow> mem \<Rightarrow> u32 \<Rightarrow> u32 \<Rightarrow> u32 \<Rightarrow> mem \<Rightarrow> bool" where
  "enters cls m elf magic info m' \<longleftrightarrow>
     (\<forall>c. cmem c = m' \<and> eip c = 0x7C00 \<and> regs c EAX = 0 \<and> regs c EBX = info \<longrightarrow>
        (\<exists>c'. cpu_run c c' \<and> eip c' = ucast (e_entry cls m elf) \<and> regs c' EAX = magic \<and> regs c' EBX = info
          \<and> (\<forall>sg\<in>set (segments_from cls m elf 0). loaded m' (cmem c') sg)
          \<and> (\<forall>a. (\<forall>sg\<in>set (segments_from cls m elf 0). \<not> target_at sg a) \<longrightarrow> cmem c' a = m' a)))"

lemma bootable_enters:
  assumes "bootable cls (ram s) elf"
  shows "\<exists>code s'. generate_loader elf magic s = Some (Inr (code, s'))
    \<and> (\<forall>a. \<not> in_region 0x7C00 (code_size cls (ram s) elf) a \<longrightarrow> ram s' a = ram s a)
    \<and> enters cls (ram s) elf magic info (ram s')"
proof -
  have b: "loadable cls (ram s) elf" "headers_clear cls (ram s) elf 0x7C00 (24 * length (segments_from cls (ram s) elf 0) + 12)"
    "\<forall>sg\<in>set (segments_from cls (ram s) elf 0). spares 0x7C00 (24 * length (segments_from cls (ram s) elf 0) + 12) sg"
    "independent (segments_from cls (ram s) elf 0)"
    using assms by (simp_all add: bootable_def code_size_def)
  obtain code s' where r: "generate_loader elf magic s = Some (Inr (code, s'))"
    "\<forall>a. \<not> in_region 0x7C00 (24 * length (segments_from cls (ram s) elf 0) + 12) a \<longrightarrow> ram s' a = ram s a"
    "\<forall>c. cmem c = ram s' \<longrightarrow> eip c = 0x7C00 \<longrightarrow> regs c EAX = 0 \<longrightarrow>
        (\<exists>c'. cpu_run c c' \<and> eip c' = ucast (e_entry cls (ram s) elf) \<and> regs c' EAX = magic \<and> regs c' EBX = regs c EBX
          \<and> (\<forall>sg\<in>set (segments_from cls (ram s) elf 0). loaded (ram s') (cmem c') sg)
          \<and> (\<forall>a. (\<forall>sg\<in>set (segments_from cls (ram s) elf 0). \<not> target_at sg a) \<longrightarrow> cmem c' a = ram s' a))"
    using loader_result [OF b, of magic] by (elim exE conjE)
  have "enters cls (ram s) elf magic info (ram s')"
    unfolding enters_def
  proof (intro allI impI)
    fix c :: cpu assume c: "cmem c = ram s' \<and> eip c = 0x7C00 \<and> regs c EAX = 0 \<and> regs c EBX = info"
    show "\<exists>c'. cpu_run c c' \<and> eip c' = ucast (e_entry cls (ram s) elf) \<and> regs c' EAX = magic \<and> regs c' EBX = info
          \<and> (\<forall>sg\<in>set (segments_from cls (ram s) elf 0). loaded (ram s') (cmem c') sg)
          \<and> (\<forall>a. (\<forall>sg\<in>set (segments_from cls (ram s) elf 0). \<not> target_at sg a) \<longrightarrow> cmem c' a = ram s' a)"
      using r(3) [rule_format, of c] c by (simp only: simp_thms)
  qed
  then show ?thesis using r(1,2) unfolding code_size_def by (intro exI conjI)
qed

text \<open>
  So what the kernel is told is still there when it is entered: bytes that no segment is loaded to are at its entry as they were at
  the jump to the generated code.
\<close>

lemma enters_keeps:
  assumes "enters cls m elf magic info m'" and "cmem c = m'" and "eip c = 0x7C00" and "regs c EAX = 0" and "regs c EBX = info"
    and "\<forall>sg\<in>set (segments_from cls m elf 0). \<forall>a. in_region q n a \<longrightarrow> \<not> target_at sg a" and "n \<le> 2 ^ 32"
  shows "\<exists>c'. cpu_run c c' \<and> eip c' = ucast (e_entry cls m elf) \<and> regs c' EAX = magic \<and> regs c' EBX = info
    \<and> read_bytes (cmem c') q n = read_bytes m' q n"
proof -
  obtain c' where c': "cpu_run c c'" "eip c' = ucast (e_entry cls m elf)" "regs c' EAX = magic" "regs c' EBX = info"
    "\<forall>a. (\<forall>sg\<in>set (segments_from cls m elf 0). \<not> target_at sg a) \<longrightarrow> cmem c' a = m' a"
    using assms(1) [unfolded enters_def, rule_format, of c] assms(2-5) by blast
  have "in_region q n (q + of_nat i)" if "i < n" for i
    using that assms(7) unat_of_nat_small [of i, where 'a = 32] by (simp add: in_region_def)
  then have "read_bytes (cmem c') q n = read_bytes m' q n"
    by (intro read_bytes_cong) (use c'(5) assms(6) in blast)
  then show ?thesis using c'(1-4) by blast
qed

lemma bootable_kept:
  assumes "headers_clear cls m elf p n" and "\<forall>a. \<not> in_region p n a \<longrightarrow> m' a = m a"
  shows "bootable cls m' elf = bootable cls m elf" "code_size cls m' elf = code_size cls m elf"
    "enters cls m' elf magic info m2 = enters cls m elf magic info m2"
proof -
  note same = elf_kept [OF assms] and hd = header_same [OF elf_kept(1) [OF assms]]
  show c: "code_size cls m' elf = code_size cls m elf" by (simp add: code_size_def same(2))
  show "bootable cls m' elf = bootable cls m elf"
    unfolding bootable_def c same(2,3) loadable_kept [OF same(1)] ..
  show "enters cls m' elf magic info m2 = enters cls m elf magic info m2"
    unfolding enters_def same(2) hd(4) ..
qed

section \<open>The steps before the kernel is loaded\<close>

text \<open>Memory once the command line of the module \<open>md\<close> has become the one of the kernel.\<close>

definition named :: "u32 \<Rightarrow> boot_module \<Rightarrow> mem \<Rightarrow> mem" where
  "named mbi md m = (let m1 = store32 m (mbi + 16) (bm_string md) in store32 m1 mbi (mbi_flags m1 mbi OR MBI_FLAG_CMDLINE))"

definition has_module :: "mem \<Rightarrow> u32 \<Rightarrow> bool" where
  "has_module m mbi \<longleftrightarrow> mbi_flags m mbi AND MBI_FLAG_MODS \<noteq> 0 \<and> mbi_mods_count m mbi \<noteq> 0"

lemma named_cmdline: "mbi_flags (named mbi md m) mbi AND MBI_FLAG_CMDLINE \<noteq> 0"
proof -
  have "mbi_flags (named mbi md m) mbi AND MBI_FLAG_CMDLINE = MBI_FLAG_CMDLINE"
    by (simp add: named_def Let_def mbi_flags_def mem_simps and.commute [of _ MBI_FLAG_CMDLINE] bit.conj_disj_distrib)
  then show ?thesis by (simp add: MBI_FLAG_CMDLINE_def)
qed

lemma start_runs:
  assumes "has_module (ram s) mbi"
    and "mbi_relocate_modules mbi phys_max mbi2_extra_space_needed s = Some (Inr (extra, s1))"
    and "mbi_pop_module mbi s1 = Some (Inr (md, s2))"
    and "mbi2_header_find (named mbi md (ram s2)) (bm_start md) (bm_end md - bm_start md) = Some h"
  shows "start_module mbi phys_max s =
    andthen (if h \<noteq> 0
             then andthen (printf ''Found MBI2 header. Booting as MBI2.\<newline>'' []) (\<lambda>_. convert_mb1_to_mbi2 mbi extra mbi2_extra_space_needed)
             else andthen (printf ''Found no MBI2 header. Booting as MBI1.\<newline>'' []) (\<lambda>_. ret 0)) (\<lambda>mbi2_info.
    andthen (generate_loader (bm_start md) (if h \<noteq> 0 then MBI2_MAGIC else MBI_MAGIC)) (\<lambda>_.
    andthen (asserts (h = 0 \<or> mbi2_info \<noteq> 0) ''MBI2 info missing'') (\<lambda>_.
    ret (Jump 0 0x7C00 (if h \<noteq> 0 then mbi2_info else mbi))))) (s2\<lparr>ram := named mbi md (ram s2)\<rparr>)"
  using assms(1,4)
  by (simp add: start_module_def has_module_def andthen_Inr [where m = "mbi_relocate_modules mbi phys_max mbi2_extra_space_needed", OF assms(2)]
      andthen_Inr [where m = "mbi_pop_module mbi", OF assms(3)] andthen_reads named_def Let_def)

lemma extra_is: "mbi2_extra_space_needed = 0x4000"
  by (simp add: mbi2_extra_space_needed_def)

text \<open>What is common to both protocols, once it is known what EBX will be.\<close>

lemma last_steps:
  assumes "bootable cls (ram s) elf" and "h = 0 \<or> info \<noteq> 0"
  shows "\<exists>s'. andthen (generate_loader elf magic) (\<lambda>_. andthen (asserts (h = 0 \<or> info \<noteq> (0::u32)) ''MBI2 info missing'') (\<lambda>_.
      ret (Jump 0 0x7C00 ebx))) s = Some (Inr (Jump 0 0x7C00 ebx, s'))
    \<and> (\<forall>a. \<not> in_region 0x7C00 (code_size cls (ram s) elf) a \<longrightarrow> ram s' a = ram s a) \<and> enters cls (ram s) elf magic ebx (ram s')"
proof -
  obtain code s' where g: "generate_loader elf magic s = Some (Inr (code, s'))"
    "\<forall>a. \<not> in_region 0x7C00 (code_size cls (ram s) elf) a \<longrightarrow> ram s' a = ram s a" "enters cls (ram s) elf magic ebx (ram s')"
    using bootable_enters [OF assms(1), of magic ebx] by (elim exE conjE)
  have "andthen (generate_loader elf magic) (\<lambda>_. andthen (asserts (h = 0 \<or> info \<noteq> 0) ''MBI2 info missing'') (\<lambda>_.
      ret (Jump 0 0x7C00 ebx))) s = Some (Inr (Jump 0 0x7C00 ebx, s'))"
    using assms(2) by (simp add: andthen_def [of "generate_loader elf magic"] g(1)) (simp add: ret_def)
  then show ?thesis using g(2,3) by (intro exI conjI)
qed

lemma boots_mbi1_result:
  assumes "has_module (ram s) mbi"
    and "mbi_relocate_modules mbi phys_max mbi2_extra_space_needed s = Some (Inr (extra, s1))"
    and "mbi_pop_module mbi s1 = Some (Inr (md, s2))"
    and "named mbi md (ram s2) = m"
    and "mbi2_header_find m (bm_start md) (bm_end md - bm_start md) = Some 0"
    and "bootable cls m (bm_start md)"
  shows "\<exists>s'. start_module mbi phys_max s = Some (Inr (Jump 0 0x7C00 mbi, s'))
    \<and> (\<forall>a. \<not> in_region 0x7C00 (code_size cls m (bm_start md)) a \<longrightarrow> ram s' a = m a)
    \<and> enters cls m (bm_start md) MBI_MAGIC mbi (ram s')"
proof -
  have "expand (\<lambda>_. None) (directives ''Found no MBI2 header. Booting as MBI1.\<newline>'') [] \<noteq> None" by (simp add: is_conv_def)
  from printf_then [OF this no_strings, where 'a = u32] obtain s3 where s3: "quiet (s2\<lparr>ram := m\<rparr>) s3"
    "\<forall>k :: unit \<Rightarrow> (machine, u32) comp. andthen (printf ''Found no MBI2 header. Booting as MBI1.\<newline>'' []) k (s2\<lparr>ram := m\<rparr>) = k () s3"
    by blast
  have m: "ram s3 = m" using s3(1) by (simp add: quiet_def)
  have "start_module mbi phys_max s = andthen (generate_loader (bm_start md) MBI_MAGIC) (\<lambda>_.
    andthen (asserts (0 = 0 \<or> 0 \<noteq> (0::u32)) ''MBI2 info missing'') (\<lambda>_. ret (Jump 0 0x7C00 mbi))) s3"
    using start_runs [OF assms(1-3), of 0] assms(4,5)
    by (simp add: andthen_def [of "andthen (printf _ _) _"] s3(2)) (simp add: ret_def)
  then show ?thesis
    using last_steps [of cls s3 "bm_start md" 0 0 MBI_MAGIC mbi] assms(6) unfolding m by simp
qed

text \<open>
  A module without a Multiboot2 header is booted as a Multiboot1 kernel: once the modules are
  relocated and the first of them, an executable ELF image, is popped and has given the kernel its
  command line, the call ends with a jump to 0x7C00 with EAX zero and the Multiboot1 information in EBX,
  and the code there loads the kernel and enters it with the Multiboot1 magic number in EAX. Apart from
  this code memory stays as it is.
\<close>

theorem start_module_boots_mbi1:
  assumes "has_module (ram s) mbi"
    and "mbi_relocate_modules mbi phys_max mbi2_extra_space_needed s = Some (Inr (extra, s1))"
    and "mbi_pop_module mbi s1 = Some (Inr (md, s2))"
    and "named mbi md (ram s2) = m"
    and "mbi2_header_find m (bm_start md) (bm_end md - bm_start md) = Some 0"
    and "bootable cls m (bm_start md)"
  shows "\<exists>s'. start_module mbi phys_max s = Some (Inr (Jump 0 0x7C00 mbi, s'))
    \<and> (\<forall>a. \<not> in_region 0x7C00 (code_size cls m (bm_start md)) a \<longrightarrow> ram s' a = m a)
    \<and> enters cls m (bm_start md) MBI_MAGIC mbi (ram s')"
  using assms by (rule boots_mbi1_result)

lemma boots_mbi2_result:
  assumes "has_module (ram s) mbi"
    and "mbi_relocate_modules mbi phys_max mbi2_extra_space_needed s = Some (Inr (ucast start, s1))"
    and "mbi_pop_module mbi s1 = Some (Inr (md, s2))"
    and "named mbi md (ram s2) = m"
    and "mbi2_header_find m (bm_start md) (bm_end md - bm_start md) = Some h" and "h \<noteq> 0"
    and "bootable cls m (bm_start md)" and "headers_clear cls m (bm_start md) start 0x4000"
    and "unat start mod 8 = 0" and "0 < unat start" and "unat start + 0x4000 < 2 ^ 32" and "apart 0x7C00 (code_size cls m (bm_start md)) start 0x4000"
    and "convertible (builder_at start 0x4000) m mbi cmdl ps names rsdp" and "boot_tags m mbi cmdl ps names rsdp = ts"
  shows "if room_for (unat start + 8) (unat start + 0x4000) ts \<and> tags_end (unat start + 8) ts + 16 \<le> unat start + 0x4000
    then \<exists>s'. start_module mbi phys_max s = Some (Inr (Jump 0 0x7C00 start, s'))
      \<and> reads_tags (ram s') (mbi2_tag_first start) ts \<and> enters cls m (bm_start md) MBI2_MAGIC start (ram s')
      \<and> (\<forall>a. \<not> in_region 0x7C00 (code_size cls m (bm_start md)) a \<and> \<not> in_region start 0x4000 a \<longrightarrow> ram s' a = m a)
    else start_module mbi phys_max s = Some (Inl no_space)"
proof -
  let ?fits = "room_for (unat start + 8) (unat start + 0x4000) ts \<and> tags_end (unat start + 8) ts + 16 \<le> unat start + 0x4000"
  let ?elf = "bm_start md"
  have "expand (\<lambda>_. None) (directives ''Found MBI2 header. Booting as MBI2.\<newline>'') [] \<noteq> None" by (simp add: is_conv_def)
  from printf_then [OF this no_strings, where 'a = u32] obtain s3 where s3: "quiet (s2\<lparr>ram := m\<rparr>) s3"
    "\<forall>k :: unit \<Rightarrow> (machine, u32) comp. andthen (printf ''Found MBI2 header. Booting as MBI2.\<newline>'' []) k (s2\<lparr>ram := m\<rparr>) = k () s3"
    by blast
  have m: "ram s3 = m" using s3(1) by (simp add: quiet_def)
  have run: "start_module mbi phys_max s = andthen (convert_mb1_to_mbi2 mbi (ucast start) 0x4000) (\<lambda>info.
    andthen (generate_loader ?elf MBI2_MAGIC) (\<lambda>_.
    andthen (asserts (h = 0 \<or> info \<noteq> 0) ''MBI2 info missing'') (\<lambda>_. ret (Jump 0 0x7C00 info)))) s3"
    using start_runs [OF assms(1-3), of h] assms(4-6)
    by (simp add: andthen_def [of "andthen (printf _ _) _"] s3(2)) (simp add: andthen_def [of "convert_mb1_to_mbi2 _ _ _"] extra_is)
  have u: "unat (0x4000 :: u32) = 0x4000" by simp
  have "ts \<noteq> []"
    using named_cmdline [of mbi md "ram s2"] unfolding assms(4,14) [symmetric] boot_tags_def cmdline_tags_def by simp
  note conv = convert_result [of start "0x4000" s3 mbi cmdl ps names rsdp ts, unfolded m u, OF assms(9,11,13,14) this]
  show ?thesis
  proof (cases ?fits)
    case False
    then show ?thesis using conv by (simp only: if_False run andthen_Inl)
  next
    case True
    then obtain s4 where s4: "convert_mb1_to_mbi2 mbi (ucast start) 0x4000 s3 = Some (Inr (start, s4))"
      "holds_tags (ram s4) start 0x4000 ts" "\<forall>a. \<not> in_region start 0x4000 a \<longrightarrow> ram s4 a = m a"
      using conv unfolding if_P [OF True] by (elim exE conjE)
    note kept = bootable_kept [OF assms(8) s4(3)]
    have "start \<noteq> 0" using assms(10) by auto
    then obtain s' where s': "andthen (generate_loader ?elf MBI2_MAGIC) (\<lambda>_. andthen (asserts (h = 0 \<or> start \<noteq> 0) ''MBI2 info missing'') (\<lambda>_.
        ret (Jump 0 0x7C00 start))) s4 = Some (Inr (Jump 0 0x7C00 start, s'))"
      "\<forall>a. \<not> in_region 0x7C00 (code_size cls m ?elf) a \<longrightarrow> ram s' a = ram s4 a" "enters cls m ?elf MBI2_MAGIC start (ram s')"
      using last_steps [of cls s4 ?elf h start MBI2_MAGIC start] assms(7) unfolding kept by blast
    have "start_module mbi phys_max s = Some (Inr (Jump 0 0x7C00 start, s'))"
      unfolding run using s'(1) by (simp add: andthen_Inr [where m = "convert_mb1_to_mbi2 mbi (ucast start) 0x4000", OF s4(1)])
    moreover have "ram s' a = ram s4 a" if "in_region start 0x4000 a" for a
    proof -
      have g: "fits start 0x4000" "fits 0x7C00 (code_size cls m ?elf)"
        using assms(7,11) by (simp_all add: fits_def bootable_def headers_clear_def)
      then have "\<not> in_region 0x7C00 (code_size cls m ?elf) a"
        using that assms(12) unfolding in_region_nat [OF g(1)] in_region_nat [OF g(2)] apart_def by linarith
      then show ?thesis using s'(2) by blast
    qed
    then have "reads_tags (ram s') (mbi2_tag_first start) ts"
      using holds_tags_reads holds_tags_frame [OF s4(2)] by blast
    ultimately show ?thesis
      unfolding if_P [OF True] using s'(2,3) s4(3) by (intro exI [of _ s'] conjI allI impI) simp_all
  qed
qed

text \<open>
  A module with a Multiboot2 header is booted as a Multiboot2 kernel: the call ends with a jump to
  0x7C00 with the Multiboot2 information, built in the extra space, in EBX. It reads as the tags that
  the Multiboot1 information calls for, the code at 0x7C00 loads the kernel and enters it with the
  Multiboot2 magic number in EAX, and apart from the code and the extra space memory stays as it is. If
  the tags do not fit, the call fails.
\<close>

theorem start_module_boots_mbi2:
  assumes "has_module (ram s) mbi"
    and "mbi_relocate_modules mbi phys_max mbi2_extra_space_needed s = Some (Inr (ucast start, s1))"
    and "mbi_pop_module mbi s1 = Some (Inr (md, s2))"
    and "named mbi md (ram s2) = m"
    and "mbi2_header_find m (bm_start md) (bm_end md - bm_start md) = Some h" and "h \<noteq> 0"
    and "bootable cls m (bm_start md)" and "headers_clear cls m (bm_start md) start 0x4000"
    and "unat start mod 8 = 0" and "0 < unat start" and "unat start + 0x4000 < 2 ^ 32" and "apart 0x7C00 (code_size cls m (bm_start md)) start 0x4000"
    and "convertible (builder_at start 0x4000) m mbi cmdl ps names rsdp" and "boot_tags m mbi cmdl ps names rsdp = ts"
  shows "if room_for (unat start + 8) (unat start + 0x4000) ts \<and> tags_end (unat start + 8) ts + 16 \<le> unat start + 0x4000
    then \<exists>s'. start_module mbi phys_max s = Some (Inr (Jump 0 0x7C00 start, s'))
      \<and> reads_tags (ram s') (mbi2_tag_first start) ts \<and> enters cls m (bm_start md) MBI2_MAGIC start (ram s')
      \<and> (\<forall>a. \<not> in_region 0x7C00 (code_size cls m (bm_start md)) a \<and> \<not> in_region start 0x4000 a \<longrightarrow> ram s' a = m a)
    else start_module mbi phys_max s = Some (Inl no_space)"
  using assms by (rule boots_mbi2_result)

text \<open>
  Without a module there is nothing to start: the call prints a message and returns -1, and leaves memory alone.
\<close>

theorem start_module_without_module:
  assumes "\<not> has_module (ram s) mbi"
  shows "\<exists>s'. start_module mbi phys_max s = Some (Inr (Return (- 1), s')) \<and> quiet s s'"
proof -
  have "wp (start_module mbi phys_max) (\<lambda>x s'. x = Return (- 1) \<and> quiet s s') s"
    using assms unfolding start_module_def has_module_def
    by (simp del: wp_andthen add: wp_andthen [of "gets _"] disj_commute)
      (rule wp_printf_then; simp add: is_conv_def)
  then show ?thesis by (auto simp: wp_iff)
qed

lemma start_module_without_module_witness:
  "\<exists>s'. start_module 0x500 0x80000000 blank = Some (Inr (Return (- 1), s')) \<and> quiet blank s'"
  by (rule start_module_without_module) (simp add: has_module_def blank_built mbi_flags_def load32_bytes)

section \<open>Two machines with one module\<close>

text \<open>
  The Multiboot1 information at 0x500 lists one module, the image \<open>sample_elf\<close>, 8 KiB from 1M on with an
  empty name at 0x3000, and 16 KiB of memory at 3M: too little to relocate, enough for the extra space.
  With \<open>hdr\<close> there is a Multiboot2 header in the module.
\<close>

definition header_bytes :: "u8 list" where
  "header_bytes = [0xd6, 0x50, 0x52, 0xe8, 0, 0, 0, 0, 0x10, 0, 0, 0, 0x1a, 0xaf, 0xad, 0x17]"

lemma length_header_bytes [simp]: "length header_bytes = 16"
  by (simp add: header_bytes_def)

definition boot_image :: "bool \<Rightarrow> mem" where
  "boot_image hdr = (if hdr then write_bytes sample_elf 0x100080 header_bytes else sample_elf)
    (0x500 := 8, 0x514 := 1, 0x519 := 6, 0x52C := 24, 0x531 := 0x10, 0x602 := 0x10, 0x605 := 0x20, 0x606 := 0x10,
     0x609 := 0x30, 0x1000 := 20, 0x1006 := 0x30, 0x100D := 0x40, 0x1014 := 1)"

lemma boot_image_low: "unat a < 0x100000 \<Longrightarrow> boot_image hdr a = ((\<lambda>_. 0)(0x500 := 8, 0x514 := 1, 0x519 := 6, 0x52C := 24,
    0x531 := 0x10, 0x602 := 0x10, 0x605 := 0x20, 0x606 := 0x10, 0x609 := 0x30, 0x1000 := 20, 0x1006 := 0x30, 0x100D := 0x40,
    0x1014 := 1)) a"
  by (cases hdr) (auto simp: boot_image_def sample_elf_def header_bytes_def)

lemma boot_image_fields:
  "mbi_flags (boot_image hdr) 0x500 = 8" "mbi_mods_count (boot_image hdr) 0x500 = 1" "mbi_mods_addr (boot_image hdr) 0x500 = 0x600"
  "mod_start (boot_image hdr) 0x600 = 0x100000" "mod_end (boot_image hdr) 0x600 = 0x102000" "mod_string (boot_image hdr) 0x600 = 0x3000"
  "mbi_mmap_addr (boot_image hdr) 0x500 = 0x1000" "mbi_mmap_length (boot_image hdr) 0x500 = 24"
  "mmap_size (boot_image hdr) 0x1000 = 20" "mmap_type (boot_image hdr) 0x1000 = MMAP_AVAILABLE"
  "mbi_memory_base_addr (boot_image hdr) 0x1000 = 0x300000" "mbi_memory_length (boot_image hdr) 0x1000 = 0x4000"
  "boot_image hdr 0x3000 = 0"
  by (simp_all add: mbi_flags_def mbi_mods_count_def mbi_mods_addr_def mod_start_def mod_end_def mod_string_def mbi_mmap_addr_def
      mbi_mmap_length_def mmap_size_def mmap_type_def MMAP_AVAILABLE_def mbi_memory_base_addr_def
      mbi_memory_length_def load32_bytes boot_image_low)

lemma boot_image_relocate:
  "\<exists>s1. mbi_relocate_modules 0x500 0x400000 mbi2_extra_space_needed (blank\<lparr>ram := boot_image hdr\<rparr>) = Some (Inr (ucast (0x300000 :: u32), s1))
    \<and> ram s1 = boot_image hdr"
proof -
  let ?s = "blank\<lparr>ram := boot_image hdr\<rparr>"
  have "cstr (boot_image hdr) 0x3000 []" by (simp add: boot_image_fields)
  then have "strlen (boot_image hdr) 0x3000 = Some 0" using strlen_cstr by fastforce
  then have m: "measure_modules (boot_image hdr) 0x600 0 (Suc 0) 0x4000 = Some ([(0x2000, 1)], page_round 0x6001)"
    by (simp add: boot_image_fields module_ptr_def)
  have r: "page_round 0x6001 = 0x7000" by (simp add: page_round_def)
  have f: "mbi_find_memory (boot_image hdr) 0x500 0x7000 True 0x400000 = Some None"
    "mbi_find_memory (boot_image hdr) 0x500 0x4000 True 0x400000 = Some (Some 0x300000)"
    by (simp_all add: mbi_find_memory_def find_loop.simps take_block_def page_block_def mbi_memory_map_next_def boot_image_fields)
  have "wp (mbi_relocate_modules 0x500 0x400000 mbi2_extra_space_needed) (\<lambda>x s1. x = ucast (0x300000 :: u32) \<and> ram s1 = boot_image hdr) ?s"
    by (simp add: mbi_relocate_modules_def extra_is boot_image_fields m r f wp_reads del: measure_modules.simps overlap_check.simps)
      (rule wp_printf [where str = "\<lambda>_. None"], simp_all add: is_conv_def quiet_ram f wp_reads)
  then show ?thesis by (auto simp: wp_iff)
qed

lemma boot_image_named:
  assumes "ram s1 = boot_image hdr"
  shows "\<exists>md s2. mbi_pop_module 0x500 s1 = Some (Inr (md, s2)) \<and> bm_start md = 0x100000 \<and> bm_end md = 0x102000
    \<and> mbi_flags (named 0x500 md (ram s2)) 0x500 = 12 \<and> mbi_cmdline (named 0x500 md (ram s2)) 0x500 = 0x3000
    \<and> mbi_mods_count (named 0x500 md (ram s2)) 0x500 = 0
    \<and> (\<forall>a. \<not> in_region 0x500 28 a \<longrightarrow> named 0x500 md (ram s2) a = boot_image hdr a)"
proof -
  obtain md s2 where p: "mbi_pop_module 0x500 s1 = Some (Inr (md, s2))" "bm_start md = 0x100000" "bm_end md = 0x102000"
    "bm_string md = 0x3000" "mbi_mods_count (ram s2) 0x500 = 0" "\<forall>a. \<not> in_region (0x500 + 20) 8 a \<longrightarrow> ram s2 a = boot_image hdr a"
    using pop_result [of "0x500" s1] by (auto simp: assms boot_image_fields fits_def apart_def)
  let ?m = "ram s2"
  let ?m1 = "store32 ?m 0x510 0x3000"
  have "load32 ?m 0x500 = load32 (boot_image hdr) 0x500"
    unfolding load32_bytes using p(6) by (simp add: in_region_def)
  then have fl: "mbi_flags ?m1 0x500 = 8"
    using load32_store32_other [of "0x510" "0x500" ?m "0x3000"] boot_image_fields(1) [of hdr] by (simp add: mbi_flags_def fits_def apart_def)
  have n: "named 0x500 md ?m = store32 ?m1 0x500 12" by (simp add: named_def Let_def p(4) fl MBI_FLAG_CMDLINE_def)
  have other: "load32 (store32 ?m1 0x500 12) (0x500 + k) = load32 ?m1 (0x500 + k)" if "k \<in> {16, 20}" for k
    using that by (intro load32_store32_other) (auto simp: fits_def apart_def)
  have "load32 ?m1 0x514 = load32 ?m 0x514" by (rule load32_store32_other) (simp_all add: fits_def apart_def)
  then have "mbi_flags (named 0x500 md ?m) 0x500 = 12" "mbi_cmdline (named 0x500 md ?m) 0x500 = 0x3000"
    "mbi_mods_count (named 0x500 md ?m) 0x500 = 0"
    using other [of 16] other [of 20] p(5) by (simp_all add: n mbi_flags_def mbi_cmdline_def mbi_mods_count_def mem_simps)
  moreover have "named 0x500 md ?m a = boot_image hdr a" if "\<not> in_region 0x500 28 a" for a
  proof -
    have f: "fits 0x500 28" "fits 0x500 4" "fits 0x510 4" "fits (0x500 + 20) 8" by (simp_all add: fits_def)
    then have "\<not> in_region 0x500 4 a" "\<not> in_region 0x510 4 a" "\<not> in_region (0x500 + 20) 8 a"
      using that unfolding in_region_nat [OF f(1)] in_region_nat [OF f(2)] in_region_nat [OF f(3)] in_region_nat [OF f(4)] by auto
    then show ?thesis unfolding n using p(6) f by (simp add: store32_outside)
  qed
  ultimately show ?thesis using p(1-3) by blast
qed

text \<open>What the steps after that need of the memory.\<close>

lemma find_unique: "x \<in> set xs \<Longrightarrow> P x \<Longrightarrow> \<forall>y\<in>set xs. P y \<longrightarrow> y = x \<Longrightarrow> List.find P xs = Some x"
proof (induction xs)
  case (Cons a xs)
  show ?case
  proof (cases "P a")
    case True
    then have "a = x" using Cons.prems(3) by simp
    then show ?thesis using True by simp
  next
    case False
    then have "x \<in> set xs" using Cons.prems(1,2) by auto
    moreover have "\<forall>y\<in>set xs. P y \<longrightarrow> y = x" using Cons.prems(3) unfolding list.set(2) by blast
    ultimately have "List.find P xs = Some x" using Cons.prems(2) by (intro Cons.IH)
    then show ?thesis using False by (simp only: List.find.simps if_False)
  qed
qed simp

lemma sample_elf_boots:
  "segments_from Elf32 sample_elf 0x100000 0 = [(0x200000, 0x101000, 4, 4)]" "bootable Elf32 sample_elf 0x100000"
  "e_entry Elf32 sample_elf 0x100000 = 0x200000" "fits p n \<Longrightarrow> apart p n 0x100000 84 \<Longrightarrow> headers_clear Elf32 sample_elf 0x100000 p n"
proof -
  show segs: "segments_from Elf32 sample_elf 0x100000 0 = [(0x200000, 0x101000, 4, 4)]"
    by (simp add: segments_from_def sample_elf_fields)
  show "bootable Elf32 sample_elf 0x100000"
    using sample_elf_loadable by (simp add: bootable_def code_size_def segs headers_clear_def sample_elf_fields fits_def apart_def)
  show "e_entry Elf32 sample_elf 0x100000 = 0x200000" by (simp add: sample_elf_fields)
  show "headers_clear Elf32 sample_elf 0x100000 p n" if "fits p n" "apart p n 0x100000 84"
    using that by (auto simp: headers_clear_def sample_elf_fields fits_def apart_def)
qed

lemma boot_image_kernel:
  assumes "\<forall>a. \<not> in_region 0x500 28 a \<longrightarrow> m a = boot_image hdr a"
  shows "bootable Elf32 m 0x100000" "segments_from Elf32 m 0x100000 0 = [(0x200000, 0x101000, 4, 4)]"
    "headers_clear Elf32 m 0x100000 0x300000 0x4000" "e_entry Elf32 m 0x100000 = 0x200000"
proof -
  define w where "w = (if hdr then write_bytes sample_elf 0x100080 header_bytes else sample_elf)"
  have f: "fits 0x100080 16" "fits 0x500 0x1000" by (simp_all add: fits_def)
  have w: "\<forall>a. \<not> in_region 0x100080 16 a \<longrightarrow> w a = sample_elf a"
    using write_apart_outside [of "0x100080" header_bytes] f(1) by (simp add: w_def)
  have m: "\<forall>a. \<not> in_region 0x500 0x1000 a \<longrightarrow> m a = w a"
  proof (intro allI impI)
    fix a :: u32 assume out: "\<not> in_region 0x500 0x1000 a"
    have g: "fits 0x500 28" by (simp add: fits_def)
    have "\<not> in_region 0x500 28 a" using out unfolding in_region_nat [OF f(2)] in_region_nat [OF g] by auto
    moreover have "boot_image hdr a = w a"
      using out unfolding in_region_nat [OF f(2)] by (auto simp: boot_image_def w_def)
    ultimately show "m a = w a" using assms by simp
  qed
  have c1: "headers_clear Elf32 sample_elf 0x100000 0x100080 16" by (rule sample_elf_boots(4)) (simp_all add: fits_def apart_def)
  note k1 = bootable_kept [OF c1 w] elf_kept [OF c1 w]
  have c2: "headers_clear Elf32 w 0x100000 0x500 0x1000"
    unfolding k1 by (rule sample_elf_boots(4)) (simp_all add: fits_def apart_def)
  note k2 = bootable_kept [OF c2 m] elf_kept [OF c2 m]
  show "bootable Elf32 m 0x100000" "segments_from Elf32 m 0x100000 0 = [(0x200000, 0x101000, 4, 4)]"
    unfolding k2 k1 by (rule sample_elf_boots)+
  show "headers_clear Elf32 m 0x100000 0x300000 0x4000"
    unfolding k2 k1 by (rule sample_elf_boots) (simp_all add: fits_def apart_def)
  show "e_entry Elf32 m 0x100000 = 0x200000"
    using sample_elf_boots(3) header_same(4) [OF k2(4)] header_same(4) [OF k1(4)] by simp
qed

lemma low_byte: "m p = ucast (load32 m p)"
  unfolding load32_bytes by (rule bit_word_eqI) (auto simp: bit_simps)

lemma boot_image_header:
  assumes "\<forall>a. \<not> in_region 0x500 28 a \<longrightarrow> m a = boot_image hdr a"
  shows "mbi2_header_find m 0x100000 0x2000 = Some (if hdr then 0x100080 else 0)"
proof -
  let ?slots = "header_slots 0x100000 1023"
  have g: "fits 0x500 28" by (simp add: fits_def)
  have m: "m a = boot_image hdr a" if "0x100000 \<le> unat a" for a
    using assms that unfolding in_region_nat [OF g] by auto
  have only: "hdr \<and> h = 0x100080" if "is_header m h" "h \<in> set ?slots" for h
  proof -
    have "m h = 0xd6" using that(1) by (subst low_byte) (simp add: is_header_def MBI2_HEADER_MAGIC_def)
    moreover have h: "0x100000 \<le> unat h"
      using that(2) by (auto simp: header_slots_def unat_of_nat_small simp del: of_nat_add of_nat_mult)
    ultimately have "boot_image hdr h = 0xd6" using m by simp
    then show ?thesis using h by (auto simp: boot_image_def header_bytes_def sample_elf_def split: if_splits)
  qed
  have "List.find (is_header m) ?slots = (if hdr then Some 0x100080 else None)"
  proof (cases hdr)
    case True
    have "is_header m 0x100080"
      using True by (simp add: is_header_def MBI2_HEADER_MAGIC_def load32_bytes m boot_image_def header_bytes_def)
    moreover have "0x100080 \<in> set ?slots" by (auto simp: header_slots_def intro!: image_eqI [of _ _ 16])
    ultimately have "List.find (is_header m) ?slots = Some 0x100080"
      by (intro find_unique ballI impI) (use only in blast)+
    then show ?thesis using True by (simp only: if_True)
  next
    case False
    then show ?thesis using only by (auto simp: find_None_iff)
  qed
  then show ?thesis
    using header_loop_first [of "0x100000" "0x2000" m] by (simp add: mbi2_header_find_def)
qed

lemma boot_image_no_rsdp:
  assumes "\<forall>a. \<not> in_region 0x500 28 a \<longrightarrow> m a = boot_image hdr a" and "load32 m 0x500 = 12" and "load32 m 0x510 = 0x3000"
  shows "acpi_get_rsdp m = Some 0"
proof -
  have g: "fits 0x500 28" by (simp add: fits_def)
  have "\<not> is_rsdp m p" if "unat p < 0x100000" "unat p mod 16 = 0" for p
  proof
    assume "is_rsdp m p"
    then have "read_bytes m p 8 ! 0 = 82" by (simp add: is_rsdp_def)
    then have b: "m p = 82" by (simp add: nth_read_bytes)
    show False
    proof (cases "in_region 0x500 28 p")
      case True
      then have "0x500 \<le> unat p \<and> unat p < 0x51C" unfolding in_region_nat [OF g] by simp
      then have "unat p = 0x500 \<or> unat p = 0x510" using that(2) by presburger
      moreover have "unat (0x500 :: u32) = 0x500" "unat (0x510 :: u32) = 0x510" by simp_all
      ultimately have "p = 0x500 \<or> p = 0x510" by (simp only: word_unat_eq_iff)
      then show ?thesis using b low_byte [of m "0x500"] low_byte [of m "0x510"] assms(2,3) by auto
    next
      case False
      then have "m p = boot_image hdr p" using assms(1) by simp
      then show ?thesis using b that(1) by (simp add: boot_image_low split: if_splits)
    qed
  qed
  moreover have "unat p < 0x100000 \<and> unat p mod 16 = 0" if "p \<in> set (paragraphs 0x400 64 @ paragraphs 0xe0000 8192)" for p
    using that by (auto simp: paragraphs_def unat_of_nat_small mod_add_eq simp del: of_nat_add of_nat_mult)
  ultimately have "List.find (is_rsdp m) (paragraphs 0x400 64 @ paragraphs 0xe0000 8192) = None"
    by (auto simp: find_None_iff)
  then show ?thesis unfolding acpi_get_rsdp_find by simp
qed

lemma start_module_boots_mbi1_witness:
  "\<exists>s'. start_module 0x500 0x400000 (blank\<lparr>ram := boot_image False\<rparr>) = Some (Inr (Jump 0 0x7C00 0x500, s'))
    \<and> (\<exists>c'. cpu_run \<lparr>eip = 0x7C00, regs = (\<lambda>_. 0)(EBX := 0x500), cmem = ram s'\<rparr> c' \<and> eip c' = 0x200000 \<and> regs c' EAX = MBI_MAGIC)"
proof -
  let ?s = "blank\<lparr>ram := boot_image False\<rparr>"
  obtain s1 where s1: "mbi_relocate_modules 0x500 0x400000 mbi2_extra_space_needed ?s = Some (Inr (ucast (0x300000 :: u32), s1))"
    "ram s1 = boot_image False" using boot_image_relocate by blast
  obtain md s2 where s2: "mbi_pop_module 0x500 s1 = Some (Inr (md, s2))" "bm_start md = 0x100000" "bm_end md = 0x102000"
    "\<forall>a. \<not> in_region 0x500 28 a \<longrightarrow> named 0x500 md (ram s2) a = boot_image False a"
    using boot_image_named [OF s1(2)] by blast
  note k = boot_image_kernel [OF s2(4)]
  have "has_module (ram ?s) 0x500" by (simp add: has_module_def boot_image_fields MBI_FLAG_MODS_def)
  from start_module_boots_mbi1 [OF this s1(1) s2(1) refl _ k(1) [folded s2(2)]] boot_image_header [OF s2(4)]
  obtain s' where s': "start_module 0x500 0x400000 ?s = Some (Inr (Jump 0 0x7C00 0x500, s'))"
    "enters Elf32 (named 0x500 md (ram s2)) 0x100000 MBI_MAGIC 0x500 (ram s')" by (auto simp: s2(2,3))
  have "\<exists>c'. cpu_run \<lparr>eip = 0x7C00, regs = (\<lambda>_. 0)(EBX := 0x500), cmem = ram s'\<rparr> c' \<and> eip c' = 0x200000 \<and> regs c' EAX = MBI_MAGIC"
    using s'(2) [unfolded enters_def k(4), rule_format, of "\<lparr>eip = 0x7C00, regs = (\<lambda>_. 0)(EBX := 0x500), cmem = ram s'\<rparr>"] by auto
  then show ?thesis using s'(1) by blast
qed

lemma start_module_boots_mbi2_witness:
  "\<exists>s'. start_module 0x500 0x400000 (blank\<lparr>ram := boot_image True\<rparr>) = Some (Inr (Jump 0 0x7C00 0x300000, s'))
    \<and> reads_tags (ram s') 0x300008 [(1, [0])]
    \<and> (\<exists>c'. cpu_run \<lparr>eip = 0x7C00, regs = (\<lambda>_. 0)(EBX := 0x300000), cmem = ram s'\<rparr> c' \<and> eip c' = 0x200000 \<and> regs c' EAX = MBI2_MAGIC)"
proof -
  let ?s = "blank\<lparr>ram := boot_image True\<rparr>"
  obtain s1 where s1: "mbi_relocate_modules 0x500 0x400000 mbi2_extra_space_needed ?s = Some (Inr (ucast (0x300000 :: u32), s1))"
    "ram s1 = boot_image True" using boot_image_relocate by blast
  obtain md s2 where s2: "mbi_pop_module 0x500 s1 = Some (Inr (md, s2))" "bm_start md = 0x100000" "bm_end md = 0x102000"
    "mbi_flags (named 0x500 md (ram s2)) 0x500 = 12" "mbi_cmdline (named 0x500 md (ram s2)) 0x500 = 0x3000"
    "mbi_mods_count (named 0x500 md (ram s2)) 0x500 = 0"
    "\<forall>a. \<not> in_region 0x500 28 a \<longrightarrow> named 0x500 md (ram s2) a = boot_image True a"
    using boot_image_named [OF s1(2)] by blast
  define m where "m = named 0x500 md (ram s2)"
  note s2 = s2 [folded m_def]
  note k = boot_image_kernel [OF s2(7)]
  have "has_module (ram ?s) 0x500" by (simp add: has_module_def boot_image_fields MBI_FLAG_MODS_def)
  note boots = start_module_boots_mbi2 [OF this s1(1) s2(1) m_def [symmetric]]
  have rsdp: "acpi_get_rsdp m = Some 0"
    using boot_image_no_rsdp [OF s2(7)] s2(4,5) by (simp add: mbi_flags_def mbi_cmdline_def)
  have "m 0x3000 = 0" using s2(7) by (simp add: in_region_def boot_image_fields)
  then have "named_at (builder_at 0x300000 0x4000) m 0x3000 []"
    by (simp add: named_at_def source_def fits_def apart_def)
  then have conv: "convertible (builder_at 0x300000 0x4000) m 0x500 [] [] [] 0"
    by (simp add: convertible_def s2(4,5,6) rsdp MBI_FLAG_CMDLINE_def MBI_FLAG_MEM_def MBI_FLAG_MODS_def source_def fits_def apart_def)
  have tags: "boot_tags m 0x500 [] [] [] 0 = [(1, [0])]"
    by (simp add: boot_tags_def cmdline_tags_def memory_tags_def module_tags_def rsdp_tags_def s2(4,6) MBI_FLAG_CMDLINE_def
        MBI_FLAG_MEM_def MBI_FLAG_MODS_def MBI2_TAG_CMDLINE_def)
  have size: "code_size Elf32 m 0x100000 = 36" by (simp add: code_size_def k(2))
  obtain s' where s': "start_module 0x500 0x400000 ?s = Some (Inr (Jump 0 0x7C00 0x300000, s'))"
    "reads_tags (ram s') 0x300008 [(1, [0])]" "enters Elf32 m 0x100000 MBI2_MAGIC 0x300000 (ram s')"
    using boots [of "0x100080" Elf32 "[]" "[]" "[]" 0 "[(1, [0])]"] boot_image_header [OF s2(7)] k conv tags
    by (auto simp: s2(2,3) size apart_def up8_def mbi2_tag_first_def)
  have "\<exists>c'. cpu_run \<lparr>eip = 0x7C00, regs = (\<lambda>_. 0)(EBX := 0x300000), cmem = ram s'\<rparr> c' \<and> eip c' = 0x200000 \<and> regs c' EAX = MBI2_MAGIC"
    using s'(3) [unfolded enters_def k(4), rule_format, of "\<lparr>eip = 0x7C00, regs = (\<lambda>_. 0)(EBX := 0x300000), cmem = ram s'\<rparr>"] by auto
  then show ?thesis using s'(1,2) by blast
qed

end
