(* ===== verification/Boot_Proof.thy ===== *)
theory Boot_Proof imports Start_Proof begin

text \<open>
  The whole of start_module, from the memory that the boot loader leaves: the modules are relocated,
  the first one is popped and searched for a Multiboot2 header, the information is converted, the
  kernel is loaded and entered. All hypotheses are about the memory before the call.
\<close>

unbundle bit_operations_syntax

section \<open>The kernel in its file\<close>

text \<open>A file in an otherwise empty memory.\<close>

definition alone :: "u32 \<Rightarrow> u8 list \<Rightarrow> mem" where
  "alone p img = write_bytes (\<lambda>_. 0) p img"

text \<open>
  The file is an executable image that the generated code can load from \<open>p\<close>, and all its headers lie
  within the file.
\<close>

definition kernel_file :: "elf_class \<Rightarrow> u8 list \<Rightarrow> u32 \<Rightarrow> bool" where
  "kernel_file cls img p \<longleftrightarrow> unat p + length img < 2 ^ 32 \<and> bootable cls (alone p img) p
     \<and> headers_clear cls (alone p img) p 0 (unat p)
     \<and> headers_clear cls (alone p img) p (p + of_nat (length img)) (2 ^ 32 - (unat p + length img))"

lemma alone_read: "fits p (length img) \<Longrightarrow> read_bytes (alone p img) p (length img) = img"
  by (simp add: alone_def fits_def mem_simps)

lemma alone_at:
  assumes "read_bytes m p (length img) = img" and "fits p (length img)" and "in_region p (length img) a"
  shows "m a = alone p img a"
proof -
  have "a = p + of_nat (unat (a - p))" "unat (a - p) < length img" using assms(3) by (simp_all add: in_region_def)
  then show ?thesis
    using nth_read_bytes [of "unat (a - p)" "length img" m p] nth_read_bytes [of "unat (a - p)" "length img" "alone p img" p]
      assms(1) alone_read [OF assms(2)] by simp
qed

lemma headers_clear_part:
  assumes "headers_clear cls m elf p n" and "unat p \<le> unat p'" and "unat p' + n' \<le> unat p + n"
  shows "headers_clear cls m elf p' n'"
  using assms unfolding headers_clear_def fits_def apart_def by (meson le_trans add_le_mono1)

text \<open>A memory that holds the file holds the same kernel.\<close>

lemma kernel_found:
  assumes "kernel_file cls img p" and "read_bytes m p (length img) = img"
  shows "bootable cls m p" "code_size cls m p = code_size cls (alone p img) p"
    "enters cls m p magic info m2 = enters cls (alone p img) p magic info m2"
    "headers_clear cls m p q k = headers_clear cls (alone p img) p q k"
proof -
  let ?m0 = "alone p img" and ?e = "p + of_nat (length img)" and ?n = "2 ^ 32 - (unat p + length img)"
  have k: "unat p + length img < 2 ^ 32" "bootable cls ?m0 p" "headers_clear cls ?m0 p 0 (unat p)" "headers_clear cls ?m0 p ?e ?n"
    using assms(1) by (simp_all add: kernel_file_def)
  have f: "fits p (length img)" using k(1) by (simp add: fits_def)
  have e: "unat ?e = unat p + length img" by (rule unat_add_of_nat) (use k(1) in simp)
  define m1 where "m1 = (\<lambda>a. if in_region 0 (unat p) a then m a else ?m0 a)"
  have "\<forall>a. \<not> in_region 0 (unat p) a \<longrightarrow> m1 a = ?m0 a" by (simp add: m1_def)
  note same1 = bootable_kept [OF k(3) this] elf_kept [OF k(3) this]
  have m: "m a = m1 a" if "\<not> in_region ?e ?n a" for a
  proof (cases "in_region 0 (unat p) a")
    case False
    have g: "fits 0 (unat p)" "fits ?e ?n" using e k(1) by (simp_all add: fits_def)
    have "in_region p (length img) a"
      using False that unat32_bound [of a] k(1)
      unfolding in_region_nat [OF f] in_region_nat [OF g(1)] in_region_nat [OF g(2)] e by auto
    then show ?thesis using False alone_at [OF assms(2) f] by (simp add: m1_def)
  qed (simp add: m1_def)
  have c: "headers_clear cls m1 p ?e ?n" using k(4) same1 by simp
  note same2 = bootable_kept [OF c] elf_kept [OF c]
  show "bootable cls m p" "code_size cls m p = code_size cls ?m0 p"
    "enters cls m p magic info m2 = enters cls ?m0 p magic info m2"
    "headers_clear cls m p q k = headers_clear cls ?m0 p q k"
    using same1 same2 [of m] m k(2) by simp_all
qed

lemma header_found:
  assumes "read_bytes m p (length img) = img" and "unat p + length img + 16 < 2 ^ 32"
  shows "mbi2_header_find m p (of_nat (length img)) = mbi2_header_find (alone p img) p (of_nat (length img))"
proof -
  have f: "fits p (length img)" and len: "unat (of_nat (length img) :: u32) = length img"
    using assms(2) unat_of_nat_small [of "length img", where 'a = 32] by (simp_all add: fits_def)
  have "is_header m h = is_header (alone p img) h" if slot: "h \<in> set (header_slots (unat p) ((length img - 8) div 8))" for h
  proof -
    obtain i where i: "h = p + of_nat (8 * i)" "i < (length img - 8) div 8" using slot unfolding header_slots_def by auto
    then have "8 * i + 16 \<le> length img" by linarith
    then have "in_region p (length img) (h + of_nat j)" if "j < 16" for j
    proof -
      have h: "h + of_nat j - p = of_nat (8 * i + j)" by (simp add: i(1))
      have "8 * i + j < length img" using that \<open>8 * i + 16 \<le> length img\<close> by linarith
      then show ?thesis
        using unat_of_nat_small [of "8 * i + j", where 'a = 32] assms(2) unfolding in_region_def h by simp
    qed
    then have same: "m (h + of_nat j) = alone p img (h + of_nat j)" if "j < 16" for j
      using alone_at [OF assms(1) f] that by blast
    have "read_bytes m h 16 = read_bytes (alone p img) h 16" by (rule read_bytes_cong) (rule same)
    from load32_same [OF this, of 0] load32_same [OF this, of 4] load32_same [OF this, of 8] load32_same [OF this, of 12]
    show ?thesis by (simp add: is_header_def)
  qed
  then have "List.find (is_header m) (header_slots (unat p) ((length img - 8) div 8)) =
      List.find (is_header (alone p img)) (header_slots (unat p) ((length img - 8) div 8))"
    by (intro find_cong)
  then show ?thesis
    unfolding mbi2_header_find_def
    using header_loop_first [OF assms(2), of m] header_loop_first [OF assms(2), of "alone p img"] by simp
qed

section \<open>The memory the boot loader leaves\<close>

text \<open>
  The Multiboot1 information lists the modules \<open>ms\<close>, each with its contents and its command line, and
  the search finds the block for them and the extra space; nothing that is still needed lies there.
\<close>

definition room_of :: "module_image list \<Rightarrow> nat" where
  "room_of ms = offset_of 0x4000 ms (length ms)"

definition boot_layout :: "mem \<Rightarrow> u32 \<Rightarrow> u64 \<Rightarrow> module_image list \<Rightarrow> u32 \<Rightarrow> bool" where
  "boot_layout m mbi phys_max ms block \<longleftrightarrow> (let mods = mbi_mods_addr m mbi in
     mbi_flags m mbi AND MBI_FLAG_MODS \<noteq> 0 \<and> ms \<noteq> [] \<and> unat (mbi_mods_count m mbi) = length ms
     \<and> mbi_find_memory m mbi (of_nat (room_of ms)) True phys_max = Some (Some block) \<and> unat block + room_of ms + 16 < 2 ^ 32
     \<and> ready m mods ms (length ms) block (room_of ms) \<and> (\<forall>i<length ms. mod_end m (module_ptr mods i) \<le> block)
     \<and> fits mbi 52 \<and> apart mbi 52 mods (16 * length ms) \<and> apart mbi 52 block (room_of ms))"

text \<open>
  The memory once the modules are moved and the first is popped: the information has the command line
  of the first module and lists the others, and all modules lie in the block, in their order.
\<close>

definition arranged :: "mem \<Rightarrow> u32 \<Rightarrow> u32 \<Rightarrow> module_image list \<Rightarrow> u32 \<Rightarrow> bool" where
  "arranged m mbi mods ms block \<longleftrightarrow> mbi_flags m mbi AND MBI_FLAG_CMDLINE \<noteq> 0 \<and> mbi_cmdline m mbi = mod_string m mods
     \<and> mbi_mods_addr m mbi = mods + 16 \<and> unat (mbi_mods_count m mbi) = length ms - 1
     \<and> (\<forall>i<length ms. placed m mods 0x4000 ms block i)"

text \<open>The information gives the kernel its command line and the modules after it.\<close>

definition describes :: "mem \<Rightarrow> u32 \<Rightarrow> u8 list \<Rightarrow> module_image list \<Rightarrow> bool" where
  "describes m mbi name ms \<longleftrightarrow> mbi_flags m mbi AND MBI_FLAG_CMDLINE \<noteq> 0 \<and> cstr m (mbi_cmdline m mbi) name
     \<and> unat (mbi_mods_count m mbi) = length ms \<and> (\<forall>i<length ms. module_at m (module_ptr (mbi_mods_addr m mbi) i) (ms ! i))"

lemma module_ptr_next: "module_ptr (mods + 16) i = module_ptr mods (Suc i)"
  by (simp add: module_ptr_def algebra_simps)

lemma arranged_describes:
  assumes "arranged m mbi mods ((img, name) # rest) block"
  shows "describes m mbi name rest" "read_bytes m (block + 0x4000) (length img) = img"
proof -
  let ?ms = "(img, name) # rest"
  have p: "placed m mods 0x4000 ?ms block i" if "i < Suc (length rest)" for i using assms that by (simp add: arranged_def)
  have "module_ptr mods 0 = mods" by (simp add: module_ptr_def)
  then have k: "module_at m mods (img, name)" "mod_start m mods = block + 0x4000" using p [of 0] by (simp_all add: placed_def Let_def)
  have "module_at m (module_ptr mods (Suc i)) (rest ! i)" if "i < length rest" for i
    using p [of "Suc i"] that by (simp add: placed_def Let_def)
  then show "describes m mbi name rest" using assms k(1) by (simp add: describes_def arranged_def module_at_def module_ptr_next)
  show "read_bytes m (block + 0x4000) (length img) = img" using k by (simp add: module_at_def)
qed

lemma room_between: "i < length ms \<Longrightarrow> 0x4000 \<le> offset_of 0x4000 ms i \<and> offset_of 0x4000 ms (Suc i) \<le> room_of ms"
  using offset_of_mono [of 0 i ms "0x4000"] offset_of_mono [of "Suc i" "length ms" ms "0x4000"] by (simp add: room_of_def)

text \<open>It stays as it is in a memory that is the same in the information, the array and the block behind the extra space.\<close>

lemma arranged_kept:
  assumes "arranged m mbi mods ms block" and "ms \<noteq> []"
    and frame: "\<And>a. in_region mbi 28 a \<or> in_region mods (16 * length ms) a
      \<or> unat block + 0x4000 \<le> unat a \<and> unat a < unat block + room_of ms \<Longrightarrow> m' a = m a"
    and "fits mbi 28" and arr: "fits mods (16 * length ms)" and room: "unat block + room_of ms < 2 ^ 32"
  shows "arranged m' mbi mods ms block"
proof -
  have info: "read_bytes m' mbi 28 = read_bytes m mbi 28"
    by (rule read_bytes_cong, rule frame)
      (use in_region_offset [OF assms(4)] in_region_nat [OF assms(4)] in auto)
  have fields: "mbi_flags m' mbi = mbi_flags m mbi" "mbi_cmdline m' mbi = mbi_cmdline m mbi"
    "mbi_mods_count m' mbi = mbi_mods_count m mbi" "mbi_mods_addr m' mbi = mbi_mods_addr m mbi"
    using load32_same [OF info, of 0] load32_same [OF info, of 16] load32_same [OF info, of 20] load32_same [OF info, of 24]
    by (simp_all add: mbi_flags_def mbi_cmdline_def mbi_mods_count_def mbi_mods_addr_def)
  have entry: "in_region mods (16 * length ms) a" if "in_region (module_ptr mods i) 12 a" "i < length ms" for i a
    using that unat_module_ptr [OF arr that(2)] in_region_nat [OF module_ptr_fits [OF arr that(2)]] in_region_nat [OF arr] by auto
  have placed: "placed m' mods 0x4000 ms block i" if i: "i < length ms" for i
  proof (rule placed_same)
    show "placed m mods 0x4000 ms block i" "i < length ms" using assms(1) i by (simp_all add: arranged_def)
    show "fits mods (16 * Suc i)" using arr i by (simp add: fits_def)
    show "unat block + offset_of 0x4000 ms (Suc i) < 2 ^ 32" using room room_between [OF i] by linarith
    show "m' a = m a" if "unat block + offset_of 0x4000 ms i \<le> unat a \<and> unat a < unat block + offset_of 0x4000 ms (Suc i)
        \<or> in_region (module_ptr mods i) 12 a" for a
      by (rule frame) (use that room_between [OF i] entry [OF _ i] in auto)
  qed
  have "mod_string m' (module_ptr mods 0) = mod_string m (module_ptr mods 0)"
  proof -
    have "read_bytes m' (module_ptr mods 0) 12 = read_bytes m (module_ptr mods 0) 12"
    proof (rule read_bytes_cong)
      fix i assume i: "i < (12::nat)"
      have f: "fits (module_ptr mods 0) 12" using module_ptr_fits [OF arr] assms(2) by simp
      have "in_region (module_ptr mods 0) 12 (module_ptr mods 0 + of_nat i)"
        using in_region_offset [OF f i] in_region_nat [OF f] i by simp
      then show "m' (module_ptr mods 0 + of_nat i) = m (module_ptr mods 0 + of_nat i)"
        using frame entry [of 0] assms(2) by simp
    qed
    then show ?thesis by (rule mod_same)
  qed
  then show ?thesis using assms(1) placed by (simp add: arranged_def fields module_ptr_def)
qed

lemma named_fields:
  assumes "fits mbi 28"
  shows "mbi_flags (named mbi md m) mbi = mbi_flags m mbi OR MBI_FLAG_CMDLINE" "mbi_cmdline (named mbi md m) mbi = bm_string md"
    "mbi_mods_count (named mbi md m) mbi = mbi_mods_count m mbi" "mbi_mods_addr (named mbi md m) mbi = mbi_mods_addr m mbi"
    "\<not> in_region mbi 28 a \<Longrightarrow> named mbi md m a = m a"
proof -
  let ?m1 = "store32 m (mbi + 16) (bm_string md)"
  have u: "unat (mbi + of_nat k) = unat mbi + k" if "k < 28" for k
    by (rule unat_add_of_nat) (use assms that in \<open>simp add: fits_def\<close>)
  have f: "fits (mbi + of_nat k) 4" if "k \<le> 24" for k using assms u [of k] that by (simp add: fits_def)
  have other: "load32 (store32 n (mbi + of_nat k) v) (mbi + of_nat j) = load32 n (mbi + of_nat j)"
    if "k + 4 \<le> j \<or> j + 4 \<le> k" "k \<le> 24" "j \<le> 24" for n k j v
    by (rule load32_store32_other) (use that u [of k] u [of j] f in \<open>auto simp: apart_def\<close>)
  have n: "named mbi md m = store32 ?m1 mbi (mbi_flags m mbi OR MBI_FLAG_CMDLINE)"
    using other [of 16 0 m] by (simp add: named_def Let_def mbi_flags_def)
  show "mbi_flags (named mbi md m) mbi = mbi_flags m mbi OR MBI_FLAG_CMDLINE"
    by (simp add: n mbi_flags_def mem_simps)
  show "mbi_cmdline (named mbi md m) mbi = bm_string md" "mbi_mods_count (named mbi md m) mbi = mbi_mods_count m mbi"
    "mbi_mods_addr (named mbi md m) mbi = mbi_mods_addr m mbi"
    using other [of 0 16 ?m1] other [of 0 20 ?m1] other [of 0 24 ?m1] other [of 16 20 m] other [of 16 24 m]
    by (simp_all add: n mbi_cmdline_def mbi_mods_count_def mbi_mods_addr_def mem_simps)
  show "named mbi md m a = m a" if "\<not> in_region mbi 28 a"
  proof -
    have g: "fits mbi 4" "fits (mbi + 16) 4" "unat (mbi + 16) = unat mbi + 16" using f [of 0] f [of 16] u [of 16] by simp_all
    have "\<not> in_region mbi 4 a" "\<not> in_region (mbi + 16) 4 a"
      using that unfolding in_region_nat [OF assms] in_region_nat [OF g(1)] in_region_nat [OF g(2)] g(3) by linarith+
    then show ?thesis using g by (simp add: n store32_outside)
  qed
qed

text \<open>What may change before the information is converted.\<close>

definition settled :: "u32 \<Rightarrow> u32 \<Rightarrow> module_image list \<Rightarrow> u32 \<Rightarrow> u32 \<Rightarrow> bool" where
  "settled mbi mods ms block a \<longleftrightarrow> \<not> in_region mbi 28 a \<and> \<not> in_region mods (16 * length ms) a \<and> \<not> in_region block (room_of ms) a"

lemma layout_D:
  assumes "boot_layout m mbi phys_max ms block" and "mbi_mods_addr m mbi = mods"
  shows "has_module m mbi" "mbi_flags m mbi AND MBI_FLAG_MODS \<noteq> 0" "ms \<noteq> []" "unat (mbi_mods_count m mbi) = length ms"
    "mbi_find_memory m mbi (of_nat (room_of ms)) True phys_max = Some (Some block)"
    "unat block + room_of ms + 16 < 2 ^ 32" "ready m mods ms (length ms) block (room_of ms)"
    "\<forall>i<length ms. mod_end m (module_ptr mods i) \<le> block" "fits mbi 52" "fits mbi 28" "apart mbi 52 mods (16 * length ms)"
    "apart mbi 52 block (room_of ms)" "fits mods (16 * length ms)" "apart block (room_of ms) mods (16 * length ms)"
    "fits block (room_of ms)" "0x4000 \<le> room_of ms" "length (fst (ms ! 0)) + 0x4000 \<le> room_of ms"
proof -
  note l = assms(1) [unfolded boot_layout_def Let_def assms(2)]
  show "mbi_flags m mbi AND MBI_FLAG_MODS \<noteq> 0" "ms \<noteq> []" "unat (mbi_mods_count m mbi) = length ms"
    "mbi_find_memory m mbi (of_nat (room_of ms)) True phys_max = Some (Some block)"
    "unat block + room_of ms + 16 < 2 ^ 32" and rdy: "ready m mods ms (length ms) block (room_of ms)"
    and "\<forall>i<length ms. mod_end m (module_ptr mods i) \<le> block" "fits mbi 52" "apart mbi 52 mods (16 * length ms)"
    "apart mbi 52 block (room_of ms)" using l by blast+
  then show "has_module m mbi" "fits mbi 28" "fits block (room_of ms)" by (auto simp: has_module_def fits_def)
  show "fits mods (16 * length ms)" "apart block (room_of ms) mods (16 * length ms)" using rdy by (simp_all add: ready_def)
  have n: "0 < length ms" using \<open>ms \<noteq> []\<close> by simp
  show "0x4000 \<le> room_of ms" "length (fst (ms ! 0)) + 0x4000 \<le> room_of ms"
    using room_between [OF n] offset_of_Suc [OF n, of "0x4000"] mod_room_ge [of "ms ! 0"] by simp_all
qed

lemma reaches_kernel:
  assumes "boot_layout (ram s) mbi phys_max ms block" and "mbi_mods_addr (ram s) mbi = mods"
  shows "\<exists>s1 md s2. mbi_relocate_modules mbi phys_max mbi2_extra_space_needed s = Some (Inr (ucast block, s1))
    \<and> mbi_pop_module mbi s1 = Some (Inr (md, s2)) \<and> bm_start md = block + 0x4000
    \<and> bm_end md - bm_start md = of_nat (length (fst (ms ! 0))) \<and> arranged (named mbi md (ram s2)) mbi mods ms block
    \<and> mbi_flags (named mbi md (ram s2)) mbi = mbi_flags (ram s) mbi OR MBI_FLAG_CMDLINE
    \<and> (\<forall>a. settled mbi mods ms block a \<longrightarrow> named mbi md (ram s2) a = ram s a)"
proof -
  note L = layout_D [OF assms]
  have e: "unat mbi2_extra_space_needed = 0x4000" by (simp add: extra_is)
  obtain s1 where s1: "mbi_relocate_modules mbi phys_max mbi2_extra_space_needed s = Some (Inr (ucast block, s1))"
    "\<forall>i<length ms. placed (ram s1) mods 0x4000 ms block i"
    "\<forall>a. untouched mods 0x4000 ms block (length ms) a \<longrightarrow> ram s1 a = ram s a"
    using relocate_result [of s mbi ms mbi2_extra_space_needed phys_max block] L(4-8)
    unfolding assms(2) e room_of_def by auto
  have sub: "in_region mods (16 * length ms) a" if "in_region (module_ptr mods i) 12 a" "i < length ms" for i a
    using that unat_module_ptr [OF L(13) that(2)] in_region_nat [OF module_ptr_fits [OF L(13) that(2)]] in_region_nat [OF L(13)] by auto
  have frame1: "ram s1 a = ram s a" if "\<not> in_region mods (16 * length ms) a" "\<not> in_region block (room_of ms) a" for a
  proof -
    have u: "unat (block + of_nat 0x4000) = unat block + 0x4000" by (rule unat_add_of_nat) (use L(6,16) in simp)
    have g: "fits (block + of_nat 0x4000) (room_of ms - 0x4000)" using u L(6,16) by (simp add: fits_def)
    have "\<not> in_region (block + of_nat 0x4000) (room_of ms - 0x4000) a"
      using that(2) L(16) unfolding in_region_nat [OF L(15)] in_region_nat [OF g] u by linarith
    then have "untouched mods 0x4000 ms block (length ms) a" using that(1) sub by (auto simp: untouched_def room_of_def)
    then show ?thesis using s1(3) by blast
  qed
  have info: "read_bytes (ram s1) mbi 28 = read_bytes (ram s) mbi 28"
  proof (rule read_bytes_cong, rule frame1)
    fix i assume "i < (28::nat)"
    then show "\<not> in_region mods (16 * length ms) (mbi + of_nat i)" "\<not> in_region block (room_of ms) (mbi + of_nat i)"
      using apart_not_in_region [OF _ L(13) L(9)] apart_not_in_region [OF _ L(15) L(9)] L(11,12) by (simp_all add: apart_sym)
  qed
  have f1: "mbi_flags (ram s1) mbi = mbi_flags (ram s) mbi" "mbi_mods_count (ram s1) mbi = mbi_mods_count (ram s) mbi"
    "mbi_mods_addr (ram s1) mbi = mods"
    using load32_same [OF info, of 0] load32_same [OF info, of 20] load32_same [OF info, of 24] assms(2)
    by (simp_all add: mbi_flags_def mbi_mods_count_def mbi_mods_addr_def)
  have n: "0 < length ms" and c: "mbi_mods_count (ram s) mbi \<noteq> 0" using L(3,4) by auto
  have g16: "apart mbi 28 mods 16" "fits mods 16" using L(11,13) n unfolding apart_def fits_def by linarith+
  obtain md s2 where s2: "mbi_pop_module mbi s1 = Some (Inr (md, s2))" "bm_start md = mod_start (ram s1) mods"
    "bm_end md = mod_end (ram s1) mods" "bm_string md = mod_string (ram s1) mods"
    "mbi_mods_count (ram s2) mbi = mbi_mods_count (ram s) mbi - 1"
    "\<forall>i. module_ptr (mbi_mods_addr (ram s2) mbi) i = module_ptr mods (Suc i)"
    "\<forall>a. \<not> in_region (mbi + 20) 8 a \<longrightarrow> ram s2 a = ram s1 a"
    using pop_result [of mbi s1] g16 L(10) c unfolding f1 by auto
  let ?m = "named mbi md (ram s2)"
  note F = named_fields [OF L(10), where md = md and m = "ram s2"]
  have "mbi + 20 = mbi + of_nat 20" by simp
  have u20: "unat (mbi + 20) = unat mbi + 20" using unat_add_of_nat [of mbi 20] L(10) by (simp add: fits_def)
  have g20: "fits (mbi + 20) 8" "fits mbi 4" using u20 L(10) by (simp_all add: fits_def)
  have frame2: "?m a = ram s1 a" if "\<not> in_region mbi 28 a" for a
  proof -
    have "\<not> in_region (mbi + 20) 8 a" using that unfolding in_region_nat [OF g20(1)] in_region_nat [OF L(10)] u20 by linarith
    then show ?thesis using F(5) [OF that] s2(7) by simp
  qed
  have "ms \<noteq> []" by (rule L(3))
  have start: "mod_start (ram s1) mods = block + 0x4000" "mod_end (ram s1) mods = block + 0x4000 + of_nat (length (fst (ms ! 0)))"
    using s1(2) [rule_format, OF n] by (simp_all add: placed_def Let_def module_at_def module_ptr_def)
  have "placed ?m mods 0x4000 ms block i" if i: "i < length ms" for i
  proof (rule placed_same)
    show "placed (ram s1) mods 0x4000 ms block i" "i < length ms" using s1(2) i by simp_all
    show "fits mods (16 * Suc i)" using L(13) i by (simp add: fits_def)
    show "unat block + offset_of 0x4000 ms (Suc i) < 2 ^ 32" using L(6) room_between [OF i] by linarith
    show "?m a = ram s1 a" if "unat block + offset_of 0x4000 ms i \<le> unat a \<and> unat a < unat block + offset_of 0x4000 ms (Suc i)
        \<or> in_region (module_ptr mods i) 12 a" for a
    proof (rule frame2)
      show "\<not> in_region mbi 28 a"
        using that sub [of i a] i room_between [OF i] L(11,12) unfolding in_region_nat [OF L(10)] in_region_nat [OF L(13)] apart_def
        by auto
    qed
  qed
  moreover have "read_bytes ?m mods 12 = read_bytes (ram s1) mods 12"
  proof (rule read_bytes_cong, rule frame2)
    fix i assume "i < (12::nat)"
    then show "\<not> in_region mbi 28 (mods + of_nat i)"
      using apart_not_in_region [OF g16(1) L(10) g16(2), of i] by simp
  qed
  then have "mod_string ?m mods = bm_string md" unfolding s2(4) by (rule mod_same)
  moreover have "mbi_mods_addr ?m mbi = mods + 16" using s2(6) [rule_format, of 0] F(4) by (simp add: module_ptr_def)
  moreover have "unat (mbi_mods_count ?m mbi) = length ms - 1" using F(3) s2(5) c L(4) by (simp add: unat_minus_one)
  moreover have flags: "mbi_flags ?m mbi = mbi_flags (ram s) mbi OR MBI_FLAG_CMDLINE"
  proof -
    have "load32 (ram s2) mbi = load32 (ram s1) mbi"
      unfolding load32_def
    proof (rule arg_cong [OF read_bytes_cong])
      fix i assume "i < (4::nat)"
      then have "\<not> in_region (mbi + 20) 8 (mbi + of_nat i)"
        using apart_not_in_region [OF _ g20] u20 by (simp add: apart_def)
      then show "ram s2 (mbi + of_nat i) = ram s1 (mbi + of_nat i)" using s2(7) by simp
    qed
    then show ?thesis using F(1) f1(1) by (simp add: mbi_flags_def)
  qed
  moreover have "mbi_flags ?m mbi AND MBI_FLAG_CMDLINE \<noteq> 0" by (rule named_cmdline)
  ultimately have "arranged ?m mbi mods ms block" using F(2) by (simp add: arranged_def)
  moreover have "\<forall>a. settled mbi mods ms block a \<longrightarrow> ?m a = ram s a" using frame1 frame2 by (simp add: settled_def)
  ultimately show ?thesis using s1(1) s2(1-3) start flags by auto
qed

section \<open>Entering the kernel\<close>

text \<open>The generated code overwrites nothing that the kernel is told about.\<close>

definition code_clear :: "mem \<Rightarrow> u32 \<Rightarrow> module_image list \<Rightarrow> u32 \<Rightarrow> nat \<Rightarrow> bool" where
  "code_clear m mbi ms block n \<longleftrightarrow> fits 0x7C00 n \<and> apart 0x7C00 n mbi 28 \<and> apart 0x7C00 n (mbi_mods_addr m mbi) (16 * length ms)
     \<and> apart 0x7C00 n block (room_of ms)"

text \<open>What the kernel finds: its own file, its command line and the other modules, which the information lists.\<close>

lemma arranged_booted:
  assumes l: "boot_layout (ram s) mbi phys_max ((img, name) # rest) block" and c: "code_clear (ram s) mbi ((img, name) # rest) block n"
    and a: "arranged m mbi (mbi_mods_addr (ram s) mbi) ((img, name) # rest) block"
    and frame: "\<forall>a. \<not> in_region 0x7C00 n a \<and> \<not> in_region block 0x4000 a \<longrightarrow> m' a = m a"
  shows "describes m' mbi name rest" "read_bytes m' (block + 0x4000) (length img) = img"
proof -
  let ?ms = "(img, name) # rest"
  note L = layout_D [OF l refl]
  have f: "fits 0x7C00 n" "apart 0x7C00 n mbi 28" "apart 0x7C00 n (mbi_mods_addr (ram s) mbi) (16 * length ?ms)"
    "apart 0x7C00 n block (room_of ?ms)" using c by (simp_all add: code_clear_def)
  have g: "fits block 0x4000" using L(6,16) by (simp add: fits_def)
  have "m' a = m a" if "in_region mbi 28 a \<or> in_region (mbi_mods_addr (ram s) mbi) (16 * length ?ms) a
      \<or> unat block + 0x4000 \<le> unat a \<and> unat a < unat block + room_of ?ms" for a
  proof -
    have "\<not> in_region 0x7C00 n a"
      using that f(2-4) unfolding in_region_nat [OF f(1)] in_region_nat [OF L(10)] in_region_nat [OF L(13)] apart_def by linarith
    moreover have "\<not> in_region block 0x4000 a"
      using that L(11,12,14,16) unfolding in_region_nat [OF g] in_region_nat [OF L(10)] in_region_nat [OF L(13)] apart_def by linarith
    ultimately show ?thesis using frame by blast
  qed
  from arranged_kept [OF a L(3) this L(10,13)] L(6) have "arranged m' mbi (mbi_mods_addr (ram s) mbi) ?ms block" by simp
  then show "describes m' mbi name rest" "read_bytes m' (block + 0x4000) (length img) = img"
    by (rule arranged_describes)+
qed

lemma kernel_reached:
  assumes l: "boot_layout (ram s) mbi phys_max ((img, name) # rest) block" and k: "kernel_file cls img (block + 0x4000)"
  shows "\<exists>s1 md s2 m. mbi_relocate_modules mbi phys_max mbi2_extra_space_needed s = Some (Inr (ucast block, s1))
    \<and> mbi_pop_module mbi s1 = Some (Inr (md, s2)) \<and> bm_start md = block + 0x4000 \<and> named mbi md (ram s2) = m
    \<and> mbi2_header_find m (bm_start md) (bm_end md - bm_start md)
        = mbi2_header_find (alone (block + 0x4000) img) (block + 0x4000) (of_nat (length img))
    \<and> bootable cls m (block + 0x4000) \<and> arranged m mbi (mbi_mods_addr (ram s) mbi) ((img, name) # rest) block
    \<and> read_bytes m (block + 0x4000) (length img) = img
    \<and> mbi_flags m mbi = mbi_flags (ram s) mbi OR MBI_FLAG_CMDLINE
    \<and> (\<forall>a. settled mbi (mbi_mods_addr (ram s) mbi) ((img, name) # rest) block a \<longrightarrow> m a = ram s a)"
proof -
  note L = layout_D [OF l refl]
  obtain s1 md s2 where r: "mbi_relocate_modules mbi phys_max mbi2_extra_space_needed s = Some (Inr (ucast block, s1))"
    "mbi_pop_module mbi s1 = Some (Inr (md, s2))" "bm_start md = block + 0x4000" "bm_end md - bm_start md = of_nat (length img)"
    "arranged (named mbi md (ram s2)) mbi (mbi_mods_addr (ram s) mbi) ((img, name) # rest) block"
    "mbi_flags (named mbi md (ram s2)) mbi = mbi_flags (ram s) mbi OR MBI_FLAG_CMDLINE"
    "\<forall>a. settled mbi (mbi_mods_addr (ram s) mbi) ((img, name) # rest) block a \<longrightarrow> named mbi md (ram s2) a = ram s a"
    using reaches_kernel [OF l refl] by (elim exE conjE) (simp only: nth_Cons_0 fst_conv)
  note img = arranged_describes(2) [OF r(5)]
  have "unat (block + 0x4000) = unat block + 0x4000"
    using unat_add_of_nat [of block "0x4000"] L(6,16) by simp
  then have "unat (block + 0x4000) + length img + 16 < 2 ^ 32" using L(6,17) by simp
  note h = header_found [OF img this]
  show ?thesis
    by (intro exI [of _ s1] exI [of _ md] exI [of _ s2] exI [of _ "named mbi md (ram s2)"] conjI)
      (use r h img kernel_found(1) [OF k img] in simp_all)
qed

lemma boot_mbi1_result:
  assumes "boot_layout (ram s) mbi phys_max ((img, name) # rest) block"
    and "kernel_file cls img (block + 0x4000)"
    and "mbi2_header_find (alone (block + 0x4000) img) (block + 0x4000) (of_nat (length img)) = Some 0"
    and "code_clear (ram s) mbi ((img, name) # rest) block (code_size cls (alone (block + 0x4000) img) (block + 0x4000))"
  shows "\<exists>s'. start_module mbi phys_max s = Some (Inr (Jump 0 0x7C00 mbi, s'))
    \<and> enters cls (alone (block + 0x4000) img) (block + 0x4000) MBI_MAGIC mbi (ram s')
    \<and> read_bytes (ram s') (block + 0x4000) (length img) = img \<and> describes (ram s') mbi name rest
    \<and> (\<forall>a. settled mbi (mbi_mods_addr (ram s) mbi) ((img, name) # rest) block a
        \<and> \<not> in_region 0x7C00 (code_size cls (alone (block + 0x4000) img) (block + 0x4000)) a \<longrightarrow> ram s' a = ram s a)"
proof -
  let ?k = "block + 0x4000"
  obtain s1 md s2 m where r: "mbi_relocate_modules mbi phys_max mbi2_extra_space_needed s = Some (Inr (ucast block, s1))"
    "mbi_pop_module mbi s1 = Some (Inr (md, s2))" "bm_start md = ?k" "named mbi md (ram s2) = m"
    "mbi2_header_find m (bm_start md) (bm_end md - bm_start md) = mbi2_header_find (alone ?k img) ?k (of_nat (length img))"
    "bootable cls m ?k" "arranged m mbi (mbi_mods_addr (ram s) mbi) ((img, name) # rest) block"
    "read_bytes m ?k (length img) = img"
    "\<forall>a. settled mbi (mbi_mods_addr (ram s) mbi) ((img, name) # rest) block a \<longrightarrow> m a = ram s a"
    using kernel_reached [OF assms(1,2)] by (elim exE conjE)
  note found = kernel_found [OF assms(2) r(8)]
  have "has_module (ram s) mbi" by (rule layout_D(1) [OF assms(1) refl])
  from boots_mbi1_result [OF this r(1,2,4) _ r(6) [folded r(3)]] r(5) assms(3) obtain s' where
    s': "start_module mbi phys_max s = Some (Inr (Jump 0 0x7C00 mbi, s'))"
    "\<forall>a. \<not> in_region 0x7C00 (code_size cls (alone ?k img) ?k) a \<longrightarrow> ram s' a = m a"
    "enters cls (alone ?k img) ?k MBI_MAGIC mbi (ram s')"
    by (auto simp only: r(3) found(2,3))
  have "\<forall>a. \<not> in_region 0x7C00 (code_size cls (alone ?k img) ?k) a \<and> \<not> in_region block 0x4000 a \<longrightarrow> ram s' a = m a" using s'(2) by blast
  note found' = arranged_booted [OF assms(1,4) r(7) this]
  show ?thesis
    by (intro exI [of _ s'] conjI s'(1,3) found' allI impI) (use s'(2) r(9) in simp)
qed

text \<open>
  C5. A first module without a Multiboot2 header is started as a Multiboot1 kernel: for modules of whatever
  number and contents that the boot loader has left outside the block found for them, start_module
  ends with a jump to 0x7C00 with the Multiboot1 information in EBX, and the code there loads the
  program segments out of the file of the first module, which now lies behind the extra space, and enters the kernel with the
  Multiboot1 magic number. The information then gives the kernel its own command line and lists the other
  modules, in their order, with their contents and command lines. Outside the information, the module array, the block and the
  code memory is as it was.
\<close>

theorem boot_first_module_mbi1:
  assumes "boot_layout (ram s) mbi phys_max ((img, name) # rest) block"
    and "kernel_file cls img (block + 0x4000)"
    and "mbi2_header_find (alone (block + 0x4000) img) (block + 0x4000) (of_nat (length img)) = Some 0"
    and "code_clear (ram s) mbi ((img, name) # rest) block (code_size cls (alone (block + 0x4000) img) (block + 0x4000))"
  shows "\<exists>s'. start_module mbi phys_max s = Some (Inr (Jump 0 0x7C00 mbi, s'))
    \<and> enters cls (alone (block + 0x4000) img) (block + 0x4000) MBI_MAGIC mbi (ram s')
    \<and> read_bytes (ram s') (block + 0x4000) (length img) = img \<and> describes (ram s') mbi name rest
    \<and> (\<forall>a. settled mbi (mbi_mods_addr (ram s) mbi) ((img, name) # rest) block a
        \<and> \<not> in_region 0x7C00 (code_size cls (alone (block + 0x4000) img) (block + 0x4000)) a \<longrightarrow> ram s' a = ram s a)"
  using assms by (rule boot_mbi1_result)

section \<open>The Multiboot2 information of the kernel\<close>

text \<open>What the tags are built from and the relocation leaves alone.\<close>

definition spared :: "mem \<Rightarrow> u32 \<Rightarrow> module_image list \<Rightarrow> u32 \<Rightarrow> u32 \<Rightarrow> nat \<Rightarrow> bool" where
  "spared m mbi ms block p n \<longleftrightarrow> fits p n \<and> apart mbi 28 p n \<and> apart (mbi_mods_addr m mbi) (16 * length ms) p n
     \<and> apart block (room_of ms) p n"

definition boot_sources :: "mem \<Rightarrow> u32 \<Rightarrow> module_image list \<Rightarrow> u32 \<Rightarrow> u32 list \<Rightarrow> u32 \<Rightarrow> bool" where
  "boot_sources m mbi ms block ps rsdp \<longleftrightarrow>
     (mbi_flags m mbi AND MBI_FLAG_MEM \<noteq> 0 \<longrightarrow>
        mmap_chain m (mbi_mmap_addr m mbi + mbi_mmap_length m mbi) (mbi_mmap_addr m mbi) ps \<and> (\<forall>p\<in>set ps. spared m mbi ms block p 24))
     \<and> acpi_get_rsdp m = Some rsdp \<and> spared m mbi ms block 0x400 0x404 \<and> spared m mbi ms block 0xe0000 0x20004
     \<and> (rsdp \<noteq> 0 \<longrightarrow> spared m mbi ms block rsdp 24 \<and> spared m mbi ms block rsdp (unat (rsdp_length m rsdp))
          \<and> unat (rsdp_length m rsdp) + 16 < 2 ^ 32)"

text \<open>The tags of the information, over the memory before the call.\<close>

definition moved_tag :: "module_image list \<Rightarrow> u32 \<Rightarrow> nat \<Rightarrow> tag" where
  "moved_tag ms block i = (MBI2_TAG_MODULE,
     mod_image (block + of_nat (offset_of 0x4000 ms i)) (block + of_nat (offset_of 0x4000 ms i) + of_nat (length (fst (ms ! i))))
     @ snd (ms ! i) @ [0])"

definition kernel_tags :: "mem \<Rightarrow> u32 \<Rightarrow> module_image list \<Rightarrow> u32 \<Rightarrow> u32 list \<Rightarrow> u32 \<Rightarrow> tag list" where
  "kernel_tags m mbi ms block ps rsdp = [(MBI2_TAG_CMDLINE, snd (ms ! 0) @ [0])] @ memory_tags m mbi ps
     @ map (moved_tag ms block) [1..<length ms] @ rsdp_tags m rsdp"

lemma spared_source:
  assumes "spared m mbi ms block p n" and "unat block + room_of ms < 2 ^ 32" and "0x4000 \<le> room_of ms"
  shows "source (builder_at block 0x4000) p n"
proof -
  have "unat (block + 0x4000) = unat block + 0x4000" using unat_add_of_nat [of block "0x4000"] assms(2,3) by simp
  then show ?thesis using assms(1,3) unfolding spared_def source_def apart_def by auto
qed

lemma spared_same:
  assumes "spared m0 mbi ms block p n" and "fits mbi 28" and "fits (mbi_mods_addr m0 mbi) (16 * length ms)" and "fits block (room_of ms)"
    and frame: "\<forall>a. settled mbi (mbi_mods_addr m0 mbi) ms block a \<longrightarrow> m a = m0 a"
  shows "read_bytes m p n = read_bytes m0 p n"
proof (rule read_bytes_cong)
  fix i assume "i < n"
  then have "settled mbi (mbi_mods_addr m0 mbi) ms block (p + of_nat i)"
    using apart_not_in_region [OF _ assms(2)] apart_not_in_region [OF _ assms(3)] apart_not_in_region [OF _ assms(4)] assms(1)
    unfolding settled_def spared_def by blast
  then show "m (p + of_nat i) = m0 (p + of_nat i)" using frame by blast
qed

lemma flag_kept:
  assumes "(c :: u32) AND MBI_FLAG_CMDLINE = 0"
  shows "(x OR MBI_FLAG_CMDLINE) AND c = x AND c"
  using assms bit.conj_disj_distrib2 [of x MBI_FLAG_CMDLINE c] by (simp add: and.commute)

text \<open>The module \<open>i\<close> of the list is the module \<open>Suc i\<close> of the boot loader.\<close>

lemma arranged_module:
  assumes l: "boot_layout m0 mbi phys_max ms block" "mbi_mods_addr m0 mbi = mods" and a: "arranged m mbi mods ms block" and i: "Suc i < length ms"
  shows "mod_start m (module_ptr (mods + 16) i) = block + of_nat (offset_of 0x4000 ms (Suc i))"
    "mod_end m (module_ptr (mods + 16) i) = block + of_nat (offset_of 0x4000 ms (Suc i)) + of_nat (length (fst (ms ! Suc i)))"
    "source (builder_at block 0x4000) (module_ptr (mods + 16) i) 12"
proof -
  note L = layout_D [OF l]
  have p: "placed m mods 0x4000 ms block (Suc i)" using a i by (simp add: arranged_def)
  then show start: "mod_start m (module_ptr (mods + 16) i) = block + of_nat (offset_of 0x4000 ms (Suc i))"
    and "mod_end m (module_ptr (mods + 16) i) = block + of_nat (offset_of 0x4000 ms (Suc i)) + of_nat (length (fst (ms ! Suc i)))"
    by (simp_all add: placed_def Let_def module_at_def module_ptr_next)
  have "unat (block + 0x4000) = unat block + 0x4000" using unat_add_of_nat [of block "0x4000"] L(6,16) by simp
  then show "source (builder_at block 0x4000) (module_ptr (mods + 16) i) 12"
    using module_ptr_fits [OF L(13) i] unat_module_ptr [OF L(13) i] L(14,16) i
    unfolding module_ptr_next source_def apart_def by auto
qed

lemma arranged_string:
  assumes l: "boot_layout m0 mbi phys_max ms block" "mbi_mods_addr m0 mbi = mods" and a: "arranged m mbi mods ms block" and i: "i < length ms"
  shows "named_at (builder_at block 0x4000) m (mod_string m (module_ptr mods i)) (snd (ms ! i))"
proof -
  note L = layout_D [OF l]
  let ?p = "module_ptr mods i" and ?o = "offset_of 0x4000 ms i" and ?n = "length (fst (ms ! i))" and ?l = "Suc (length (snd (ms ! i)))"
  have p: "placed m mods 0x4000 ms block i" using a i by (simp add: arranged_def)
  then have str: "cstr m (mod_string m ?p) (snd (ms ! i))" and s: "mod_string m ?p = block + of_nat ?o + of_nat ?n"
    unfolding placed_def Let_def module_at_def by metis+
  have str2: "mod_string m ?p = block + of_nat (?o + ?n)" unfolding s by simp
  have o: "0x4000 \<le> ?o" "?o + (?n + ?l) \<le> room_of ms"
    using room_between [OF i] offset_of_Suc [OF i, of "0x4000"] mod_room_ge [of "ms ! i"] by simp_all
  have u: "unat (mod_string m ?p) = unat block + (?o + ?n)" unfolding str2 by (rule unat_add_of_nat) (use L(6) o in simp)
  have e: "unat (block + 0x4000) = unat block + 0x4000" using unat_add_of_nat [of block "0x4000"] L(6,16) by simp
  have "fits (mod_string m ?p) ?l" "apart block 0x4000 (mod_string m ?p) ?l" "length (snd (ms ! i)) + 24 < 2 ^ 32"
    using u o L(6) unfolding fits_def apart_def by linarith+
  then show ?thesis using str by (simp add: named_at_def source_def e)
qed

lemma sources_kept:
  assumes l: "boot_layout m0 mbi phys_max ms block" and src: "boot_sources m0 mbi ms block ps rsdp"
    and a: "arranged m mbi (mbi_mods_addr m0 mbi) ms block" and flags: "mbi_flags m mbi = mbi_flags m0 mbi OR MBI_FLAG_CMDLINE"
    and frame: "\<forall>a. settled mbi (mbi_mods_addr m0 mbi) ms block a \<longrightarrow> m a = m0 a"
  shows "convertible (builder_at block 0x4000) m mbi (snd (ms ! 0)) ps (map snd (tl ms)) rsdp"
    "boot_tags m mbi (snd (ms ! 0)) ps (map snd (tl ms)) rsdp = kernel_tags m0 mbi ms block ps rsdp"
proof -
  let ?mods = "mbi_mods_addr m0 mbi" and ?b = "builder_at block 0x4000"
  note L = layout_D [OF l refl]
  note same = spared_same [OF _ L(10,13,15) frame]
  have from_spared: "source ?b p n" if "spared m0 mbi ms block p n" for p n
    by (rule spared_source [OF that]) (use L(6,16) in simp_all)
  have u28: "unat (mbi + 28) = unat mbi + 28" using unat_add_of_nat [of mbi 28] L(9) by (simp add: fits_def)
  have "spared m0 mbi ms block (mbi + 28) 24"
    using u28 L(9,11,12) unfolding spared_def fits_def apart_def by simp linarith
  note rest = same [OF this]
  have mmap: "mbi_mmap_addr m mbi = mbi_mmap_addr m0 mbi" "mbi_mmap_length m mbi = mbi_mmap_length m0 mbi"
    using load32_same [OF rest, of 20] load32_same [OF rest, of 16] by (simp_all add: mbi_mmap_addr_def mbi_mmap_length_def add.commute)
  have fl: "mbi_flags m mbi AND MBI_FLAG_MEM = mbi_flags m0 mbi AND MBI_FLAG_MEM" "mbi_flags m mbi AND MBI_FLAG_MODS = mbi_flags m0 mbi AND MBI_FLAG_MODS"
    unfolding flags by (rule flag_kept, simp add: MBI_FLAG_CMDLINE_def MBI_FLAG_MEM_def MBI_FLAG_MODS_def)+
  have A: "mbi_flags m mbi AND MBI_FLAG_CMDLINE \<noteq> 0" "mbi_cmdline m mbi = mod_string m ?mods" "mbi_mods_addr m mbi = ?mods + 16"
    "unat (mbi_mods_count m mbi) = length ms - 1" using a by (simp_all add: arranged_def)
  have info: "source ?b mbi 52"
    using unat_add_of_nat [of block "0x4000"] L(6,9,12,16) unfolding source_def apart_def by simp linarith
  have cmd: "named_at ?b m (mbi_cmdline m mbi) (snd (ms ! 0))"
    using arranged_string [OF l refl a, of 0] L(3) by (simp add: A(2) module_ptr_def)
  have mem: "mmap_chain m (mbi_mmap_addr m mbi + mbi_mmap_length m mbi) (mbi_mmap_addr m mbi) ps" "\<forall>p\<in>set ps. source ?b p 24"
    "mmap_payload m ps = mmap_payload m0 ps" if "mbi_flags m0 mbi AND MBI_FLAG_MEM \<noteq> 0"
  proof -
    have s: "mmap_chain m0 (mbi_mmap_addr m0 mbi + mbi_mmap_length m0 mbi) (mbi_mmap_addr m0 mbi) ps" "\<forall>p\<in>set ps. spared m0 mbi ms block p 24"
      using src that by (simp_all add: boot_sources_def)
    then have r: "\<forall>p\<in>set ps. read_bytes m p 24 = read_bytes m0 p 24" using same by blast
    show "mmap_chain m (mbi_mmap_addr m mbi + mbi_mmap_length m mbi) (mbi_mmap_addr m mbi) ps" unfolding mmap by (rule chain_same [OF s(1) r])
    show "\<forall>p\<in>set ps. source ?b p 24" using s(2) from_spared by blast
    show "mmap_payload m ps = mmap_payload m0 ps" by (rule payload_same [OF r])
  qed
  have mods: "source ?b (module_ptr (mbi_mods_addr m mbi) i) 12
      \<and> named_at ?b m (mod_string m (module_ptr (mbi_mods_addr m mbi) i)) (map snd (tl ms) ! i)"
    "module_tag m (mbi_mods_addr m mbi) (map snd (tl ms)) i = moved_tag ms block (Suc i)" if "i < length ms - 1" for i
  proof -
    have i: "Suc i < length ms" "map snd (tl ms) ! i = snd (ms ! Suc i)" using that by (simp_all add: nth_tl)
    note am = arranged_module [OF l refl a i(1)]
    show "source ?b (module_ptr (mbi_mods_addr m mbi) i) 12
        \<and> named_at ?b m (mod_string m (module_ptr (mbi_mods_addr m mbi) i)) (map snd (tl ms) ! i)"
      using am(3) arranged_string [OF l refl a i(1)] unfolding A(3) i(2) by (simp add: module_ptr_next)
    show "module_tag m (mbi_mods_addr m mbi) (map snd (tl ms)) i = moved_tag ms block (Suc i)"
      by (simp add: module_tag_def moved_tag_def A(3) i(2) am(1,2))
  qed
  have low: "spared m0 mbi ms block 0x400 0x404" "spared m0 mbi ms block 0xe0000 0x20004" "acpi_get_rsdp m0 = Some rsdp"
    using src by (simp_all add: boot_sources_def)
  have found: "acpi_get_rsdp m = Some rsdp"
    using rsdp_found_same [OF same [OF low(1)] same [OF low(2)]] low(3) by simp
  have root: "rsdp_length m rsdp = rsdp_length m0 rsdp" "rsdp_tags m rsdp = rsdp_tags m0 rsdp" "source ?b rsdp 24"
    "source ?b rsdp (unat (rsdp_length m rsdp))" "unat (rsdp_length m rsdp) + 16 < 2 ^ 32" if "rsdp \<noteq> 0"
  proof -
    have s: "spared m0 mbi ms block rsdp 24" "spared m0 mbi ms block rsdp (unat (rsdp_length m0 rsdp))" "unat (rsdp_length m0 rsdp) + 16 < 2 ^ 32"
      using src that by (simp_all add: boot_sources_def)
    note f = rsdp_same [OF same [OF s(1)]]
    show len: "rsdp_length m rsdp = rsdp_length m0 rsdp" by (rule f)
    show "rsdp_tags m rsdp = rsdp_tags m0 rsdp" using same [OF s(2)] by (simp add: rsdp_tags_def rsdp_tag_def f)
    show "source ?b rsdp 24" "source ?b rsdp (unat (rsdp_length m rsdp))" "unat (rsdp_length m rsdp) + 16 < 2 ^ 32"
      using from_spared s by (simp_all add: len)
  qed
  show "convertible ?b m mbi (snd (ms ! 0)) ps (map snd (tl ms)) rsdp"
    unfolding convertible_def fl
    using info cmd mem(1,2) mods(1) found from_spared [OF low(1)] from_spared [OF low(2)] root(3-5) A(4) by (intro conjI impI allI) simp_all
  have "map (module_tag m (mbi_mods_addr m mbi) (map snd (tl ms))) [0..<length ms - 1] = map (moved_tag ms block) [1..<length ms]"
    by (rule nth_equalityI) (use mods(2) in simp_all)
  moreover have "rsdp_tags m rsdp = rsdp_tags m0 rsdp" using root(2) by (cases "rsdp = 0") (simp_all add: rsdp_tags_def)
  ultimately show "boot_tags m mbi (snd (ms ! 0)) ps (map snd (tl ms)) rsdp = kernel_tags m0 mbi ms block ps rsdp"
    using A(1) L(2) mem(3)
    by (simp add: boot_tags_def kernel_tags_def cmdline_tags_def memory_tags_def module_tags_def fl A(4))
qed

lemma boot_mbi2_result:
  assumes "boot_layout (ram s) mbi phys_max ((img, name) # rest) block"
    and "kernel_file cls img (block + 0x4000)"
    and "mbi2_header_find (alone (block + 0x4000) img) (block + 0x4000) (of_nat (length img)) = Some h" and "h \<noteq> 0"
    and "code_clear (ram s) mbi ((img, name) # rest) block (code_size cls (alone (block + 0x4000) img) (block + 0x4000))"
    and "unat block mod 8 = 0" and "0 < unat block"
    and "boot_sources (ram s) mbi ((img, name) # rest) block ps rsdp" and "kernel_tags (ram s) mbi ((img, name) # rest) block ps rsdp = ts"
  shows "if room_for (unat block + 8) (unat block + 0x4000) ts \<and> tags_end (unat block + 8) ts + 16 \<le> unat block + 0x4000
    then \<exists>s'. start_module mbi phys_max s = Some (Inr (Jump 0 0x7C00 block, s'))
      \<and> reads_tags (ram s') (mbi2_tag_first block) ts
      \<and> enters cls (alone (block + 0x4000) img) (block + 0x4000) MBI2_MAGIC block (ram s')
      \<and> read_bytes (ram s') (block + 0x4000) (length img) = img \<and> describes (ram s') mbi name rest
    else start_module mbi phys_max s = Some (Inl no_space)"
proof -
  let ?k = "block + 0x4000" and ?ms = "(img, name) # rest"
  let ?n = "code_size cls (alone ?k img) ?k"
  obtain s1 md s2 m where r: "mbi_relocate_modules mbi phys_max mbi2_extra_space_needed s = Some (Inr (ucast block, s1))"
    "mbi_pop_module mbi s1 = Some (Inr (md, s2))" "bm_start md = ?k" "named mbi md (ram s2) = m"
    "mbi2_header_find m (bm_start md) (bm_end md - bm_start md) = mbi2_header_find (alone ?k img) ?k (of_nat (length img))"
    "bootable cls m ?k" "arranged m mbi (mbi_mods_addr (ram s) mbi) ?ms block"
    "read_bytes m ?k (length img) = img" "mbi_flags m mbi = mbi_flags (ram s) mbi OR MBI_FLAG_CMDLINE"
    "\<forall>a. settled mbi (mbi_mods_addr (ram s) mbi) ?ms block a \<longrightarrow> m a = ram s a"
    using kernel_reached [OF assms(1,2)] by (elim exE conjE)
  note L = layout_D [OF assms(1) refl]
  note found = kernel_found [OF assms(2) r(8)]
  note src = sources_kept [OF assms(1,8) r(7,9,10), simplified nth_Cons_0 snd_conv list.sel(3)]
  have k: "unat ?k = unat block + 0x4000" using unat_add_of_nat [of block "0x4000"] L(6,16) by simp
  have front: "headers_clear cls m ?k block 0x4000"
    unfolding found(4) by (rule headers_clear_part [of _ _ _ 0 "unat ?k"]) (use assms(2) k in \<open>simp_all add: kernel_file_def\<close>)
  have room: "unat block + 0x4000 < 2 ^ 32" using L(6,16) by simp
  have code: "apart 0x7C00 ?n block 0x4000" using assms(5) L(16) unfolding code_clear_def apart_def by simp linarith
  have find: "mbi2_header_find m (bm_start md) (bm_end md - bm_start md) = Some h" using r(5) assms(3) by simp
  note boots = boots_mbi2_result [OF L(1) r(1,2,4) find assms(4) r(6) [folded r(3)] front [folded r(3)] assms(6,7) room _ src(1) trans [OF src(2) assms(9)],
      unfolded r(3) found(2,3), OF code]
  show ?thesis
  proof (cases "room_for (unat block + 8) (unat block + 0x4000) ts \<and> tags_end (unat block + 8) ts + 16 \<le> unat block + 0x4000")
    case True
    then obtain s' where s': "start_module mbi phys_max s = Some (Inr (Jump 0 0x7C00 block, s'))"
      "reads_tags (ram s') (mbi2_tag_first block) ts" "enters cls (alone ?k img) ?k MBI2_MAGIC block (ram s')"
      "\<forall>a. \<not> in_region 0x7C00 ?n a \<and> \<not> in_region block 0x4000 a \<longrightarrow> ram s' a = m a"
      using boots unfolding if_P [OF True] by (elim exE conjE)
    note found' = arranged_booted [OF assms(1,5) r(7) s'(4)]
    show ?thesis unfolding if_P [OF True] by (intro exI [of _ s'] conjI s'(1-3) found')
  next
    case False
    then show ?thesis using boots by (simp only: if_False)
  qed
qed

text \<open>
  C4. A first module with a Multiboot2 header is started as a Multiboot2 kernel: start_module ends with a
  jump to 0x7C00 with the new information, at the front of the block, in EBX. Read with the accessors,
  it has exactly these tags: the command line of the first module, the memory map, the other modules
  at the places they have been moved to, with their command lines, and the root pointer. The code
  loads the program segments out of the file of the first module and enters the kernel with the
  Multiboot2 magic number. If the tags do not fit into the extra space, the call fails.
\<close>

theorem boot_first_module_mbi2:
  assumes "boot_layout (ram s) mbi phys_max ((img, name) # rest) block"
    and "kernel_file cls img (block + 0x4000)"
    and "mbi2_header_find (alone (block + 0x4000) img) (block + 0x4000) (of_nat (length img)) = Some h" and "h \<noteq> 0"
    and "code_clear (ram s) mbi ((img, name) # rest) block (code_size cls (alone (block + 0x4000) img) (block + 0x4000))"
    and "unat block mod 8 = 0" and "0 < unat block"
    and "boot_sources (ram s) mbi ((img, name) # rest) block ps rsdp" and "kernel_tags (ram s) mbi ((img, name) # rest) block ps rsdp = ts"
  shows "if room_for (unat block + 8) (unat block + 0x4000) ts \<and> tags_end (unat block + 8) ts + 16 \<le> unat block + 0x4000
    then \<exists>s'. start_module mbi phys_max s = Some (Inr (Jump 0 0x7C00 block, s'))
      \<and> reads_tags (ram s') (mbi2_tag_first block) ts
      \<and> enters cls (alone (block + 0x4000) img) (block + 0x4000) MBI2_MAGIC block (ram s')
      \<and> read_bytes (ram s') (block + 0x4000) (length img) = img \<and> describes (ram s') mbi name rest
    else start_module mbi phys_max s = Some (Inl no_space)"
  using assms by (rule boot_mbi2_result)

section \<open>Two machines with two modules\<close>

text \<open>
  A file of 108 bytes with one program segment, 4 bytes to 2M and 4 more to clear; with \<open>hdr\<close> it has a
  Multiboot2 header. The boot loader has put it at 64K, a second module of three bytes at 0x2000, and
  the information at 0x9000 with a command line at 0x4000; memory is free from 1M on for 64 KiB.
\<close>

definition boot_file :: "bool \<Rightarrow> u8 list" where
  "boot_file hdr =
     [0x7F, 0x45, 0x4C, 0x46, 1, 0, 0, 0, 0, 0, 0, 0, 0, 0, 0, 0, 2, 0, 3, 0, 1, 0, 0, 0, 0, 0, 0x20, 0, 52, 0, 0, 0,
      0, 0, 0, 0, 0, 0, 0, 0, 0, 0, 32, 0, 1, 0, 0, 0, 0, 0, 0, 0, 1, 0, 0, 0, 0x68, 0, 0, 0, 0, 0, 0, 0,
      0, 0, 0x20, 0, 4, 0, 0, 0, 8, 0, 0, 0, 0, 0, 0, 0, 0, 0, 0, 0, 0, 0, 0, 0]
     @ (if hdr then header_bytes else [0, 0, 0, 0, 0, 0, 0, 0, 0, 0, 0, 0, 0, 0, 0, 0]) @ [0xFA, 0xF4, 0xEB, 0xFD]"

definition boot_modules :: "bool \<Rightarrow> module_image list" where
  "boot_modules hdr = [(boot_file hdr, []), ([1, 2, 3], [0x61])]"

definition boot_memory :: "bool \<Rightarrow> mem" where
  "boot_memory hdr = write_bytes ((\<lambda>_. 0)(0x9000 := 13, 0x9011 := 0x40, 0x9014 := 2, 0x9019 := 0x91, 0x902C := 24, 0x9031 := 0x10,
     0x9102 := 1, 0x9104 := 0x6C, 0x9106 := 1, 0x9109 := 0x30, 0x9111 := 0x20, 0x9114 := 3, 0x9115 := 0x20, 0x9118 := 0x10, 0x9119 := 0x30,
     0x3010 := 0x61, 0x2000 := 1, 0x2001 := 2, 0x2002 := 3, 0x1000 := 20, 0x1006 := 0x10, 0x100E := 1, 0x1014 := 1,
     0x4000 := 0x62, 0x4001 := 0x20, 0x4002 := 0x70, 0x4003 := 0x68, 0x4004 := 0x79, 0x4005 := 0x73, 0x4006 := 0x5F, 0x4007 := 0x6D, 0x4008 := 0x61, 0x4009 := 0x78, 0x400A := 0x3D, 0x400B := 0x32, 0x400C := 0x35, 0x400D := 0x36, 0x400E := 0x4D))
     0x10000 (boot_file hdr)"

lemma alone_apply: "length img \<le> 2 ^ 32 \<Longrightarrow> alone p img a = (if unat (a - p) < length img then img ! unat (a - p) else 0)"
  by (simp add: alone_def write_bytes_apply in_region_def)

lemma length_boot_file: "length (boot_file hdr) = 108"
  by (simp add: boot_file_def)

lemma boot_file_fields:
  fixes hdr :: bool
  defines "m \<equiv> alone 0x10E000 (boot_file hdr)"
  shows "load16 m 0x10E02C = 1" "ph_at Elf32 m 0x10E000 0 = 0x10E034"
  "p_type m 0x10E034 = 1" "segment_of Elf32 m 0x10E000 0x10E034 = (0x200000, 0x10E068, 4, 4)" "e_entry Elf32 m 0x10E000 = 0x200000"
  "loadable Elf32 m 0x10E000"
proof -
  have m: "m a = (if unat (a - 0x10E000) < 108 then boot_file hdr ! unat (a - 0x10E000) else 0)" for a
    unfolding m_def by (simp add: alone_apply length_boot_file)
  show "load16 m 0x10E02C = 1" "ph_at Elf32 m 0x10E000 0 = 0x10E034"
    "p_type m 0x10E034 = 1" "segment_of Elf32 m 0x10E000 0x10E034 = (0x200000, 0x10E068, 4, 4)" "e_entry Elf32 m 0x10E000 = 0x200000"
    by (simp_all add: ph_at_def p_type_def segment_of_def load16_bytes load32_bytes m boot_file_def)
  have "read_bytes m p 4 = [m p, m (p + 1), m (p + 1 + 1), m (p + 1 + 1 + 1)]" for p
    by (simp add: eval_nat_numeral)
  then show "loadable Elf32 m 0x10E000"
    by (simp add: loadable_def e_type_def e_machine_def e_version_def load16_bytes load32_bytes m boot_file_def)
qed

lemma boot_file_kernel:
  "segments_from Elf32 (alone 0x10E000 (boot_file hdr)) 0x10E000 0 = [(0x200000, 0x10E068, 4, 4)]"
  "code_size Elf32 (alone 0x10E000 (boot_file hdr)) 0x10E000 = 36"
  "kernel_file Elf32 (boot_file hdr) 0x10E000"
proof -
  let ?m = "alone 0x10E000 (boot_file hdr)"
  show segs: "segments_from Elf32 ?m 0x10E000 0 = [(0x200000, 0x10E068, 4, 4)]"
    by (simp add: segments_from_def boot_file_fields)
  show size: "code_size Elf32 ?m 0x10E000 = 36" by (simp add: code_size_def segs)
  have clear: "headers_clear Elf32 ?m 0x10E000 p n" if "fits p n" "apart p n 0x10E000 84" for p n
    using that by (auto simp: headers_clear_def boot_file_fields fits_def apart_def)
  have "bootable Elf32 ?m 0x10E000"
    using boot_file_fields(6) by (simp add: bootable_def size segs clear fits_def apart_def)
  moreover have "headers_clear Elf32 ?m 0x10E000 0 0x10E000" "headers_clear Elf32 ?m 0x10E000 0x10E06C 0xFFEF1F94"
    by (rule clear; simp add: fits_def apart_def)+
  ultimately show "kernel_file Elf32 (boot_file hdr) 0x10E000"
    by (simp add: kernel_file_def length_boot_file)
qed

lemma boot_file_header:
  "mbi2_header_find (alone 0x10E000 (boot_file hdr)) 0x10E000 108 = Some (if hdr then 0x10E058 else 0)"
proof -
  define m where "m = alone 0x10E000 (boot_file hdr)"
  have m_at: "m a = (if unat (a - 0x10E000) < 108 then boot_file hdr ! unat (a - 0x10E000) else 0)" for a
    unfolding m_def by (simp add: alone_apply length_boot_file)
  have slots: "header_slots 0x10E000 12 = [0x10E000, 0x10E008, 0x10E010, 0x10E018, 0x10E020, 0x10E028, 0x10E030, 0x10E038,
      0x10E040, 0x10E048, 0x10E050, 0x10E058]"
    by (simp add: header_slots_def upt_rec)
  have none: "is_header m h = False" if "m h \<noteq> 0xd6" for h
    using that low_byte [of m h] by (auto simp: is_header_def MBI2_HEADER_MAGIC_def)
  have last: "is_header m 0x10E058 = hdr"
    by (cases hdr) (simp_all add: is_header_def MBI2_HEADER_MAGIC_def load32_bytes m_at boot_file_def header_bytes_def)
  have bytes: "m a \<noteq> 0xd6" if "a \<in> {0x10E000, 0x10E008, 0x10E010, 0x10E018, 0x10E020, 0x10E028, 0x10E030, 0x10E038, 0x10E040, 0x10E048, 0x10E050}" for a
    using that by (auto simp: m_at boot_file_def)
  have "List.find (is_header m) (header_slots 0x10E000 12) = (if hdr then Some 0x10E058 else None)"
    by (simp add: slots none bytes last)
  then show ?thesis
    using header_loop_first [of "0x10E000" 108 m] by (simp add: mbi2_header_find_def m_def)
qed

lemma boot_memory_low:
  "unat a < 0x10000 \<Longrightarrow> boot_memory hdr a = ((\<lambda>_. 0)(0x9000 := 13, 0x9011 := 0x40, 0x9014 := 2, 0x9019 := 0x91, 0x902C := 24, 0x9031 := 0x10,
     0x9102 := 1, 0x9104 := 0x6C, 0x9106 := 1, 0x9109 := 0x30, 0x9111 := 0x20, 0x9114 := 3, 0x9115 := 0x20, 0x9118 := 0x10, 0x9119 := 0x30,
     0x3010 := 0x61, 0x2000 := 1, 0x2001 := 2, 0x2002 := 3, 0x1000 := 20, 0x1006 := 0x10, 0x100E := 1, 0x1014 := 1,
     0x4000 := 0x62, 0x4001 := 0x20, 0x4002 := 0x70, 0x4003 := 0x68, 0x4004 := 0x79, 0x4005 := 0x73, 0x4006 := 0x5F, 0x4007 := 0x6D, 0x4008 := 0x61, 0x4009 := 0x78, 0x400A := 0x3D, 0x400B := 0x32, 0x400C := 0x35, 0x400D := 0x36, 0x400E := 0x4D)) a"
  unfolding boot_memory_def
  by (rule write_bytes_outside) (simp_all add: length_boot_file in_region_nat fits_def)

lemma boot_memory_fields:
  "mbi_flags (boot_memory hdr) 0x9000 = 13" "mbi_cmdline (boot_memory hdr) 0x9000 = 0x4000" "mbi_mods_count (boot_memory hdr) 0x9000 = 2" "mbi_mods_addr (boot_memory hdr) 0x9000 = 0x9100"
  "mod_start (boot_memory hdr) 0x9100 = 0x10000" "mod_end (boot_memory hdr) 0x9100 = 0x1006C" "mod_string (boot_memory hdr) 0x9100 = 0x3000"
  "mod_start (boot_memory hdr) 0x9110 = 0x2000" "mod_end (boot_memory hdr) 0x9110 = 0x2003" "mod_string (boot_memory hdr) 0x9110 = 0x3010"
  "mbi_mmap_addr (boot_memory hdr) 0x9000 = 0x1000" "mbi_mmap_length (boot_memory hdr) 0x9000 = 24"
  "mmap_size (boot_memory hdr) 0x1000 = 20" "mmap_type (boot_memory hdr) 0x1000 = MMAP_AVAILABLE"
  "mbi_memory_base_addr (boot_memory hdr) 0x1000 = 0x100000" "mbi_memory_length (boot_memory hdr) 0x1000 = 0x10000"
  "boot_memory hdr 0x3000 = 0" "boot_memory hdr 0x3010 = 0x61" "boot_memory hdr 0x3011 = 0" "boot_memory hdr 0x2000 = 1"
  "boot_memory hdr 0x2001 = 2" "boot_memory hdr 0x2002 = 3"
  by (simp_all add: mbi_flags_def mbi_cmdline_def mbi_mods_count_def mbi_mods_addr_def mod_start_def mod_end_def mod_string_def mbi_mmap_addr_def
      mbi_mmap_length_def mmap_size_def mmap_type_def MMAP_AVAILABLE_def mbi_memory_base_addr_def
      mbi_memory_length_def load32_bytes boot_memory_low)

definition boot_line :: "u8 list" where
  "boot_line = map of_char ''b phys_max=256M''"

lemma boot_memory_line: "cstr (boot_memory hdr) 0x4000 boot_line"
  by (simp add: boot_line_def boot_memory_low)

lemma boot_modules_room: "offset_of 0x4000 (boot_modules hdr) (Suc 0) = 0x5000" "room_of (boot_modules hdr) = 0x6000"
  "length (boot_modules hdr) = 2"
  by (simp_all add: boot_modules_def room_of_def offset_of_def mod_room_def length_boot_file)

lemma all_less_two: "(\<forall>i<2. P i) = (P 0 \<and> P (Suc 0))"
  by (auto simp: less_2_cases_iff)

lemma boot_memory_layout:
  assumes "phys_max \<in> {0x400000, 0x10000000}"
  shows "boot_layout (boot_memory hdr) 0x9000 phys_max (boot_modules hdr) 0x10A000"
proof -
  let ?m = "boot_memory hdr"
  have stored: "read_bytes ?m 0x10000 108 = boot_file hdr"
    unfolding boot_memory_def by (rule read_write_same) (simp_all add: length_boot_file)
  have "mbi_find_memory ?m 0x9000 0x6000 True phys_max = Some (Some 0x10A000)"
    using assms by (auto simp: mbi_find_memory_def find_loop.simps take_block_def page_block_def mbi_memory_map_next_def boot_memory_fields)
  moreover have "ready ?m 0x9100 (boot_modules hdr) 2 0x10A000 0x6000"
    by (simp add: ready_def fits_def apart_def module_at_def module_fits_def module_clear_def module_ptr_def
        boot_memory_fields boot_modules_def length_boot_file all_less_two stored numeral_3_eq_3)
  moreover have "\<forall>i<2. mod_end ?m (module_ptr 0x9100 i) \<le> 0x10A000"
    by (simp add: all_less_two module_ptr_def boot_memory_fields)
  ultimately show ?thesis
    unfolding boot_layout_def Let_def boot_modules_room
    by (simp add: boot_memory_fields MBI_FLAG_MODS_def boot_modules_def fits_def apart_def)
qed

lemma boot_memory_code: "code_clear (boot_memory hdr) 0x9000 (boot_modules hdr) 0x10A000 36"
  unfolding code_clear_def boot_modules_room by (simp add: boot_memory_fields fits_def apart_def)

lemma boot_first_module_mbi1_witness:
  "\<exists>s'. start_module 0x9000 0x400000 (blank\<lparr>ram := boot_memory False\<rparr>) = Some (Inr (Jump 0 0x7C00 0x9000, s'))
    \<and> (\<exists>c'. cpu_run \<lparr>eip = 0x7C00, regs = (\<lambda>_. 0)(EBX := 0x9000), cmem = ram s'\<rparr> c' \<and> eip c' = 0x200000 \<and> regs c' EAX = MBI_MAGIC)
    \<and> describes (ram s') 0x9000 [] [([1, 2, 3], [0x61])]"
proof -
  let ?s = "blank\<lparr>ram := boot_memory False\<rparr>" and ?k = "alone 0x10E000 (boot_file False)"
  note B = boot_memory_layout [of "0x400000" False] boot_memory_code [of False]
  obtain s' where s': "start_module 0x9000 0x400000 ?s = Some (Inr (Jump 0 0x7C00 0x9000, s'))"
    "enters Elf32 ?k 0x10E000 MBI_MAGIC 0x9000 (ram s')" "describes (ram s') 0x9000 [] [([1, 2, 3], [0x61])]"
    using boot_first_module_mbi1 [of ?s "0x9000" "0x400000" "boot_file False" "[]" "[([1, 2, 3], [0x61])]" "0x10A000" Elf32]
      B boot_file_kernel [of False] boot_file_header [of False] by (auto simp: boot_modules_def length_boot_file)
  have "\<exists>c'. cpu_run \<lparr>eip = 0x7C00, regs = (\<lambda>_. 0)(EBX := 0x9000), cmem = ram s'\<rparr> c' \<and> eip c' = 0x200000 \<and> regs c' EAX = MBI_MAGIC"
    using s'(2) [unfolded enters_def boot_file_kernel boot_file_fields, rule_format, of "\<lparr>eip = 0x7C00, regs = (\<lambda>_. 0)(EBX := 0x9000), cmem = ram s'\<rparr>"] by auto
  then show ?thesis using s'(1,3) by blast
qed

lemma no_root_pointer:
  assumes "\<And>p. 0x400 \<le> unat p \<and> unat p < 0x800 \<or> 0xe0000 \<le> unat p \<and> unat p < 0x100000 \<Longrightarrow> m p \<noteq> 82"
  shows "acpi_get_rsdp m = Some 0"
proof -
  have none: "\<not> is_rsdp m p" if "p \<in> set (paragraphs 0x400 64 @ paragraphs 0xe0000 8192)" for p
  proof -
    have "0x400 \<le> unat p \<and> unat p < 0x800 \<or> 0xe0000 \<le> unat p \<and> unat p < 0x100000"
      using that by (auto simp: paragraphs_def unat_of_nat_small simp del: of_nat_add of_nat_mult)
    then have "read_bytes m p 8 ! 0 \<noteq> 82" using assms by (simp add: nth_read_bytes)
    then show ?thesis by (auto simp: is_rsdp_def)
  qed
  then have "List.find (is_rsdp m) (paragraphs 0x400 64 @ paragraphs 0xe0000 8192) = None"
    unfolding find_None_iff by blast
  then show ?thesis unfolding acpi_get_rsdp_find by simp
qed

lemma boot_memory_areas:
  assumes "0x400 \<le> unat p \<and> unat p < 0x800 \<or> 0xe0000 \<le> unat p \<and> unat p < 0x100000"
  shows "boot_memory hdr p = 0"
proof (cases "unat p < 0x800")
  case True
  then show ?thesis by (auto simp: boot_memory_low)
next
  case False
  then have "0xe0000 \<le> unat p" using assms by simp
  then show ?thesis
    unfolding boot_memory_def by (subst write_bytes_outside) (auto simp: length_boot_file in_region_nat fits_def)
qed

lemma boot_memory_sources: "boot_sources (boot_memory hdr) 0x9000 (boot_modules hdr) 0x10A000 [0x1000] 0"
proof -
  have "acpi_get_rsdp (boot_memory hdr) = Some 0" by (rule no_root_pointer) (simp add: boot_memory_areas)
  then show ?thesis
    unfolding boot_sources_def spared_def boot_modules_room
    by (simp add: boot_memory_fields mbi_memory_map_next_def fits_def apart_def)
qed

definition boot_memory_tags :: "tag list" where
  "boot_memory_tags = [(1, [0]), (6, mmap_payload (boot_memory True) [0x1000]), (3, mod_image 0x10F000 0x10F003 @ [0x61, 0])]"

lemma boot_memory_kernel_tags:
  "kernel_tags (boot_memory True) 0x9000 (boot_modules True) 0x10A000 [0x1000] 0 = boot_memory_tags"
  using boot_modules_room(1) [of True]
  by (simp add: kernel_tags_def memory_tags_def rsdp_tags_def moved_tag_def boot_memory_fields boot_modules_def boot_memory_tags_def
      MBI_FLAG_MEM_def MBI2_TAG_CMDLINE_def MBI2_TAG_MEMORY_def MBI2_TAG_MODULE_def upt_rec)

lemma boot_memory_room:
  "room_for (unat (0x10A000 :: u32) + 8) (unat (0x10A000 :: u32) + 0x4000) boot_memory_tags
    \<and> tags_end (unat (0x10A000 :: u32) + 8) boot_memory_tags + 16 \<le> unat (0x10A000 :: u32) + 0x4000"
  by (simp add: boot_memory_tags_def up8_def mod_image_def)

lemma boot_first_module_mbi2_witness:
  "\<exists>s'. start_module 0x9000 0x400000 (blank\<lparr>ram := boot_memory True\<rparr>) = Some (Inr (Jump 0 0x7C00 0x10A000, s'))
    \<and> reads_tags (ram s') 0x10A008 boot_memory_tags
    \<and> (\<exists>c'. cpu_run \<lparr>eip = 0x7C00, regs = (\<lambda>_. 0)(EBX := 0x10A000), cmem = ram s'\<rparr> c' \<and> eip c' = 0x200000 \<and> regs c' EAX = MBI2_MAGIC)"
proof -
  let ?s = "blank\<lparr>ram := boot_memory True\<rparr>" and ?k = "alone 0x10E000 (boot_file True)"
  note B = boot_memory_layout [of "0x400000" True] boot_memory_code [of True] boot_memory_sources [of True]
  obtain s' where s': "start_module 0x9000 0x400000 ?s = Some (Inr (Jump 0 0x7C00 0x10A000, s'))"
    "reads_tags (ram s') (mbi2_tag_first 0x10A000) boot_memory_tags" "enters Elf32 ?k 0x10E000 MBI2_MAGIC 0x10A000 (ram s')"
    using boot_first_module_mbi2 [of ?s "0x9000" "0x400000" "boot_file True" "[]" "[([1, 2, 3], [0x61])]" "0x10A000" Elf32
        "0x10E058" "[0x1000]" 0 boot_memory_tags, unfolded if_P [OF boot_memory_room]]
      B boot_file_kernel [of True] boot_file_header [of True] boot_memory_kernel_tags by (auto simp: boot_modules_def length_boot_file)
  have "\<exists>c'. cpu_run \<lparr>eip = 0x7C00, regs = (\<lambda>_. 0)(EBX := 0x10A000), cmem = ram s'\<rparr> c' \<and> eip c' = 0x200000 \<and> regs c' EAX = MBI2_MAGIC"
    using s'(3) [unfolded enters_def boot_file_kernel boot_file_fields, rule_format, of "\<lparr>eip = 0x7C00, regs = (\<lambda>_. 0)(EBX := 0x10A000), cmem = ram s'\<rparr>"] by auto
  then show ?thesis using s'(1,2) by (auto simp: mbi2_tag_first_def)
qed

end
