(* ===== verification/Pci.thy ===== *)
theory Pci imports Console begin

text \<open>
  pci_db.c and pci.c: the table of known serial controllers and the enumeration of the functions
  on the PCI buses through the configuration ports. A device found is a \<open>pci_device\<close> with its
  database entry in place of the pointer to it; out parameters are results.
\<close>

unbundle bit_operations_syntax

section \<open>pci_db.h, pci_db.c\<close>

record pci_db_entry =
  db_vendor_id :: u16
  db_device_id :: u16
  db_quirks :: u32
  db_device_name :: string

definition NO_QUIRKS :: u32 where "NO_QUIRKS = 0"

definition QUIRK_SERIAL_BAR0_OFFSET_C0 :: u32 where
  "QUIRK_SERIAL_BAR0_OFFSET_C0 = push_bit 0 1"

definition WILDCARD :: u16 where "WILDCARD = 0xFFFF"

definition vendor_db :: "pci_db_entry list" where
  "vendor_db =
     [\<lparr>db_vendor_id = 0x1c00, db_device_id = 0x3253, db_quirks = QUIRK_SERIAL_BAR0_OFFSET_C0,
       db_device_name = '' WCH CH353 Serial Controller''\<rparr>,
      \<lparr>db_vendor_id = WILDCARD, db_device_id = WILDCARD, db_quirks = NO_QUIRKS,
       db_device_name = ''Unknown Device''\<rparr>]"

text \<open>The loop \<open>while (!(...)) db++\<close> from an entry on; running off the table is \<open>None\<close>.\<close>

fun lookup_from :: "pci_db_entry list \<Rightarrow> u16 \<Rightarrow> u16 \<Rightarrow> pci_db_entry option" where
  "lookup_from [] vendor_id device_id = None"
| "lookup_from (db # dbs) vendor_id device_id =
     (if (db_vendor_id db = WILDCARD \<or> db_vendor_id db = vendor_id)
         \<and> (db_device_id db = WILDCARD \<or> db_device_id db = device_id)
      then Some db else lookup_from dbs vendor_id device_id)"

definition pci_lookup_device :: "u16 \<Rightarrow> u16 \<Rightarrow> pci_db_entry option" where
  "pci_lookup_device vendor_id device_id = lookup_from vendor_db vendor_id device_id"

section \<open>pci.h\<close>

definition PCI_CLASS_SIMPLE_COMM :: u8 where "PCI_CLASS_SIMPLE_COMM = 0x07"
definition PCI_SUBCLASS_SERIAL_CTRL :: u8 where "PCI_SUBCLASS_SERIAL_CTRL = 0x00"
definition PCI_SUBCLASS_ANY :: u8 where "PCI_SUBCLASS_ANY = 0xFF"
definition PCI_CFG_VENDOR_ID :: u32 where "PCI_CFG_VENDOR_ID = 0x0"
definition PCI_CFG_REVID :: u32 where "PCI_CFG_REVID = 0x08"
definition PCI_CFG_BAR0 :: u32 where "PCI_CFG_BAR0 = 0x10"
definition PCI_ADDR_PORT :: u16 where "PCI_ADDR_PORT = 0xcf8"
definition PCI_DATA_PORT :: u16 where "PCI_DATA_PORT = 0xcfc"
definition PCI_BAR_TYPE_MASK :: u32 where "PCI_BAR_TYPE_MASK = 1"
definition PCI_BAR_TYPE_IO :: u32 where "PCI_BAR_TYPE_IO = 1"
definition PCI_BAR_IO_MASK :: u32 where "PCI_BAR_IO_MASK = NOT 1"
definition PCI_BAR_NUM :: nat where "PCI_BAR_NUM = 6"

record pci_device =
  dev_db :: pci_db_entry
  cfg_address :: u32
  vendor_id :: u16
  device_id :: u16

record pci_iter =
  it_bus_device :: u32
  it_function :: u8
  it_max_function :: u8

definition PCI_ITER_INIT :: pci_iter where
  "PCI_ITER_INIT = \<lparr>it_bus_device = 0, it_function = 0, it_max_function = 0\<rparr>"

section \<open>pci.c\<close>

definition pci_read_uint8 :: "u32 \<Rightarrow> machine \<Rightarrow> u8 \<times> machine" where
  "pci_read_uint8 addr s = inb (PCI_DATA_PORT + ucast (addr AND 3)) (outl PCI_ADDR_PORT addr s)"

definition pci_read_uint32 :: "u32 \<Rightarrow> machine \<Rightarrow> u32 \<times> machine" where
  "pci_read_uint32 addr s = inl PCI_DATA_PORT (outl PCI_ADDR_PORT addr s)"

definition pci_cfg_read_uint32 :: "pci_device \<Rightarrow> u32 \<Rightarrow> machine \<Rightarrow> u32 \<times> machine" where
  "pci_cfg_read_uint32 dev offset = pci_read_uint32 (cfg_address dev + offset)"

definition populate_device_info :: "u32 \<Rightarrow> (machine, pci_device) comp" where
  "populate_device_info addr =
     andthen (runs (pci_read_uint32 (addr + PCI_CFG_VENDOR_ID))) (\<lambda>vendor_id.
     let device_id = drop_bit 16 vendor_id; vendor_id = vendor_id AND 0xFFFF
     in andthen (reads (\<lambda>s. pci_lookup_device (ucast vendor_id) (ucast device_id))) (\<lambda>db.
        ret \<lparr>dev_db = db, cfg_address = addr, vendor_id = ucast vendor_id,
             device_id = ucast device_id\<rparr>))"

definition pci_iter_advance :: "pci_iter \<Rightarrow> fault + pci_iter" where
  "pci_iter_advance iter =
     (if \<not> it_function iter \<le> it_max_function iter
      then Inl (Assert_failed ''Function index out of range'')
      else if it_function iter = it_max_function iter
      then Inr (iter\<lparr>it_function := 0, it_max_function := 0,
                     it_bus_device := it_bus_device iter + 1\<rparr>)
      else Inr (iter\<lparr>it_function := it_function iter + 1\<rparr>))"

definition function_address :: "pci_iter \<Rightarrow> u32" where
  "function_address iter =
     0x80000000 OR push_bit 11 (it_bus_device iter) OR push_bit 8 (ucast (it_function iter))"

text \<open>
  \<open>pci_iter_next_device\<close>: the device found, if any, and the iterator. The loop ends because an
  advance moves on to the next function or the next of the 2^13 bus and device numbers.
\<close>

function pci_iter_next_device :: "pci_iter \<Rightarrow> (machine, pci_device option \<times> pci_iter) comp" where
  "pci_iter_next_device iter s =
     (if it_bus_device iter < push_bit 13 1 then
        let addr = function_address iter;
            (v, s) = pci_read_uint32 (addr + PCI_CFG_VENDOR_ID) s
        in if v = 0xFFFFFFFF
           then (case pci_iter_advance iter of
                   Inl e \<Rightarrow> Some (Inl e)
                 | Inr iter \<Rightarrow> pci_iter_next_device iter s)
           else
             let (multi, s) = (if it_max_function iter = 0
                               then (let (x, s) = pci_read_uint8 (addr + 14) s
                                     in (x AND 0x80 \<noteq> 0, s))
                               else (False, s));
                 iter = (if multi then iter\<lparr>it_max_function := 7\<rparr> else iter)
             in andthen (populate_device_info addr) (\<lambda>dev s.
                  case pci_iter_advance iter of
                    Inl e \<Rightarrow> Some (Inl e)
                  | Inr iter \<Rightarrow> Some (Inr ((Some dev, iter), s))) s
      else Some (Inr ((None, iter), s)))"
  by pat_completeness auto
termination
proof (relation "measures [\<lambda>(iter, s). 8192 - unat (it_bus_device iter),
    \<lambda>(iter, s). 256 - unat (it_function iter)]")
  fix iter it2 :: pci_iter and s s2 :: machine
  assume bd: "it_bus_device iter < push_bit 13 1" and adv: "pci_iter_advance iter = Inr it2"
  have b: "unat (it_bus_device iter) < 8192" using bd by (simp add: word_less_nat_alt)
  show "((it2, s2), iter, s) \<in> measures [\<lambda>(iter, s). 8192 - unat (it_bus_device iter),
    \<lambda>(iter, s). 256 - unat (it_function iter)]"
  proof (cases "it_function iter = it_max_function iter")
    case True
    then have "it_bus_device it2 = it_bus_device iter + 1"
      using adv by (auto simp: pci_iter_advance_def)
    moreover have "unat (it_bus_device iter + 1) = unat (it_bus_device iter) + 1"
      using b by (simp add: unat_add_no_wrap)
    ultimately have "unat (it_bus_device it2) = unat (it_bus_device iter) + 1" by simp
    then have "8192 - unat (it_bus_device it2) < 8192 - unat (it_bus_device iter)"
      using b by linarith
    then show ?thesis by simp
  next
    case False
    then have "it_function iter < it_max_function iter"
      and it2: "it2 = iter\<lparr>it_function := it_function iter + 1\<rparr>"
      using adv by (auto simp: pci_iter_advance_def split: if_splits)
    then have "unat (it_function iter) < unat (it_max_function iter)"
      by (simp add: word_less_nat_alt)
    moreover have "unat (it_max_function iter) < 256"
      using unsigned_less [of "it_max_function iter", where 'a = nat] by simp
    ultimately have "unat (it_function iter + 1) = unat (it_function iter) + 1" "unat (it_function iter) < 256"
      by (simp_all add: unat_add_no_wrap)
    then show ?thesis using it2 by simp
  qed
qed simp

declare pci_iter_next_device.simps [simp del]

text \<open>\<open>pci_iter_next_matching\<close>; a predicate reads the configuration space, so it is a computation.\<close>

partial_function (option) pci_iter_next_matching ::
    "(pci_device \<Rightarrow> (machine, bool) comp) \<Rightarrow> pci_iter \<Rightarrow> machine
     \<Rightarrow> (fault + (pci_device option \<times> pci_iter) \<times> machine) option" where
  "pci_iter_next_matching predicate iter s =
     (case pci_iter_next_device iter s of
        None \<Rightarrow> None
      | Some r \<Rightarrow> (case r of
          Inl e \<Rightarrow> Some (Inl e)
        | Inr x \<Rightarrow> (case fst (fst x) of
            None \<Rightarrow> Some (Inr ((None, snd (fst x)), snd x))
          | Some dev \<Rightarrow> (case predicate dev (snd x) of
              None \<Rightarrow> None
            | Some r \<Rightarrow> (case r of
                Inl e \<Rightarrow> Some (Inl e)
              | Inr y \<Rightarrow> if fst y then Some (Inr ((Some dev, snd (fst x)), snd y))
                        else pci_iter_next_matching predicate (snd (fst x)) (snd y))))))"

declare pci_iter_next_matching.simps [code]

definition pci_cfg_read_bar :: "pci_device \<Rightarrow> nat \<Rightarrow> (machine, u32) comp" where
  "pci_cfg_read_bar dev bar_no =
     andthen (asserts (bar_no < PCI_BAR_NUM) ''Invalid BAR number'') (\<lambda>_.
     runs (pci_cfg_read_uint32 dev (PCI_CFG_BAR0 + 4 * of_nat bar_no)))"

text \<open>The loop over the BARs from \<open>PCI_BAR_NUM - k\<close> on; the result is \<open>*iobase\<close>, if one is found.\<close>

primrec iobar_loop :: "pci_device \<Rightarrow> nat \<Rightarrow> (machine, u16 option) comp" where
  "iobar_loop dev 0 = ret None"
| "iobar_loop dev (Suc k) =
     andthen (pci_cfg_read_bar dev (PCI_BAR_NUM - Suc k)) (\<lambda>bar.
     if bar AND PCI_BAR_TYPE_MASK = PCI_BAR_TYPE_IO
     then ret (Some (ucast (bar AND PCI_BAR_IO_MASK)))
     else iobar_loop dev k)"

definition pci_first_iobar_base :: "pci_device \<Rightarrow> (machine, u16 option) comp" where
  "pci_first_iobar_base dev = iobar_loop dev PCI_BAR_NUM"

definition pci_matches_class :: "pci_device \<Rightarrow> u8 \<Rightarrow> u8 \<Rightarrow> (machine, bool) comp" where
  "pci_matches_class dev class subclass =
     (let full_class = push_bit 8 (ucast class) OR ucast subclass :: u16;
          class_mask = (if subclass = PCI_SUBCLASS_ANY then 0xFF00 else 0xFFFF) :: u16
      in andthen (runs (pci_read_uint32 (cfg_address dev + PCI_CFG_REVID))) (\<lambda>x.
         ret (ucast (full_class AND class_mask) = (drop_bit 16 x AND (ucast class_mask :: u32)))))"

end
