(* ===== verification/Bender.thy ===== *)
theory Bender imports Elf Pci Libc_String begin

text \<open>
  bender.c: the program that looks for a PCI serial controller, writes its port into the BIOS data
  area and starts the next module. The configuration that the command line sets is passed along.
\<close>

unbundle bit_operations_syntax

section \<open>The configuration\<close>

record config =
  be_promisc :: bool
  accept_legacy :: bool
  phys_max_relocate :: u64

definition initial_config :: config where
  "initial_config = \<lparr>be_promisc = False, accept_legacy = False, phys_max_relocate = push_bit 31 1\<rparr>"

section \<open>parse_cmdline\<close>

text \<open>One round of the loop: the token at \<open>token\<close>, which is the \<open>i\<close>-th.\<close>

definition parse_token :: "mem \<Rightarrow> u32 \<Rightarrow> u32 \<Rightarrow> config \<Rightarrow> config" where
  "parse_token m token i cfg =
     (if i = 0 then cfg
      else if strcmp (at m token) (lit ''promisc'') = 0 then cfg\<lparr>be_promisc := True\<rparr>
      else if strcmp (at m token) (lit ''phys_max=256M'') = 0 then cfg\<lparr>phys_max_relocate := 256 * 1024 * 1024\<rparr>
      else if strcmp (at m token) (lit ''accept_legacy'') = 0 then cfg\<lparr>accept_legacy := True\<rparr>
      else cfg)"

text \<open>The loop, from a token on; the delimiter is a space.\<close>

partial_function (option) parse_tokens :: "mem \<Rightarrow> u32 \<Rightarrow> u32 \<Rightarrow> u32 \<Rightarrow> config \<Rightarrow> (config \<times> mem) option" where
  "parse_tokens m token last_ptr i cfg =
     (if token \<noteq> 0
      then (case strtok_r m 0 [0x20] last_ptr of
              None \<Rightarrow> None
            | Some x \<Rightarrow> parse_tokens (snd (snd x)) (fst x) (fst (snd x)) (i + 1) (parse_token m token i cfg))
      else Some (cfg, m))"

text \<open>\<open>cmdline_buf\<close> is the address of the local buffer of 256 characters.\<close>

definition parse_cmdline :: "u32 \<Rightarrow> u32 \<Rightarrow> config \<Rightarrow> (machine, config) comp" where
  "parse_cmdline cmdline_buf cmdline cfg s =
     (let m = strncpy (ram s) cmdline_buf cmdline 256
      in case strtok_r m cmdline_buf [0x20] 0 of
           None \<Rightarrow> None
         | Some (token, last_ptr, m) \<Rightarrow>
             (case parse_tokens m token last_ptr 0 cfg of
                None \<Rightarrow> None
              | Some (cfg, m) \<Rightarrow> Some (Inr (cfg, s\<lparr>ram := m\<rparr>))))"

section \<open>The serial controller\<close>

definition apply_quirks :: "pci_device \<Rightarrow> u16 \<Rightarrow> (machine, u16) comp" where
  "apply_quirks pcid raw_iobase =
     (if db_quirks (dev_db pcid) AND QUIRK_SERIAL_BAR0_OFFSET_C0 \<noteq> 0
      then andthen (printf ''Found XR16850 chip. Adding 0xc0 to iobase offset.\<newline>'' []) (\<lambda>_. ret (raw_iobase + 0xc0))
      else ret raw_iobase)"

definition is_serial_controller :: "pci_device \<Rightarrow> (machine, bool) comp" where
  "is_serial_controller dev = pci_matches_class dev PCI_CLASS_SIMPLE_COMM PCI_SUBCLASS_SERIAL_CTRL"

definition is_simple_comm :: "pci_device \<Rightarrow> (machine, bool) comp" where
  "is_simple_comm dev = pci_matches_class dev PCI_CLASS_SIMPLE_COMM PCI_SUBCLASS_ANY"

text \<open>The loop that remembers the last match, \<open>serial_ctrl\<close>; it is \<open>None\<close> while there is none.\<close>

partial_function (option) last_matching ::
    "(pci_device \<Rightarrow> (machine, bool) comp) \<Rightarrow> pci_iter \<Rightarrow> pci_device option \<Rightarrow> machine
     \<Rightarrow> (fault + pci_device option \<times> machine) option" where
  "last_matching predicate iter serial_ctrl s =
     (case pci_iter_next_matching predicate iter s of
        None \<Rightarrow> None
      | Some r \<Rightarrow> (case r of
          Inl e \<Rightarrow> Some (Inl e)
        | Inr x \<Rightarrow> (case fst (fst x) of
            None \<Rightarrow> Some (Inr (serial_ctrl, snd x))
          | Some dev \<Rightarrow> last_matching predicate (snd (fst x)) (Some dev) (snd x))))"

text \<open>The two stores into the BIOS data area.\<close>

definition patch_bda :: "u16 \<Rightarrow> machine \<Rightarrow> machine" where
  "patch_bda iobase s =
     (let m = store16 (ram s) bda_com0 iobase;
          m = store16 m bda_equipment ((load16 m bda_equipment AND NOT (push_bit 9 0xF)) OR push_bit 9 1)
      in s\<lparr>ram := m\<rparr>)"

text \<open>What is done with the controller that is found, and from the test of the equipment word to
  the label \<open>boot_next\<close>, which every \<open>goto\<close> goes to.\<close>

definition use_controller :: "pci_device \<Rightarrow> (machine, unit) comp" where
  "use_controller serial_ctrl =
     andthen (printf ''  found at %x.\<newline>'' [Va_word (cfg_address serial_ctrl)]) (\<lambda>_.
     andthen (pci_first_iobar_base serial_ctrl) (\<lambda>iobar.
     case iobar of
       None \<Rightarrow> printf ''Controller has no PIO BAR.\<newline>'' []
     | Some raw_iobase \<Rightarrow>
         andthen (apply_quirks serial_ctrl raw_iobase) (\<lambda>iobase.
         if iobase \<noteq> 0
         then andthen (printf ''Patching BDA with I/O port 0x%x.\<newline>'' [Va_word (ucast iobase)]) (\<lambda>_.
              modifies (patch_bda iobase))
         else printf ''I/O ports for controller not found.\<newline>'' [])))"

definition find_controller :: "config \<Rightarrow> (machine, unit) comp" where
  "find_controller cfg =
     andthen (gets (\<lambda>s. load16 (ram s) bda_equipment)) (\<lambda>equipment_word.
     if accept_legacy cfg \<and> equipment_word AND 0x7 \<noteq> 0
     then printf ''Found legacy serial. Skipping PCI discovery.\<newline>'' []
     else
       andthen (last_matching (if be_promisc cfg then is_simple_comm else is_serial_controller) PCI_ITER_INIT None) (\<lambda>found.
       case found of
         None \<Rightarrow> printf ''  none found.\<newline>'' []
       | Some serial_ctrl \<Rightarrow> use_controller serial_ctrl))"

section \<open>main\<close>

text \<open>\<open>version_str\<close> is the string that the build generates (version.c.in).\<close>

definition boot_next :: "string \<Rightarrow> u32 \<Rightarrow> config \<Rightarrow> (machine, ending) comp" where
  "boot_next version_str mbi cfg =
     andthen (modifies (\<lambda>s. if serial_ports (ram s) \<noteq> 0 then serial_init s else s)) (\<lambda>_.
     andthen (printf ''\<newline>Bender %s'' [Va_lit version_str]) (\<lambda>_.
     start_module mbi (phys_max_relocate cfg)))"

definition main :: "u32 \<Rightarrow> string \<Rightarrow> u32 \<Rightarrow> u32 \<Rightarrow> (machine, ending) comp" where
  "main cmdline_buf version_str magic mbi =
     (if magic = MBI_MAGIC then
        andthen (\<lambda>s. if mbi_flags (ram s) mbi AND MBI_FLAG_CMDLINE \<noteq> 0
                     then parse_cmdline cmdline_buf (mbi_cmdline (ram s) mbi) initial_config s
                     else ret initial_config s) (\<lambda>cfg.
        andthen (printf ''\<newline>Bender %s'' [Va_lit version_str]) (\<lambda>_.
        andthen (printf ''Looking for serial controllers on the PCI bus...\<newline>'' []) (\<lambda>_.
        andthen (printf ''Promisc is %s.\<newline>'' [Va_lit (if be_promisc cfg then ''on'' else ''off'')]) (\<lambda>_.
        andthen (find_controller cfg) (\<lambda>_.
        boot_next version_str mbi cfg)))))
      else if magic = MBI2_MAGIC then
        andthen (printf ''Multiboot2 is not supported. Please boot via Multiboot1. Bye.\<newline>'' []) (\<lambda>_. ret (Return 1))
      else
        andthen (printf ''Not loaded by Multiboot-compliant loader. Bye.\<newline>'' []) (\<lambda>_. ret (Return 1)))"

declare parse_tokens.simps [code] last_matching.simps [code]

end
