(* ===== verification/Pci_Proof.thy ===== *)
theory Pci_Proof imports Pci Console_Proof begin

text \<open>
  The iterator enumerates the functions present on the buses: each once, by rising bus, device
  and function number, the higher functions only of multi-function devices. What it relies on is
  the configuration mechanism of the host bridge, the interface \<open>config_space\<close>.
\<close>

unbundle bit_operations_syntax

section \<open>The database\<close>

lemma pci_lookup_device_eq:
  "pci_lookup_device v d = Some (if v = 0x1c00 \<and> d = 0x3253 then vendor_db ! 0 else vendor_db ! 1)"
  by (simp add: pci_lookup_device_def vendor_db_def WILDCARD_def)

section \<open>The configuration mechanism\<close>

text \<open>
  The data port shows the doubleword of the configuration space selected by the last write to the
  address port, whose two low bits the bridge ignores.
\<close>

definition dword_of :: "u32 \<Rightarrow> u32" where
  "dword_of a = a AND NOT 3"

locale config_space =
  fixes cfg :: "u32 \<Rightarrow> u32"
    and in8 :: "io_event list \<Rightarrow> u16 \<Rightarrow> u8" and in32 :: "io_event list \<Rightarrow> u16 \<Rightarrow> u32"
  assumes dword: "in32 (OutL PCI_ADDR_PORT a # h) PCI_DATA_PORT = cfg (dword_of a)"
    and byte: "in8 (OutL PCI_ADDR_PORT a # h) (PCI_DATA_PORT + ucast (a AND 3))
      = ucast (drop_bit (8 * unat (a AND 3)) (cfg (dword_of a)))"

text \<open>A host bridge that does this, and answers all ones on every other port.\<close>

definition bridge8 :: "(u32 \<Rightarrow> u32) \<Rightarrow> io_event list \<Rightarrow> u16 \<Rightarrow> u8" where
  "bridge8 cfg h port = (case h of
      OutL p a # _ \<Rightarrow> if p = PCI_ADDR_PORT
        then ucast (drop_bit (8 * unat (port - PCI_DATA_PORT)) (cfg (dword_of a))) else - 1
    | _ \<Rightarrow> - 1)"

definition bridge32 :: "(u32 \<Rightarrow> u32) \<Rightarrow> io_event list \<Rightarrow> u16 \<Rightarrow> u32" where
  "bridge32 cfg h port = (case h of
      OutL p a # _ \<Rightarrow> if p = PCI_ADDR_PORT then cfg (dword_of a) else - 1
    | _ \<Rightarrow> - 1)"

interpretation bridge: config_space cfg "bridge8 cfg" "bridge32 cfg" for cfg
proof
  fix a :: u32 and h
  have "unat (ucast (a AND 3) :: u16) = unat (a AND 3)"
  proof -
    have "a AND 3 = take_bit 2 a" by (simp add: take_bit_eq_mask mask_eq_exp_minus_1)
    then have "unat (a AND 3) < 2 ^ 2" using take_bit_nat_less_exp [of 2 "unat a"] by (simp add: unsigned_take_bit_eq)
    then show ?thesis by (simp add: unsigned_ucast_eq take_bit_nat_eq_self)
  qed
  then show "bridge8 cfg (OutL PCI_ADDR_PORT a # h) (PCI_DATA_PORT + ucast (a AND 3))
      = ucast (drop_bit (8 * unat (a AND 3)) (cfg (dword_of a)))"
    by (simp add: bridge8_def)
qed (simp add: bridge32_def)

section \<open>The functions on the buses\<close>

definition fn_addr :: "nat \<Rightarrow> nat \<Rightarrow> u32" where
  "fn_addr bd f = 0x80000000 OR push_bit 11 (of_nat bd) OR push_bit 8 (of_nat f)"

definition present :: "(u32 \<Rightarrow> u32) \<Rightarrow> nat \<Rightarrow> nat \<Rightarrow> bool" where
  "present cfg bd f \<longleftrightarrow> cfg (fn_addr bd f) \<noteq> 0xFFFFFFFF"

text \<open>The header type is the byte at offset 14; its top bit says multi-function.\<close>

definition multifunction :: "(u32 \<Rightarrow> u32) \<Rightarrow> nat \<Rightarrow> bool" where
  "multifunction cfg bd \<longleftrightarrow> bit (cfg (fn_addr bd 0 + 12)) 23"

definition functions_of :: "(u32 \<Rightarrow> u32) \<Rightarrow> nat \<Rightarrow> nat list" where
  "functions_of cfg bd =
     (if \<not> present cfg bd 0 then []
      else if multifunction cfg bd then filter (present cfg bd) [0..<8] else [0])"

definition functions_from :: "(u32 \<Rightarrow> u32) \<Rightarrow> nat \<Rightarrow> (nat \<times> nat) list" where
  "functions_from cfg bd0 = concat (map (\<lambda>bd. map (Pair bd) (functions_of cfg bd)) [bd0..<8192])"

definition device_of :: "(u32 \<Rightarrow> u32) \<Rightarrow> nat \<times> nat \<Rightarrow> pci_device" where
  "device_of cfg x =
     (let addr = fn_addr (fst x) (snd x); v = ucast (cfg addr); d = ucast (drop_bit 16 (cfg addr))
      in \<lparr>dev_db = the (pci_lookup_device v d), cfg_address = addr, vendor_id = v, device_id = d\<rparr>)"

section \<open>The abstraction of the iterator\<close>

definition iter_ok :: "pci_iter \<Rightarrow> bool" where
  "iter_ok it \<longleftrightarrow> unat (it_bus_device it) \<le> 8192
     \<and> (it_function it = 0 \<and> it_max_function it = 0 \<or> it_function it \<le> 7 \<and> it_max_function it = 7)"

text \<open>The functions an iterator still has to visit.\<close>

definition remaining :: "(u32 \<Rightarrow> u32) \<Rightarrow> pci_iter \<Rightarrow> (nat \<times> nat) list" where
  "remaining cfg it =
     (let bd = unat (it_bus_device it)
      in if 8192 \<le> bd then []
         else if it_max_function it = 0 then functions_from cfg bd
         else map (Pair bd) (filter (present cfg bd) [unat (it_function it)..<8])
           @ functions_from cfg (Suc bd))"

lemma iter_ok_init [simp]: "iter_ok PCI_ITER_INIT"
  by (simp add: iter_ok_def PCI_ITER_INIT_def)

lemma remaining_init: "remaining cfg PCI_ITER_INIT = functions_from cfg 0"
  by (simp add: remaining_def PCI_ITER_INIT_def)

lemma functions_from_step:
  "bd < 8192 \<Longrightarrow> functions_from cfg bd = map (Pair bd) (functions_of cfg bd) @ functions_from cfg (Suc bd)"
  by (simp add: functions_from_def upt_rec)

lemma functions_from_end: "8192 \<le> bd \<Longrightarrow> functions_from cfg bd = []"
  by (simp add: functions_from_def)

lemma advance_ok:
  assumes ok: "iter_ok it" and bd: "unat (it_bus_device it) < 8192"
  shows "\<exists>it'. pci_iter_advance it = Inr it' \<and> iter_ok it' \<and>
    remaining cfg it' = (if it_max_function it = 0 then [] else
      map (Pair (unat (it_bus_device it)))
        (filter (present cfg (unat (it_bus_device it))) [Suc (unat (it_function it))..<8]))
      @ functions_from cfg (Suc (unat (it_bus_device it)))"
proof -
  have next_bd: "unat (it_bus_device it + 1) = Suc (unat (it_bus_device it))"
    using bd by (simp add: unat_add_no_wrap)
  have le: "it_function it \<le> it_max_function it" using ok by (auto simp: iter_ok_def)
  show ?thesis
  proof (cases "it_function it = it_max_function it")
    case True
    then show ?thesis
      using ok bd next_bd
      by (auto simp: pci_iter_advance_def iter_ok_def remaining_def Let_def functions_from_end)
  next
    case False
    then have m: "it_max_function it = 7" "it_function it \<le> 7" "it_function it \<noteq> 7"
      using ok by (auto simp: iter_ok_def)
    then have f: "unat (it_function it) < 7"
      by (simp add: word_le_nat_alt word_unat_eq_iff)
    then have "unat (it_function it + 1) = Suc (unat (it_function it))"
      by (simp add: unat_add_no_wrap)
    then show ?thesis
      using False le m f bd
      by (auto simp: pci_iter_advance_def iter_ok_def remaining_def Let_def word_le_nat_alt)
  qed
qed

section \<open>Addresses\<close>

lemma function_address_eq:
  "function_address it = fn_addr (unat (it_bus_device it)) (unat (it_function it))"
  by (simp add: function_address_def fn_addr_def)

lemma fn_addr_bits:
  assumes "n < 256"
  shows "(fn_addr bd f + n) AND NOT 3 = fn_addr bd f + (n AND NOT 3)" and "(fn_addr bd f + n) AND 3 = n AND 3"
proof -
  have low: "\<not> bit (fn_addr bd f) i" if "i < 8" for i
  proof -
    have "fn_addr bd f = push_bit 31 1 OR push_bit 11 (of_nat bd) OR push_bit 8 (of_nat f)"
      by (simp add: fn_addr_def)
    then show ?thesis using that by (simp only: bit_or_iff bit_push_bit_iff) simp
  qed
  have n: "\<not> bit n i" if "8 \<le> i" for i
  proof -
    have "unat n < 2 ^ 8" using assms by (simp add: word_less_nat_alt)
    then have "unat (take_bit 8 n) = unat n"
      by (simp only: unsigned_take_bit_eq take_bit_nat_eq_self)
    then have "take_bit 8 n = n" by (simp only: word_unat_eq_iff)
    then show ?thesis using that by (metis bit_take_bit_iff not_le)
  qed
  have add: "fn_addr bd f + k = fn_addr bd f OR k" if "\<And>i. bit k i \<Longrightarrow> bit n i" for k
    using low n that by (intro disjunctive_add) (metis not_le)
  have m3: "(3::u32) = mask 2" by (simp add: mask_eq_exp_minus_1)
  have "fn_addr bd f + n = fn_addr bd f OR n"
    and "fn_addr bd f + (n AND NOT (mask 2)) = fn_addr bd f OR (n AND NOT (mask 2))"
    by (auto intro!: add simp: bit_simps)
  then show "(fn_addr bd f + n) AND NOT 3 = fn_addr bd f + (n AND NOT 3)" and "(fn_addr bd f + n) AND 3 = n AND 3"
    unfolding m3 using low by (auto intro!: bit_word_eqI simp: bit_simps)
qed

lemma dword_fn_addr [simp]: "n < 256 \<Longrightarrow> dword_of (fn_addr bd f + n) = fn_addr bd f + dword_of n"
  by (simp only: dword_of_def fn_addr_bits(1))

lemma dword_fn_addr_0 [simp]: "dword_of (fn_addr bd f) = fn_addr bd f"
  using dword_fn_addr [of 0 bd f] by (simp add: dword_of_def)

lemma dword_values [simp]: "dword_of 14 = 12" "dword_of 8 = 8"
  by (simp_all add: dword_of_def)

lemma ucast_low_half: "(ucast (x AND 0xFFFF :: u32) :: u16) = ucast x"
proof -
  have m: "(0xFFFF::u32) = mask 16" by (simp add: mask_eq_exp_minus_1)
  show ?thesis unfolding m by (auto intro!: bit_word_eqI simp: bit_simps)
qed

section \<open>Reading through the mechanism\<close>

context config_space
begin

lemma read32:
  "port_in32 s = in32 \<Longrightarrow>
   \<exists>s'. pci_read_uint32 a s = (cfg (dword_of a), s') \<and> quiet s s'"
  by (simp add: pci_read_uint32_def inl_def outl_def Let_def dword quiet_def)

lemma read8:
  "port_in8 s = in8 \<Longrightarrow>
   \<exists>s'. pci_read_uint8 a s = (ucast (drop_bit (8 * unat (a AND 3)) (cfg (dword_of a))), s') \<and> quiet s s'"
  by (simp add: pci_read_uint8_def inb_def outl_def Let_def byte quiet_def)

lemma header_type:
  assumes "port_in8 s = in8"
  shows "\<exists>x s'. pci_read_uint8 (fn_addr bd 0 + 14) s = (x, s') \<and> quiet s s'
    \<and> (x AND 0x80 \<noteq> 0) = multifunction cfg bd"
proof -
  obtain s' where s': "pci_read_uint8 (fn_addr bd 0 + 14) s
      = (ucast (drop_bit 16 (cfg (fn_addr bd 0 + 12))), s')" "quiet s s'"
    using read8 [OF assms, of "fn_addr bd 0 + 14"] by (auto simp: fn_addr_bits)
  have "(0x80::u8) = push_bit 7 1" by simp
  then have "((ucast (drop_bit 16 (c::u32)) :: u8) AND 0x80 \<noteq> 0) = bit c 23" for c
    by (simp only: and_exp_eq_0_iff_not_bit push_bit_of_1 not_not) (simp add: bit_simps)
  then show ?thesis using s' by (simp add: multifunction_def)
qed

lemma populate:
  assumes "port_in32 s = in32"
  shows "\<exists>s'. populate_device_info (fn_addr bd f) s = Some (Inr (device_of cfg (bd, f), s')) \<and> quiet s s'"
proof -
  obtain s' where s': "pci_read_uint32 (fn_addr bd f) s = (cfg (fn_addr bd f), s')" "quiet s s'"
    using read32 [OF assms, of "fn_addr bd f"] by (auto simp:)
  then show ?thesis
    by (auto simp: populate_device_info_def PCI_CFG_VENDOR_ID_def device_of_def Let_def reads_def ret_def
        ucast_low_half andthen_def runs_def pci_lookup_device_eq)
qed

text \<open>One call visits the first function that remains.\<close>

lemma next_device:
  assumes "iter_ok it" and "port_in8 s = in8" and "port_in32 s = in32"
  shows "\<exists>it' s'. pci_iter_next_device it s = Some (Inr ((case remaining cfg it of
        [] \<Rightarrow> None | x # xs \<Rightarrow> Some (device_of cfg x), it'), s'))
    \<and> iter_ok it' \<and> remaining cfg it' = tl (remaining cfg it) \<and> quiet s s'"
  using assms
proof (induction it s rule: pci_iter_next_device.induct)
  case (1 it s)
  let ?bd = "unat (it_bus_device it)" and ?f = "unat (it_function it)"
  show ?case
  proof (cases "?bd < 8192")
    case False
    then have "remaining cfg it = []" "\<not> it_bus_device it < push_bit 13 1"
      by (simp_all add: remaining_def Let_def word_less_nat_alt)
    then show ?thesis
      using 1(2) by (subst pci_iter_next_device.simps) auto
  next
    case True
    then have lt: "it_bus_device it < push_bit 13 1" by (simp add: word_less_nat_alt)
    obtain s1 where s1: "pci_read_uint32 (function_address it + PCI_CFG_VENDOR_ID) s
        = (cfg (fn_addr ?bd ?f), s1)" "quiet s s1"
      using read32 [OF 1(4), of "fn_addr ?bd ?f"]
      by (auto simp: function_address_eq PCI_CFG_VENDOR_ID_def)
    have dev1: "port_in8 s1 = in8" "port_in32 s1 = in32"
      using s1(2) 1(3,4) by (simp_all add: quiet_def)
    obtain it1 where it1: "pci_iter_advance it = Inr it1" "iter_ok it1"
      "remaining cfg it1 = (if it_max_function it = 0 then [] else
         map (Pair ?bd) (filter (present cfg ?bd) [Suc ?f..<8])) @ functions_from cfg (Suc ?bd)"
      using advance_ok [OF 1(2) True] by blast
    show ?thesis
    proof (cases "cfg (fn_addr ?bd ?f) = 0xFFFFFFFF")
      case True
      have same: "remaining cfg it = remaining cfg it1"
        using True it1(3) \<open>?bd < 8192\<close> 1(2)
        by (auto simp: remaining_def Let_def functions_from_step functions_of_def present_def iter_ok_def
            upt_rec [of ?f])
      have "pci_iter_next_device it s = pci_iter_next_device it1 s1"
        using lt s1(1) True it1(1) by (subst pci_iter_next_device.simps) simp
      then show ?thesis
        using 1(1) [OF lt refl s1(1) [symmetric] refl True it1(1,2) dev1] quiet_trans [OF s1(2)]
        unfolding same by auto
    next
      case False
      let ?head = "if it_max_function it = 0
        then (let (x, s) = pci_read_uint8 (function_address it + 14) s1 in (x AND 0x80 \<noteq> 0, s))
        else (False, s1)"
      obtain multi s2 where head: "?head = (multi, s2)" and s2: "quiet s1 s2"
        and multi: "multi \<longleftrightarrow> it_max_function it = 0 \<and> multifunction cfg ?bd"
      proof (cases "it_max_function it = 0")
        case True
        then have "function_address it = fn_addr ?bd 0"
          using 1(2) by (auto simp: function_address_eq iter_ok_def)
        then show ?thesis
          using header_type [OF dev1(1), of ?bd] True by (auto intro: that)
      qed (auto intro: that)
      define it2 where "it2 = (if multi then it\<lparr>it_max_function := 7\<rparr> else it)"
      have it2: "iter_ok it2" "it_bus_device it2 = it_bus_device it" "it_function it2 = it_function it"
        using 1(2) multi by (auto simp: it2_def iter_ok_def)
      obtain it3 where it3: "pci_iter_advance it2 = Inr it3" "iter_ok it3"
        "remaining cfg it3 = (if it_max_function it2 = 0 then [] else
           map (Pair ?bd) (filter (present cfg ?bd) [Suc ?f..<8])) @ functions_from cfg (Suc ?bd)"
        using advance_ok [OF it2(1)] True unfolding it2 by blast
      have rest: "remaining cfg it = (?bd, ?f) # remaining cfg it3"
        unfolding it3(3) using False True 1(2) multi
        by (auto simp: remaining_def Let_def functions_from_step functions_of_def present_def
            iter_ok_def it2_def upt_rec [of ?f] upt_rec [of 0 8] word_le_nat_alt)
      have dev2: "port_in32 s2 = in32"
        using s2 dev1(2) by (simp add: quiet_def)
      obtain s3 where s3: "populate_device_info (function_address it) s2
          = Some (Inr (device_of cfg (?bd, ?f), s3))" "quiet s2 s3"
        using populate [OF dev2, of ?bd ?f] by (auto simp: function_address_eq)
      have "pci_iter_next_device it s = Some (Inr ((Some (device_of cfg (?bd, ?f)), it3), s3))"
        using lt False it3(1) s3(1)
        by (subst pci_iter_next_device.simps) (simp add: s1(1) head andthen_Inr flip: it2_def)
      then show ?thesis
        using it3(2) quiet_trans [OF s1(2) quiet_trans [OF s2 s3(2)]] by (simp add: rest)
    qed
  qed
qed

text \<open>A predicate that decides \<open>P\<close> and only reads.\<close>

lemma next_matching:
  assumes pred: "\<And>x s. port_in8 s = in8 \<Longrightarrow> port_in32 s = in32 \<Longrightarrow>
      \<exists>s'. predicate (device_of cfg x) s = Some (Inr (P x, s')) \<and> quiet s s'"
    and "iter_ok it" and "port_in8 s = in8" and "port_in32 s = in32"
  shows "\<exists>it' s'. pci_iter_next_matching predicate it s = Some (Inr ((case filter P (remaining cfg it) of
        [] \<Rightarrow> None | x # xs \<Rightarrow> Some (device_of cfg x), it'), s'))
    \<and> iter_ok it' \<and> filter P (remaining cfg it') = tl (filter P (remaining cfg it))
    \<and> length (remaining cfg it') \<le> length (remaining cfg it) - 1 \<and> quiet s s'"
  using assms(2-4)
proof (induction "remaining cfg it" arbitrary: it s)
  case Nil
  from next_device [OF Nil(2-4)] show ?case
    by (subst pci_iter_next_matching.simps) (auto simp flip: Nil(1))
next
  case (Cons x xs)
  obtain it1 s1 where step: "pci_iter_next_device it s = Some (Inr ((Some (device_of cfg x), it1), s1))"
    "iter_ok it1" "remaining cfg it1 = xs" "quiet s s1"
    using next_device [OF Cons(3-5)] by (auto simp flip: Cons(2))
  have dev: "port_in8 s1 = in8" "port_in32 s1 = in32"
    using step(4) Cons(4,5) by (simp_all add: quiet_def)
  obtain s2 where p: "predicate (device_of cfg x) s1 = Some (Inr (P x, s2))" "quiet s1 s2"
    using pred [OF dev] by blast
  have q: "quiet s s2" using step(4) p(2) by (rule quiet_trans)
  show ?case
  proof (cases "P x")
    case True
    then show ?thesis
      using step p(1) q by (subst pci_iter_next_matching.simps) (simp flip: Cons(2))
  next
    case False
    have dev2: "port_in8 s2 = in8" "port_in32 s2 = in32"
      using q Cons(4,5) by (simp_all add: quiet_def)
    from Cons(1) [OF step(3) [symmetric] step(2) dev2] show ?thesis
      using step(1,3) p(1) False quiet_trans [OF q]
      by (subst pci_iter_next_matching.simps) (fastforce simp flip: Cons(2))
  qed
qed

end

section \<open>Classes and base address registers\<close>

definition class_of :: "(u32 \<Rightarrow> u32) \<Rightarrow> nat \<times> nat \<Rightarrow> u8" where
  "class_of cfg x = ucast (drop_bit 24 (cfg (fn_addr (fst x) (snd x) + 8)))"

definition subclass_of :: "(u32 \<Rightarrow> u32) \<Rightarrow> nat \<times> nat \<Rightarrow> u8" where
  "subclass_of cfg x = ucast (drop_bit 16 (cfg (fn_addr (fst x) (snd x) + 8)))"

definition class_matches :: "(u32 \<Rightarrow> u32) \<Rightarrow> u8 \<Rightarrow> u8 \<Rightarrow> nat \<times> nat \<Rightarrow> bool" where
  "class_matches cfg c sc x \<longleftrightarrow> class_of cfg x = c \<and> (sc = PCI_SUBCLASS_ANY \<or> subclass_of cfg x = sc)"

text \<open>A 16-bit class as its two bytes, and the comparison under a mask.\<close>

lemma no_bit_8 [simp]: "\<not> bit (w::u8) (8 + i)" "8 \<le> i \<Longrightarrow> \<not> bit (w::u8) i"
  using bit_imp_le_length [of w "8 + i"] bit_imp_le_length [of w i] by auto

lemma two_bytes:
  fixes h :: u16 and c sc :: u8
  shows "(push_bit 8 (ucast c) OR ucast sc = h) = (ucast (drop_bit 8 h) = c \<and> ucast h = sc)"
proof
  assume "push_bit 8 (ucast c) OR ucast sc = h"
  then have h: "h = push_bit 8 (ucast c) OR ucast sc" by simp
  show "ucast (drop_bit 8 h) = c \<and> ucast h = sc"
    unfolding h by (auto intro!: bit_word_eqI simp: bit_simps)
next
  assume "ucast (drop_bit 8 h) = c \<and> ucast h = sc"
  then have cs: "c = ucast (drop_bit 8 h)" "sc = ucast h" by simp_all
  show "push_bit 8 (ucast c) OR ucast sc = h"
    unfolding cs by (rule bit_word_eqI) (auto simp: bit_simps)
qed

lemma masked_class:
  fixes a m :: u16 and y :: u32
  shows "(ucast (a AND m) = (y AND ucast m)) = (a AND m = ucast y AND m)"
proof
  assume eq: "ucast (a AND m) = (y AND ucast m)"
  show "a AND m = ucast y AND m"
  proof (rule bit_word_eqI)
    fix i assume "i < LENGTH(16)"
    then show "bit (a AND m) i = bit (ucast y AND m) i"
      using arg_cong [OF eq, of "\<lambda>w. bit w i"] by (simp add: bit_simps)
  qed
next
  assume eq: "a AND m = ucast y AND m"
  show "ucast (a AND m) = (y AND ucast m)"
  proof (rule bit_word_eqI)
    fix i assume "i < LENGTH(32)"
    then show "bit (ucast (a AND m) :: u32) i = bit (y AND ucast m) i"
      using arg_cong [OF eq, of "\<lambda>w. bit w i"] bit_imp_le_length [of m i] by (auto simp: bit_simps)
  qed
qed

lemma class_compare:
  fixes h :: u16 and c sc :: u8
  shows "((push_bit 8 (ucast c) OR ucast sc) AND 0xFFFF = h AND 0xFFFF)
      = (ucast (drop_bit 8 h) = c \<and> ucast h = sc)"
    and "((push_bit 8 (ucast c) OR ucast sc) AND 0xFF00 = h AND 0xFF00) = (ucast (drop_bit 8 h) = c)"
proof -
  have all: "(0xFFFF::u16) = mask 16" and high: "(0xFF00::u16) = push_bit 8 (mask 8)"
    by (simp_all add: mask_eq_exp_minus_1)
  have id: "x AND 0xFFFF = x" for x :: u16
    unfolding all by (rule bit_word_eqI) (auto simp: bit_simps)
  show "((push_bit 8 (ucast c) OR ucast sc) AND 0xFFFF = h AND 0xFFFF)
      = (ucast (drop_bit 8 h) = c \<and> ucast h = sc)"
    unfolding id by (rule two_bytes)
  have keep: "x AND 0xFF00 = push_bit 8 (ucast (ucast (drop_bit 8 x) :: u8)) OR ucast (0 :: u8)" for x :: u16
    unfolding high by (rule bit_word_eqI) (auto simp: bit_simps)
  have part: "ucast (drop_bit 8 (push_bit 8 (ucast c) OR ucast sc :: u16)) = c"
    by (rule bit_word_eqI) (auto simp: bit_simps)
  show "((push_bit 8 (ucast c) OR ucast sc) AND 0xFF00 = h AND 0xFF00) = (ucast (drop_bit 8 h) = c)"
    unfolding keep part two_bytes
    by (metis part ucast_0 unsigned_0 two_bytes)
qed
definition bar_of :: "(u32 \<Rightarrow> u32) \<Rightarrow> nat \<times> nat \<Rightarrow> nat \<Rightarrow> u32" where
  "bar_of cfg x i = cfg (fn_addr (fst x) (snd x) + 0x10 + 4 * of_nat i)"

text \<open>The port of the first BAR that decodes I/O space, which bit 0 says.\<close>

definition first_io_port :: "u32 list \<Rightarrow> u16 option" where
  "first_io_port bars =
     (case filter (\<lambda>b. bit b 0) bars of [] \<Rightarrow> None | b # _ \<Rightarrow> Some (ucast (b AND NOT 1)))"

context config_space
begin

lemma matches_class:
  assumes "port_in32 s = in32"
  shows "\<exists>s'. pci_matches_class (device_of cfg x) c sc s = Some (Inr (class_matches cfg c sc x, s')) \<and> quiet s s'"
proof -
  let ?a = "fn_addr (fst x) (snd x) + 8"
  obtain s' where s': "pci_read_uint32 ?a s = (cfg ?a, s')" "quiet s s'"
    using read32 [OF assms, of ?a] by auto
  let ?h = "ucast (drop_bit 16 (cfg ?a)) :: u16"
  have bytes: "ucast (drop_bit 8 ?h) = class_of cfg x" "ucast ?h = subclass_of cfg x"
    unfolding class_of_def subclass_of_def by (auto intro!: bit_word_eqI simp: bit_simps ac_simps)
  have "cfg_address (device_of cfg x) + PCI_CFG_REVID = ?a"
    by (simp add: device_of_def Let_def PCI_CFG_REVID_def)
  then have "pci_matches_class (device_of cfg x) c sc s = Some (Inr
      (((push_bit 8 (ucast c) OR ucast sc) AND (if sc = PCI_SUBCLASS_ANY then 0xFF00 else 0xFFFF)
        = ?h AND (if sc = PCI_SUBCLASS_ANY then 0xFF00 else 0xFFFF)), s'))"
    using s'(1) by (simp add: pci_matches_class_def Let_def ret_def masked_class)
  then show ?thesis
    using s'(2) unfolding class_matches_def by (cases "sc = PCI_SUBCLASS_ANY") (simp_all only: class_compare bytes if_True if_False simp_thms, auto)
qed

lemma iobar_loop_port:
  assumes "port_in32 s = in32" and "k \<le> 6"
  shows "\<exists>s'. iobar_loop (device_of cfg x) k s
      = Some (Inr (first_io_port (map (bar_of cfg x) [6 - k..<6]), s')) \<and> quiet s s'"
  using assms
proof (induction k arbitrary: s)
  case 0
  then show ?case by (auto simp: first_io_port_def ret_def)
next
  case (Suc k)
  let ?i = "6 - Suc k"
  let ?o = "0x10 + 4 * of_nat ?i :: u32"
  have i: "?i < 6" using Suc.prems(2) by simp
  then have "?i \<in> {0, 1, 2, 3, 4, 5}" by auto
  then have "dword_of ?o = ?o" "?o < 256"
    by (auto simp: dword_of_def)
  then have al: "dword_of (fn_addr (fst x) (snd x) + ?o) = fn_addr (fst x) (snd x) + ?o"
    by simp
  obtain s1 where s1: "pci_read_uint32 (fn_addr (fst x) (snd x) + ?o) s = (bar_of cfg x ?i, s1)" "quiet s s1"
    using read32 [OF Suc.prems(1), of "fn_addr (fst x) (snd x) + ?o"] unfolding al bar_of_def
    by (auto simp: add.assoc)
  then have bar: "pci_cfg_read_bar (device_of cfg x) ?i s = Some (Inr (bar_of cfg x ?i, s1))"
    using i by (simp add: pci_cfg_read_bar_def PCI_BAR_NUM_def PCI_CFG_BAR0_def pci_cfg_read_uint32_def
        device_of_def Let_def runs_def)
  have dev: "port_in32 s1 = in32" using s1(2) Suc.prems(1) by (simp add: quiet_def)
  have bars: "[6 - Suc k..<6] = ?i # [6 - k..<6]"
  proof -
    have "Suc ?i = 6 - k" using Suc.prems(2) by simp
    then show ?thesis using upt_conv_Cons [OF i] by metis
  qed
  have io: "(b AND PCI_BAR_TYPE_MASK = PCI_BAR_TYPE_IO) = bit b 0" for b
    by (simp add: PCI_BAR_TYPE_MASK_def PCI_BAR_TYPE_IO_def and_one_eq bit_0 mod2_eq_if)
  show ?case
  proof (cases "bit (bar_of cfg x ?i) 0")
    case True
    then show ?thesis
      using bar s1(2) unfolding bars
      by (simp add: first_io_port_def andthen_Inr io ret_def PCI_BAR_NUM_def PCI_BAR_IO_MASK_def)
  next
    case False
    obtain s2 where s2: "iobar_loop (device_of cfg x) k s1
        = Some (Inr (first_io_port (map (bar_of cfg x) [6 - k..<6]), s2))" "quiet s1 s2"
      using Suc.IH [OF dev] Suc.prems(2) by auto
    then show ?thesis
      using False bar quiet_trans [OF s1(2) s2(2)] unfolding bars
      by (simp add: first_io_port_def andthen_Inr io PCI_BAR_NUM_def)
  qed
qed

lemma first_iobar:
  "port_in32 s = in32 \<Longrightarrow> \<exists>s'. pci_first_iobar_base (device_of cfg x) s
      = Some (Inr (first_io_port (map (bar_of cfg x) [0..<6]), s')) \<and> quiet s s'"
  using iobar_loop_port [of s 6 x] by (simp add: pci_first_iobar_base_def PCI_BAR_NUM_def)

end

section \<open>Properties\<close>

lemma functions_from_eq:
  "functions_from cfg bd0 = filter
     (\<lambda>(bd, f). present cfg bd 0 \<and> present cfg bd f \<and> (f = 0 \<or> multifunction cfg bd))
     (List.product [bd0..<8192] [0..<8])"
proof -
  let ?P = "\<lambda>(bd, f). present cfg bd 0 \<and> present cfg bd f \<and> (f = 0 \<or> multifunction cfg bd)"
  have one: "map (Pair bd) (functions_of cfg bd) = filter ?P (map (Pair bd) [0..<8])" for bd
    by (auto simp: functions_of_def filter_map comp_def upt_rec [of 0 8] intro!: arg_cong [of _ _ "map (Pair bd)"] filter_cong)
  have "concat (map (\<lambda>bd. map (Pair bd) (functions_of cfg bd)) bds) = filter ?P (List.product bds [0..<8])" for bds
    by (induction bds) (simp_all add: one)
  then show ?thesis by (simp add: functions_from_def)
qed

text \<open>The devices that successive calls from an iterator on report until there is none left.\<close>

inductive visits :: "pci_iter \<Rightarrow> machine \<Rightarrow> pci_device list \<Rightarrow> machine \<Rightarrow> bool" where
  visits_end: "pci_iter_next_device it s = Some (Inr ((None, it'), s')) \<Longrightarrow> visits it s [] s'"
| visits_dev: "pci_iter_next_device it s = Some (Inr ((Some d, it'), s')) \<Longrightarrow> visits it' s' ds s''
    \<Longrightarrow> visits it s (d # ds) s''"

inductive_cases visits_cases: "visits it s ds s'"

lemma visits_unique: "visits it s ds s' \<Longrightarrow> visits it s ds' s'' \<Longrightarrow> ds' = ds \<and> s'' = s'"
proof (induction arbitrary: ds' rule: visits.induct)
  case (visits_end it s it' s')
  then show ?case by (auto elim: visits_cases)
next
  case (visits_dev it s d it' s' ds s2)
  from visits_dev.prems visits_dev.hyps show ?case
    by (auto elim!: visits_cases [of it s] dest: visits_dev.IH)
qed

lemma visits_remaining:
  assumes "config_space cfg (port_in8 s) (port_in32 s)" and "iter_ok it"
  shows "\<exists>s'. visits it s (map (device_of cfg) (remaining cfg it)) s' \<and> quiet s s'"
  using assms
proof (induction "remaining cfg it" arbitrary: it s)
  case Nil
  from config_space.next_device [OF Nil(2,3) refl refl] show ?case
    by (auto simp flip: Nil(1) intro: visits_end)
next
  case (Cons x xs)
  obtain it1 s1 where step: "pci_iter_next_device it s = Some (Inr ((Some (device_of cfg x), it1), s1))"
    "iter_ok it1" "remaining cfg it1 = xs" "quiet s s1"
    using config_space.next_device [OF Cons(3,4) refl refl] by (auto simp flip: Cons(2))
  have "config_space cfg (port_in8 s1) (port_in32 s1)"
    using Cons(3) step(4) by (simp add: quiet_def)
  from Cons(1) [OF step(3) [symmetric] this step(2)] obtain s2
    where "visits it1 s1 (map (device_of cfg) xs) s2" "quiet s1 s2"
    using step(3) by auto
  then show ?case
    using visits_dev [OF step(1)] quiet_trans [OF step(4)] by (auto simp flip: Cons(2))
qed

text \<open>
  C17. Iterating from the start terminates without a failed assertion and reports exactly the
  functions that answer, each once and in rising order of bus, device and function number; those
  above 0 only of devices whose function 0 answers and is marked multi-function. This needs the
  configuration mechanism of the host bridge (\<open>config_space\<close>).
\<close>

theorem pci_iteration_complete:
  assumes "config_space cfg (port_in8 s) (port_in32 s)"
  shows "(\<exists>!ds. \<exists>s'. visits PCI_ITER_INIT s ds s')
    \<and> (\<exists>s'. visits PCI_ITER_INIT s (map (device_of cfg) (filter
       (\<lambda>(bd, f). present cfg bd 0 \<and> present cfg bd f \<and> (f = 0 \<or> multifunction cfg bd))
       (List.product [0..<8192] [0..<8]))) s' \<and> quiet s s')"
proof -
  have "\<exists>s'. visits PCI_ITER_INIT s (map (device_of cfg) (filter
       (\<lambda>(bd, f). present cfg bd 0 \<and> present cfg bd f \<and> (f = 0 \<or> multifunction cfg bd))
       (List.product [0..<8192] [0..<8]))) s' \<and> quiet s s'"
    using visits_remaining [OF assms iter_ok_init] unfolding remaining_init functions_from_eq .
  then show ?thesis
    using visits_unique by blast
qed

text \<open>A machine whose bridge has the given configuration space, and a space with one device.\<close>

definition pci_machine :: "(u32 \<Rightarrow> u32) \<Rightarrow> machine" where
  "pci_machine cfg = still_machine\<lparr>port_in8 := bridge8 cfg, port_in32 := bridge32 cfg\<rparr>"

definition one_card :: "u32 \<Rightarrow> u32" where
  "one_card a = (if a = 0x80001800 then 0x32531c00 else if a = 0x80001808 then 0x07000000
     else if a = 0x80001810 then 0xfe000000 else if a = 0x80001814 then 0x0000e001
     else if a AND 0xFFFFFF00 = 0x80001800 then 0 else - 1)"

lemma pci_machine_ports [simp]:
  "port_in8 (pci_machine cfg) = bridge8 cfg" "port_in32 (pci_machine cfg) = bridge32 cfg"
  by (simp_all add: pci_machine_def)

lemma pci_iteration_complete_witness:
  "\<exists>s'. visits PCI_ITER_INIT (pci_machine one_card) (map (device_of one_card) (filter
       (\<lambda>(bd, f). present one_card bd 0 \<and> present one_card bd f \<and> (f = 0 \<or> multifunction one_card bd))
       (List.product [0..<8192] [0..<8]))) s' \<and> quiet (pci_machine one_card) s'"
  using pci_iteration_complete [of one_card "pci_machine one_card"] bridge.config_space_axioms by simp

text \<open>
  The first I/O BAR: the registers are read in order, at most six, and the first whose bit 0 is
  set gives the port, without that bit; without one nothing is reported.
\<close>

theorem pci_first_iobar_port:
  assumes "config_space cfg (port_in8 s) (port_in32 s)"
  shows "\<exists>s'. pci_first_iobar_base (device_of cfg x) s
      = Some (Inr (first_io_port (map (bar_of cfg x) [0..<6]), s')) \<and> quiet s s'"
  by (rule config_space.first_iobar [OF assms refl])

lemma pci_first_iobar_port_witness:
  "\<exists>s'. pci_first_iobar_base (device_of one_card (3, 0)) (pci_machine one_card) = Some (Inr (Some 0xe000, s'))"
proof -
  have "fn_addr 3 0 = 0x80001800" by (simp add: fn_addr_def)
  then have "first_io_port (map (bar_of one_card (3, 0)) [0..<6]) = Some 0xe000"
    by (simp add: bar_of_def one_card_def first_io_port_def upt_rec [of 0 6] upt_rec bit_0)
  then show ?thesis
    using pci_first_iobar_port [of one_card "pci_machine one_card" "(3, 0)"] bridge.config_space_axioms
    by auto
qed

text \<open>
  The class test compares the class byte, and the subclass byte unless any subclass will do, of
  the configuration space of the device.
\<close>

theorem pci_matches_class_bytes:
  assumes "config_space cfg (port_in8 s) (port_in32 s)"
  shows "\<exists>s'. pci_matches_class (device_of cfg x) c sc s
      = Some (Inr (class_of cfg x = c \<and> (sc = PCI_SUBCLASS_ANY \<or> subclass_of cfg x = sc), s'))
    \<and> quiet s s'"
  using config_space.matches_class [OF assms refl, of x c sc] by (simp add: class_matches_def)

lemma pci_matches_class_bytes_witness:
  "\<exists>s'. pci_matches_class (device_of one_card (3, 0)) PCI_CLASS_SIMPLE_COMM PCI_SUBCLASS_SERIAL_CTRL
      (pci_machine one_card) = Some (Inr (True, s'))"
proof -
  have "fn_addr 3 0 = 0x80001800" by (simp add: fn_addr_def)
  then have "class_of one_card (3, 0) = PCI_CLASS_SIMPLE_COMM" "subclass_of one_card (3, 0) = PCI_SUBCLASS_SERIAL_CTRL"
    by (simp_all add: class_of_def subclass_of_def one_card_def PCI_CLASS_SIMPLE_COMM_def PCI_SUBCLASS_SERIAL_CTRL_def)
  then show ?thesis
    using pci_matches_class_bytes [of one_card "pci_machine one_card" "(3, 0)" PCI_CLASS_SIMPLE_COMM
        PCI_SUBCLASS_SERIAL_CTRL] bridge.config_space_axioms
    by auto
qed

end
