(* ===== verification/Bender_Proof.thy ===== *)
theory Bender_Proof imports Bender Convert_Proof Pci_Proof Libc_String_Proof begin

text \<open>
  bender.c: what the command line sets, which controller is chosen and how its port gets into the
  BIOS data area, and how main ends.
\<close>

unbundle bit_operations_syntax

section \<open>The command line\<close>

text \<open>The configuration after the options \<open>ws\<close>.\<close>

definition options_of :: "u8 list list \<Rightarrow> config \<Rightarrow> config" where
  "options_of ws cfg = \<lparr>be_promisc = be_promisc cfg \<or> map of_char ''promisc'' \<in> set ws,
     accept_legacy = accept_legacy cfg \<or> map of_char ''accept_legacy'' \<in> set ws,
     phys_max_relocate = if map of_char ''phys_max=256M'' \<in> set ws then 0x10000000 else phys_max_relocate cfg\<rparr>"

lemma options_of_Nil [simp]: "options_of [] cfg = cfg"
  by (simp add: options_of_def)

lemma options_of_Cons: "options_of (w # ws) cfg = options_of ws (options_of [w] cfg)"
  by (auto simp: options_of_def)

lemma strcmp_literal:
  assumes "cstr m p w" and "\<forall>c\<in>set cs. (of_char c :: u8) \<noteq> 0" and "length cs < 2 ^ 32 - 1"
  shows "strcmp (at m p) (lit cs) = 0 \<longleftrightarrow> w = map of_char cs"
  using strcmp_order(1) [OF holds_at [OF assms(1)] holds_lit [OF assms(2)]] assms(3) by simp

lemma parse_token_option:
  assumes "cstr m p w" and "i \<noteq> 0"
  shows "parse_token m p i cfg = options_of [w] cfg"
  using assms(2) by (auto simp: parse_token_def strcmp_literal [OF assms(1)] options_of_def)

lemma parse_tokens_options:
  assumes "token_step [0x20] m p s tok lst m'" and "p \<noteq> 0" and "unat p + length s < 2 ^ 32" and "unat i + length s < 2 ^ 32"
  shows "\<exists>m2. parse_tokens m' tok lst i cfg
      = Some (options_of (if i = 0 then tl (words [0x20] s) else words [0x20] s) cfg, m2)
    \<and> (\<forall>a. \<not> (unat p \<le> unat a \<and> unat a < unat p + length s) \<longrightarrow> m2 a = m a)"
  using assms
proof (induction "length s" arbitrary: m p s tok lst m' i cfg rule: less_induct)
  case less
  show ?case
  proof (cases "words [0x20] s")
    case Nil
    then have "tok = 0" "m' = m" using less.prems(1) by (simp_all add: token_step_def)
    then show ?thesis using Nil by (subst parse_tokens.simps) simp
  next
    case (Cons w ws)
    then have st: "tok \<noteq> 0" "cstr m' tok w" "\<forall>a. \<not> (unat p \<le> unat a \<and> unat a < unat p + length s) \<longrightarrow> m' a = m a"
      "if lst = 0 then ws = [] else \<exists>r. cstr m' lst r \<and> ws = words [0x20] r \<and> length r < length s
         \<and> unat lst + length r = unat p + length s"
      using less.prems(1) by (simp_all add: token_step_def)
    let ?cfg = "parse_token m' tok i cfg"
    have cfg: "?cfg = (if i = 0 then cfg else options_of [w] cfg)"
      using parse_token_option [OF st(2)] by (simp add: parse_token_def)
    show ?thesis
    proof (cases "lst = 0")
      case True
      have "parse_tokens m' tok lst i cfg = Some (?cfg, m')"
        using st(1) True by (subst parse_tokens.simps) (simp add: strtok_r_def, subst parse_tokens.simps, simp)
      then show ?thesis using True st(3,4) Cons cfg by simp
    next
      case False
      then obtain r where r: "cstr m' lst r" "ws = words [0x20] r" "length r < length s" "unat lst + length r = unat p + length s"
        using st(4) by auto
      have pos: "unat lst + length r < 2 ^ 32" using r(4) less.prems(3) by simp
      obtain tok' lst' m2 where call: "strtok_r m' 0 [0x20] lst = Some (tok', lst', m2)" "token_step [0x20] m' lst r tok' lst' m2"
        using strtok_r_step [OF r(1) _ False pos, of "[0x20]" 0 lst] by auto
      have i: "unat (i + 1) = unat i + 1"
        using unat_add_of_nat [of i 1] less.prems(4) r(3) by simp
      then have i1: "i + 1 \<noteq> 0" by (metis add_is_0 one_neq_zero unat_0)
      obtain m3 where m3: "parse_tokens m2 tok' lst' (i + 1) ?cfg = Some (options_of (words [0x20] r) ?cfg, m3)"
        "\<forall>a. \<not> (unat lst \<le> unat a \<and> unat a < unat lst + length r) \<longrightarrow> m3 a = m' a"
        using less.hyps [OF r(3) call(2) False pos, of "i + 1" ?cfg] i i1 less.prems(4) r(3) by auto
      have "parse_tokens m' tok lst i cfg = parse_tokens m2 tok' lst' (i + 1) ?cfg"
        using st(1) call(1) by (subst parse_tokens.simps) simp
      moreover have "options_of ws ?cfg = options_of (if i = 0 then tl (w # ws) else w # ws) cfg"
        using cfg options_of_Cons [of w ws cfg] by simp
      moreover have "m3 a = m a" if "\<not> (unat p \<le> unat a \<and> unat a < unat p + length s)" for a
      proof -
        have "\<not> (unat lst \<le> unat a \<and> unat a < unat lst + length r)" using that r(3,4) by linarith
        then show ?thesis using m3(2) st(3) that by simp
      qed
      ultimately show ?thesis using m3(1) r(2) Cons by auto
    qed
  qed
qed

lemma parse_cmdline_sets:
  assumes "cstr (ram s) cmdline str" and "length str < 256" and "length str < unat (buf - cmdline)"
    and "buf \<noteq> 0" and "fits buf 256"
  shows "\<exists>s'. parse_cmdline buf cmdline cfg s = Some (Inr (options_of (tl (words [0x20] str)) cfg, s'))
    \<and> s' = s\<lparr>ram := ram s'\<rparr> \<and> (\<forall>a. \<not> in_region buf 256 a \<longrightarrow> ram s' a = ram s a)"
proof -
  let ?m = "strncpy (ram s) buf cmdline 256"
  have copy: "?m = write_bytes (ram s) buf (take 256 str @ replicate (256 - length str) 0)"
    using strncpy_result [OF assms(1,3), of 256] by simp
  have "length str < unat (256 :: u32) \<longrightarrow> cstr ?m buf str"
    using strncpy_result [OF assms(1,3), of 256] by (elim conjE)
  then have copied: "cstr ?m buf str" using assms(2) by simp
  have pos: "unat buf + length str < 2 ^ 32" using assms(2,5) by (simp add: fits_def)
  obtain tok lst m1 where call: "strtok_r ?m buf [0x20] 0 = Some (tok, lst, m1)" "token_step [0x20] ?m buf str tok lst m1"
    using strtok_r_step [OF copied _ assms(4) pos, of "[0x20]" buf 0] by auto
  obtain m2 where m2: "parse_tokens m1 tok lst 0 cfg = Some (options_of (tl (words [0x20] str)) cfg, m2)"
    "\<forall>a. \<not> (unat buf \<le> unat a \<and> unat a < unat buf + length str) \<longrightarrow> m2 a = ?m a"
    using parse_tokens_options [OF call(2) assms(4) pos, of 0 cfg] assms(2) by auto
  have run: "parse_cmdline buf cmdline cfg s = Some (Inr (options_of (tl (words [0x20] str)) cfg, s\<lparr>ram := m2\<rparr>))"
    by (simp add: parse_cmdline_def Let_def call(1) m2(1))
  have "m2 a = ram s a" if "\<not> in_region buf 256 a" for a
  proof -
    have "\<not> (unat buf \<le> unat a \<and> unat a < unat buf + length str)"
      using that assms(2) unfolding in_region_nat [OF assms(5)] by linarith
    moreover have "?m a = ram s a"
      unfolding copy by (rule write_apart_outside) (use that assms(2,5) in simp_all)
    ultimately show ?thesis using m2(2) by simp
  qed
  then show ?thesis using run by auto
qed

section \<open>The serial controller\<close>

lemma apply_quirks_result:
  "\<exists>s'. apply_quirks d raw s = Some (Inr (raw + (if db_quirks (dev_db d) AND QUIRK_SERIAL_BAR0_OFFSET_C0 \<noteq> 0 then 0xc0 else 0), s'))
    \<and> quiet s s'"
proof (cases "db_quirks (dev_db d) AND QUIRK_SERIAL_BAR0_OFFSET_C0 = 0")
  case True
  then show ?thesis by (auto simp: apply_quirks_def ret_def)
next
  case False
  have "wp (apply_quirks d raw) (\<lambda>x s'. x = raw + 0xc0 \<and> quiet s s') s"
    unfolding apply_quirks_def using False by (simp del: wp_andthen) (rule wp_printf_then; simp add: is_conv_def)
  then show ?thesis using False by (auto simp: wp_iff)
qed

text \<open>The controllers looked for, in the order of the bus, and the port the last of them gives.\<close>

definition wanted :: "bool \<Rightarrow> (u32 \<Rightarrow> u32) \<Rightarrow> nat \<times> nat \<Rightarrow> bool" where
  "wanted promisc cs = class_matches cs PCI_CLASS_SIMPLE_COMM (if promisc then PCI_SUBCLASS_ANY else PCI_SUBCLASS_SERIAL_CTRL)"

definition controllers :: "bool \<Rightarrow> (u32 \<Rightarrow> u32) \<Rightarrow> (nat \<times> nat) list" where
  "controllers promisc cs = filter (wanted promisc cs) (functions_from cs 0)"

definition quirk_offset :: "(u32 \<Rightarrow> u32) \<Rightarrow> nat \<times> nat \<Rightarrow> u16" where
  "quirk_offset cs x = (if cs (fn_addr (fst x) (snd x)) = 0x32531c00 then 0xc0 else 0)"

definition port_of :: "(u32 \<Rightarrow> u32) \<Rightarrow> (nat \<times> nat) list \<Rightarrow> u16" where
  "port_of cs xs = (if xs = [] then 0 else
     case first_io_port (map (bar_of cs (last xs)) [0..<6]) of None \<Rightarrow> 0 | Some p \<Rightarrow> p + quirk_offset cs (last xs))"

lemma quirk_of_device:
  "(db_quirks (dev_db (device_of cs x)) AND QUIRK_SERIAL_BAR0_OFFSET_C0 \<noteq> 0) = (cs (fn_addr (fst x) (snd x)) = 0x32531c00)"
proof -
  let ?w = "cs (fn_addr (fst x) (snd x))"
  have w: "?w = push_bit 16 (ucast (ucast (drop_bit 16 ?w) :: u16)) OR ucast (ucast ?w :: u16)"
    by (rule bit_word_eqI) (auto simp: bit_simps)
  have "((ucast ?w :: u16) = 0x1c00 \<and> (ucast (drop_bit 16 ?w) :: u16) = 0x3253) = (?w = 0x32531c00)"
  proof
    assume "(ucast ?w :: u16) = 0x1c00 \<and> (ucast (drop_bit 16 ?w) :: u16) = 0x3253"
    then show "?w = 0x32531c00" by (subst w) simp
  qed simp
  then show ?thesis
    by (simp add: device_of_def Let_def pci_lookup_device_eq vendor_db_def QUIRK_SERIAL_BAR0_OFFSET_C0_def NO_QUIRKS_def)
qed

lemma last_matching_last:
  assumes "config_space cs (port_in8 s) (port_in32 s)"
    and pred: "\<And>x s. port_in32 s = port_in32 s0 \<Longrightarrow> \<exists>s'. predicate (device_of cs x) s = Some (Inr (P x, s')) \<and> quiet s s'"
    and "port_in32 s = port_in32 s0" and "iter_ok it"
  shows "\<exists>s'. last_matching predicate it found s = Some (Inr ((case filter P (remaining cs it) of [] \<Rightarrow> found
      | xs \<Rightarrow> Some (device_of cs (last xs))), s')) \<and> quiet s s'"
  using assms(1,3,4)
proof (induction "length (filter P (remaining cs it))" arbitrary: it found s)
  case 0
  have p: "\<exists>s'. predicate (device_of cs x) t = Some (Inr (P x, s')) \<and> quiet t s'" if "port_in32 t = port_in32 s" for x t
    using pred that 0(3) by simp
  obtain it' s' where "pci_iter_next_matching predicate it s = Some (Inr ((case filter P (remaining cs it) of
        [] \<Rightarrow> None | x # xs \<Rightarrow> Some (device_of cs x), it'), s'))" "quiet s s'"
    using config_space.next_matching [OF 0(2), of predicate P it s] p 0(4) by blast
  then show ?case using 0(1) by (subst last_matching.simps) simp
next
  case (Suc n)
  have p: "\<exists>s'. predicate (device_of cs x) t = Some (Inr (P x, s')) \<and> quiet t s'" if "port_in32 t = port_in32 s" for x t
    using pred that Suc.prems(2) by simp
  obtain x xs where f: "filter P (remaining cs it) = x # xs" using Suc.hyps(2) by (cases "filter P (remaining cs it)") auto
  obtain it' s' where n: "pci_iter_next_matching predicate it s = Some (Inr ((Some (device_of cs x), it'), s'))"
    "iter_ok it'" "filter P (remaining cs it') = xs" "quiet s s'"
    using config_space.next_matching [OF Suc.prems(1), of predicate P it s] p Suc.prems(3) f by auto
  have q: "config_space cs (port_in8 s') (port_in32 s')" "port_in32 s' = port_in32 s0"
    using n(4) Suc.prems(1,2) by (simp_all add: quiet_def)
  obtain s2 where "last_matching predicate it' (Some (device_of cs x)) s' = Some (Inr ((case xs of [] \<Rightarrow> Some (device_of cs x)
      | xs \<Rightarrow> Some (device_of cs (last xs))), s2))" "quiet s' s2"
    using Suc.hyps(1) [OF _ q n(2), of "Some (device_of cs x)"] Suc.hyps(2) n(3) f by auto
  then show ?case
    using n(1,4) f quiet_trans [OF n(4)] by (subst last_matching.simps) (auto split: list.split)
qed

text \<open>What \<open>find_controller\<close> leaves in memory.\<close>

definition bda_after :: "config \<Rightarrow> (u32 \<Rightarrow> u32) \<Rightarrow> mem \<Rightarrow> mem" where
  "bda_after cfg cs m =
     (let port = port_of cs (controllers (be_promisc cfg) cs) in
      if accept_legacy cfg \<and> load16 m 0x410 AND 7 \<noteq> 0 \<or> port = 0 then m
      else store16 (store16 m 0x400 port) 0x410 ((load16 m 0x410 AND NOT 0x1E00) OR 0x200))"

lemma load16_store16_other:
  "fits p 2 \<Longrightarrow> fits q 2 \<Longrightarrow> apart p 2 q 2 \<Longrightarrow> load16 (store16 m p v) q = load16 m q"
  by (simp add: load16_def store16_def read_write_apart)

lemma patch_bda_ram: "ram (patch_bda p s) = store16 (store16 (ram s) 0x400 p) 0x410 ((load16 (ram s) 0x410 AND NOT 0x1E00) OR 0x200)"
proof -
  have "load16 (store16 (ram s) 0x400 p) 0x410 = load16 (ram s) 0x410"
    by (rule load16_store16_other) (simp_all add: fits_def apart_def)
  then show ?thesis by (simp add: patch_bda_def Let_def bda_com0_def bda_equipment_def)
qed

text \<open>Output that ends a path on which memory is left as it is.\<close>

lemma printf_unchanged:
  assumes "quiet s t" and "expand (\<lambda>_. None) (directives fmt) [] \<noteq> None"
  shows "wp (printf fmt []) (\<lambda>_ s'. ram s' = ram s \<and> quiet (s\<lparr>ram := ram s'\<rparr>) s') t"
  using assms(2) quiet_trans [OF assms(1)] by (intro wp_printf [where str = "\<lambda>_. None"]) (simp_all add: quiet_def)

lemma use_controller_result:
  fixes d :: "nat \<times> nat" and cs :: "u32 \<Rightarrow> u32" and s s0 :: machine
  assumes "config_space cs (port_in8 s) (port_in32 s)" and "quiet s0 s"
  defines "port \<equiv> (case first_io_port (map (bar_of cs d) [0..<6]) of None \<Rightarrow> 0 | Some p \<Rightarrow> p + quirk_offset cs d)"
  shows "wp (use_controller (device_of cs d)) (\<lambda>_ s'. ram s' = (if port = 0 then ram s0 else ram (patch_bda port s0))
    \<and> quiet (s0\<lparr>ram := ram s'\<rparr>) s') s" (is "wp _ ?Q s")
  unfolding use_controller_def
proof (rule wp_printf_then)
  fix s2 assume "quiet s s2"
  then have q2: "quiet s0 s2" and "config_space cs (port_in8 s2) (port_in32 s2)"
    using assms(1,2) quiet_trans by (blast, simp add: quiet_def)
  from config_space.first_iobar [OF this(2) refl, of d] obtain s3 where
    s3: "pci_first_iobar_base (device_of cs d) s2 = Some (Inr (first_io_port (map (bar_of cs d) [0..<6]), s3))" "quiet s2 s3"
    by blast
  have q3: "quiet s0 s3" using q2 s3(2) by (rule quiet_trans)
  show "wp (andthen (pci_first_iobar_base (device_of cs d)) (\<lambda>iobar. case iobar of
       None \<Rightarrow> printf ''Controller has no PIO BAR.\<newline>'' []
     | Some raw_iobase \<Rightarrow>
         andthen (apply_quirks (device_of cs d) raw_iobase) (\<lambda>iobase.
         if iobase \<noteq> 0
         then andthen (printf ''Patching BDA with I/O port 0x%x.\<newline>'' [Va_word (ucast iobase)]) (\<lambda>_.
              modifies (patch_bda iobase))
         else printf ''I/O ports for controller not found.\<newline>'' []))) ?Q s2"
  proof (cases "first_io_port (map (bar_of cs d) [0..<6])")
    case None
    then show ?thesis
      using s3(1) printf_unchanged [OF q3, of "''Controller has no PIO BAR.\<newline>''"] by (simp add: wp_Inr is_conv_def port_def)
  next
    case (Some raw)
    obtain s4 where s4: "apply_quirks (device_of cs d) raw s3 = Some (Inr (port, s4))" "quiet s3 s4"
      using apply_quirks_result [of "device_of cs d" raw s3] Some unfolding quirk_of_device quirk_offset_def port_def by auto
    have q4: "quiet s0 s4" using q3 s4(2) by (rule quiet_trans)
    show ?thesis
    proof (cases "port = 0")
      case True
      then show ?thesis
        using s3(1) s4(1) Some printf_unchanged [OF q4, of "''I/O ports for controller not found.\<newline>''"]
        by (simp add: wp_Inr is_conv_def)
    next
      case False
      have "wp (andthen (printf ''Patching BDA with I/O port 0x%x.\<newline>'' [Va_word (ucast port)]) (\<lambda>_.
              modifies (patch_bda port))) ?Q s4"
      proof (rule wp_printf_then)
        fix s5 assume "quiet s4 s5"
        with q4 have "quiet s0 s5" by (rule quiet_trans)
        then have "?Q () (patch_bda port s5)" using False by (simp add: patch_bda_def Let_def quiet_def)
        then show "wp (modifies (patch_bda port)) ?Q s5" unfolding wp_modifies .
      qed (simp add: is_conv_def va_uint_def)
      then show ?thesis using s3(1) s4(1) Some False by (simp add: wp_Inr)
    qed
  qed
qed (simp add: is_conv_def va_uint_def)

lemma find_controller_result:
  assumes "config_space cs (port_in8 s) (port_in32 s)"
  shows "wp (find_controller cfg) (\<lambda>_ s'. ram s' = bda_after cfg cs (ram s) \<and> quiet (s\<lparr>ram := ram s'\<rparr>) s') s"
proof (cases "accept_legacy cfg \<and> load16 (ram s) 0x410 AND 7 \<noteq> 0")
  case True
  then have "bda_after cfg cs (ram s) = ram s" by (simp add: bda_after_def Let_def)
  then show ?thesis
    using True printf_unchanged [OF quiet_refl, of "''Found legacy serial. Skipping PCI discovery.\<newline>'' " s]
    by (simp add: find_controller_def bda_equipment_def is_conv_def)
next
  case legacy: False
  let ?cs = "controllers (be_promisc cfg) cs"
  define pred where "pred = (if be_promisc cfg then is_simple_comm else is_serial_controller)"
  have p: "\<exists>s'. pred (device_of cs x) t = Some (Inr (wanted (be_promisc cfg) cs x, s')) \<and> quiet t s'"
    if "port_in32 t = port_in32 s" for x t
    using config_space.matches_class [OF assms that] by (simp add: pred_def wanted_def is_simple_comm_def is_serial_controller_def)
  obtain s1 where s1: "last_matching pred PCI_ITER_INIT None s = Some (Inr ((case ?cs of [] \<Rightarrow> None
      | xs \<Rightarrow> Some (device_of cs (last xs))), s1))" "quiet s s1"
    using last_matching_last [of cs s s pred "wanted (be_promisc cfg) cs" PCI_ITER_INIT None, OF assms p refl iter_ok_init]
    unfolding remaining_init controllers_def by blast
  have run: "wp (find_controller cfg) Q s = wp (case ?cs of [] \<Rightarrow> printf ''  none found.\<newline>'' []
      | xs \<Rightarrow> use_controller (device_of cs (last xs))) Q s1" for Q
    unfolding find_controller_def pred_def [symmetric]
    using legacy s1(1) by (auto simp: wp_Inr bda_equipment_def split: list.split)
  show ?thesis
  proof (cases ?cs)
    case Nil
    then show ?thesis
      using printf_unchanged [OF s1(2), of "''  none found.\<newline>''"]
      by (simp add: run is_conv_def bda_after_def port_of_def Let_def)
  next
    case (Cons x xs)
    have "config_space cs (port_in8 s1) (port_in32 s1)" using assms s1(2) by (simp add: quiet_def)
    note use = use_controller_result [OF this s1(2), of "last ?cs"]
    have port: "(case first_io_port (map (bar_of cs (last ?cs)) [0..<6]) of None \<Rightarrow> 0 | Some p \<Rightarrow> p + quirk_offset cs (last ?cs))
        = port_of cs ?cs"
    proof -
      have "?cs \<noteq> []" using Cons by simp
      then show ?thesis by (simp only: port_of_def if_False)
    qed
    have "bda_after cfg cs (ram s) = (if port_of cs ?cs = 0 then ram s else ram (patch_bda (port_of cs ?cs) s))"
      using legacy by (auto simp: bda_after_def Let_def patch_bda_ram)
    moreover have "(case ?cs of [] \<Rightarrow> printf ''  none found.\<newline>'' [] | xs \<Rightarrow> use_controller (device_of cs (last xs)))
        = use_controller (device_of cs (last ?cs))" using Cons by simp
    ultimately show ?thesis using use unfolding run port by (simp only:)
  qed
qed

text \<open>What the BIOS data area says when a port has been written.\<close>

lemma one_serial_port: "serial_ports (store16 m 0x410 ((x AND NOT 0x1E00) OR 0x200)) = 1"
proof -
  have "ucast (drop_bit 9 ((x AND NOT 0x1E00) OR 0x200) :: u16) AND 7 = (1 :: u32)"
    by (rule bit_word_eqI) (auto simp: bit_simps numeral_eq_Suc less_Suc_eq)
  then show ?thesis by (simp add: serial_ports_def bda_equipment_def mem_simps)
qed

lemma bda_after_port:
  assumes "port_of cs (controllers (be_promisc cfg) cs) \<noteq> 0" and "\<not> (accept_legacy cfg \<and> load16 m 0x410 AND 7 \<noteq> 0)"
  shows "load16 (bda_after cfg cs m) 0x400 = port_of cs (controllers (be_promisc cfg) cs)" "serial_ports (bda_after cfg cs m) = 1"
proof -
  let ?p = "port_of cs (controllers (be_promisc cfg) cs)"
  let ?m = "store16 m 0x400 ?p" and ?v = "(load16 m 0x410 AND NOT 0x1E00) OR 0x200"
  have b: "bda_after cfg cs m = store16 ?m 0x410 ?v" using assms by (auto simp: bda_after_def Let_def)
  have "load16 (store16 ?m 0x410 ?v) 0x400 = load16 ?m 0x400"
    by (rule load16_store16_other) (simp_all add: fits_def apart_def)
  then show "load16 (bda_after cfg cs m) 0x400 = ?p" unfolding b by (simp add: mem_simps)
  show "serial_ports (bda_after cfg cs m) = 1" unfolding b by (rule one_serial_port)
qed

text \<open>
  The test for legacy ports reads bits 0 to 2 of the equipment word, the number of ports is in bits 9 to 11:
  with \<open>accept_legacy\<close> a machine without ports is left without one. The patch also clears bit 12.
\<close>

lemma legacy_test_other_bits:
  assumes "accept_legacy cfg" and "load16 m 0x410 = 1"
  shows "serial_ports m = 0" "bda_after cfg cs m = m"
  using assms by (simp_all add: serial_ports_def bda_equipment_def bda_after_def Let_def drop_bit_Suc numeral_eq_Suc)

lemma patch_clears_bit_12: "\<not> bit (load16 (ram (patch_bda port s)) 0x410) 12"
  unfolding patch_bda_ram by (simp add: mem_simps bit_simps)

section \<open>main\<close>

lemma serial_init_result:
  "ram (serial_init s) = ram s" "serial_base (serial_init s) = load16 (ram s) 0x400"
  "port_in8 (serial_init s) = port_in8 s" "port_in32 (serial_init s) = port_in32 s"
  by (simp_all add: serial_init_def serial_init_port_def outb_def Let_def bda_com0_def)

lemma boot_next_runs:
  "\<exists>s'. boot_next v mbi cfg s = start_module mbi (phys_max_relocate cfg) s' \<and> ram s' = ram s \<and> port_in8 s' = port_in8 s
    \<and> serial_base s' = (if serial_ports (ram s) \<noteq> 0 then load16 (ram s) 0x400 else serial_base s)"
proof -
  let ?t = "if serial_ports (ram s) \<noteq> 0 then serial_init s else s"
  have "expand (\<lambda>_. None) (directives ''\<newline>Bender %s'') [Va_lit v] \<noteq> None" by (simp add: is_conv_def)
  from printf_then [OF this no_strings, of ?t, where 'a = ending]
  obtain s' where s': "quiet ?t s'" "\<forall>k :: unit \<Rightarrow> (machine, ending) comp. andthen (printf ''\<newline>Bender %s'' [Va_lit v]) k ?t = k () s'"
    by blast
  have "boot_next v mbi cfg s = start_module mbi (phys_max_relocate cfg) s'"
    unfolding boot_next_def by (simp only: andthen_simps s'(2) if_distrib [symmetric])
  moreover have "ram s' = ram s" "port_in8 s' = port_in8 s"
      "serial_base s' = (if serial_ports (ram s) \<noteq> 0 then load16 (ram s) 0x400 else serial_base s)"
    using s'(1) by (simp_all add: quiet_def serial_init_result split: if_splits)
  ultimately show ?thesis by blast
qed

lemma main_runs:
  assumes "config_space cs (port_in8 s) (port_in32 s)"
    and "(if mbi_flags (ram s) mbi AND MBI_FLAG_CMDLINE \<noteq> 0
          then parse_cmdline buf (mbi_cmdline (ram s) mbi) initial_config s else ret initial_config s) = Some (Inr (cfg, s\<lparr>ram := m1\<rparr>))"
  shows "\<exists>s'. main buf v MBI_MAGIC mbi s = start_module mbi (phys_max_relocate cfg) s' \<and> ram s' = bda_after cfg cs m1
    \<and> serial_base s' = (if serial_ports (ram s') \<noteq> 0 then load16 (ram s') 0x400 else serial_base s) \<and> port_in8 s' = port_in8 s"
proof -
  note pr = printf_then [where 'a = ending, OF _ no_strings]
  have "expand (\<lambda>_. None) (directives ''\<newline>Bender %s'') [Va_lit v] \<noteq> None" by (simp add: is_conv_def)
  from pr [OF this, of "s\<lparr>ram := m1\<rparr>"] obtain s1 where s1: "quiet (s\<lparr>ram := m1\<rparr>) s1"
    "\<forall>k :: unit \<Rightarrow> (machine, ending) comp. andthen (printf ''\<newline>Bender %s'' [Va_lit v]) k (s\<lparr>ram := m1\<rparr>) = k () s1" by blast
  have "expand (\<lambda>_. None) (directives ''Looking for serial controllers on the PCI bus...\<newline>'') [] \<noteq> None" by (simp add: is_conv_def)
  from pr [OF this, of s1] obtain s2 where s2: "quiet s1 s2"
    "\<forall>k :: unit \<Rightarrow> (machine, ending) comp. andthen (printf ''Looking for serial controllers on the PCI bus...\<newline>'' []) k s1 = k () s2" by blast
  let ?on = "Va_lit (if be_promisc cfg then ''on'' else ''off'')"
  have "expand (\<lambda>_. None) (directives ''Promisc is %s.\<newline>'') [?on] \<noteq> None" by (simp add: is_conv_def)
  from pr [OF this, of s2] obtain s3 where s3: "quiet s2 s3"
    "\<forall>k :: unit \<Rightarrow> (machine, ending) comp. andthen (printf ''Promisc is %s.\<newline>'' [?on]) k s2 = k () s3" by blast
  have q: "quiet (s\<lparr>ram := m1\<rparr>) s3" using s1(1) s2(1) s3(1) quiet_trans by blast
  then have "config_space cs (port_in8 s3) (port_in32 s3)" using assms(1) by (simp add: quiet_def)
  from find_controller_result [OF this, of cfg] obtain s4 where s4: "find_controller cfg s3 = Some (Inr ((), s4))"
    "ram s4 = bda_after cfg cs (ram s3)" "quiet (s3\<lparr>ram := ram s4\<rparr>) s4" by (auto simp: wp_iff)
  obtain s5 where s5: "boot_next v mbi cfg s4 = start_module mbi (phys_max_relocate cfg) s5" "ram s5 = ram s4" "port_in8 s5 = port_in8 s4"
    "serial_base s5 = (if serial_ports (ram s4) \<noteq> 0 then load16 (ram s4) 0x400 else serial_base s4)"
    using boot_next_runs by blast
  have "main buf v MBI_MAGIC mbi s = start_module mbi (phys_max_relocate cfg) s5"
    unfolding main_def if_P [OF refl]
    by (simp only: andthen_Inr [where m = "\<lambda>s. if mbi_flags (ram s) mbi AND MBI_FLAG_CMDLINE \<noteq> 0
          then parse_cmdline buf (mbi_cmdline (ram s) mbi) initial_config s else ret initial_config s", OF assms(2)]
        s1(2) s2(2) s3(2) andthen_Inr [where m = "find_controller cfg", OF s4(1)] s5(1))
  moreover have "ram s5 = bda_after cfg cs m1" "serial_base s4 = serial_base s" "port_in8 s5 = port_in8 s"
    using s5(2,3) s4(2,3) q by (simp_all add: quiet_def)
  ultimately show ?thesis using s5(2,4) by auto
qed

lemma main_rejects:
  assumes "magic \<noteq> MBI_MAGIC"
  shows "\<exists>s'. main buf v magic mbi s = Some (Inr (Return 1, s')) \<and> quiet s s'"
proof -
  have "wp (main buf v magic mbi) (\<lambda>x s'. x = Return 1 \<and> quiet s s') s"
    unfolding main_def if_not_P [OF assms]
    by (cases "magic = MBI2_MAGIC"; simp only: if_True if_False simp_thms; rule wp_printf_then; simp add: is_conv_def)
  then show ?thesis by (auto simp: wp_iff)
qed

section \<open>Properties\<close>

text \<open>
  C33. Parsing a command line of less than 256 characters ends; the words after the first one set the
  options they name, in whatever order they come, and unknown words do nothing. Only the local buffer
  is written.
\<close>

theorem parse_cmdline_options:
  assumes "cstr (ram s) cmdline str" and "length str < 256" and "length str < unat (buf - cmdline)"
    and "buf \<noteq> 0" and "fits buf 256"
  shows "\<exists>s'. parse_cmdline buf cmdline cfg s = Some (Inr (options_of (tl (words [0x20] str)) cfg, s'))
    \<and> s' = s\<lparr>ram := ram s'\<rparr> \<and> (\<forall>a. \<not> in_region buf 256 a \<longrightarrow> ram s' a = ram s a)"
  by (rule parse_cmdline_sets [OF assms])

definition sample_line :: "u8 list" where
  "sample_line = map of_char ''bender phys_max=256M promisc''"

lemma parse_cmdline_options_witness:
  "\<exists>s'. parse_cmdline 0x2000 0x100 initial_config (blank\<lparr>ram := sample (sample_line @ [0])\<rparr>)
    = Some (Inr (\<lparr>be_promisc = True, accept_legacy = False, phys_max_relocate = 0x10000000\<rparr>, s'))"
proof -
  have len: "length sample_line = 28" by (simp add: sample_line_def)
  have "read_bytes (sample (sample_line @ [0])) 0x100 (Suc (length sample_line)) = sample_line @ [0]"
    unfolding sample_def by (rule read_write_same) (simp_all add: len)
  then have c: "cstr (ram (blank\<lparr>ram := sample (sample_line @ [0])\<rparr>)) 0x100 sample_line"
    unfolding cstr_iff_read by (simp add: sample_line_def)
  have w: "words [0x20] sample_line = map (map of_char) [''bender'', ''phys_max=256M'', ''promisc'']"
    by (simp add: sample_line_def words.simps)
  have "options_of (tl (words [0x20] sample_line)) initial_config
    = \<lparr>be_promisc = True, accept_legacy = False, phys_max_relocate = 0x10000000\<rparr>"
    by (simp add: w options_of_def initial_config_def)
  then show ?thesis
    using parse_cmdline_options [OF c, of "0x2000" initial_config] by (auto simp: len fits_def)
qed

text \<open>
  C11. The search for a serial controller ends. Unless legacy ports are accepted and the equipment word
  seems to show one, the last matching function on the buses is chosen; the port of its first I/O register,
  with the offset of its quirk, is written as the first port of the BIOS data area, which then shows one
  serial port. Without a controller or a port memory stays as it is.
\<close>

theorem find_controller_patches:
  assumes "config_space cs (port_in8 s) (port_in32 s)"
  shows "\<exists>s'. find_controller cfg s = Some (Inr ((), s')) \<and> ram s' = bda_after cfg cs (ram s) \<and> quiet (s\<lparr>ram := ram s'\<rparr>) s'
    \<and> (port_of cs (controllers (be_promisc cfg) cs) \<noteq> 0 \<and> \<not> (accept_legacy cfg \<and> load16 (ram s) 0x410 AND 7 \<noteq> 0) \<longrightarrow>
        load16 (ram s') 0x400 = port_of cs (controllers (be_promisc cfg) cs) \<and> serial_ports (ram s') = 1)"
proof -
  obtain s' where s': "find_controller cfg s = Some (Inr ((), s'))" "ram s' = bda_after cfg cs (ram s)" "quiet (s\<lparr>ram := ram s'\<rparr>) s'"
    using find_controller_result [OF assms, of cfg] by (auto simp: wp_iff)
  then show ?thesis using bda_after_port [of cs cfg "ram s"] by (intro exI [of _ s'] conjI impI) simp_all
qed

text \<open>Other ports than the four of the data register do not matter for the configuration space.\<close>

lemma config_space_other:
  assumes "config_space cs in8 in32" and "p < 0xCFC \<or> 0xCFF < (p :: u16)"
  shows "config_space cs (\<lambda>h port. if port = p then f h port else in8 h port) in32"
proof
  fix a :: u32 and h
  have "unat (a AND 3) \<le> 3" using word_and_le1 [of a 3] by (simp add: word_le_nat_alt)
  then obtain k where "a AND 3 = of_nat k" "k \<in> {0, 1, 2, 3 :: nat}"
    by (intro that [of "unat (a AND 3)"]) auto
  then have "PCI_DATA_PORT + ucast (a AND 3) \<noteq> p" using assms(2) by (auto simp: PCI_DATA_PORT_def)
  then show "(if PCI_DATA_PORT + ucast (a AND 3) = p then f (OutL PCI_ADDR_PORT a # h) (PCI_DATA_PORT + ucast (a AND 3))
      else in8 (OutL PCI_ADDR_PORT a # h) (PCI_DATA_PORT + ucast (a AND 3))) = ucast (drop_bit (8 * unat (a AND 3)) (cs (dword_of a)))"
    using config_space.byte [OF assms(1)] by simp
qed (rule config_space.dword [OF assms(1)])

text \<open>A machine all of whose functions are serial controllers with the port 0x3F8.\<close>

definition all_serial :: "u32 \<Rightarrow> u32" where
  "all_serial a = 0x070003F9"

lemma all_serial_port: "port_of all_serial (controllers False all_serial) = 0x3F8"
proof -
  have "functions_from all_serial 0 \<noteq> []"
    by (simp add: functions_from_def functions_of_def present_def multifunction_def all_serial_def upt_conv_Cons [of 0 8192])
  moreover have "wanted False all_serial x" for x
    by (simp add: wanted_def class_matches_def class_of_def subclass_of_def all_serial_def PCI_CLASS_SIMPLE_COMM_def PCI_SUBCLASS_SERIAL_CTRL_def)
  ultimately have "controllers False all_serial \<noteq> []" by (simp add: controllers_def)
  moreover have "first_io_port (map (bar_of all_serial x) [0..<6]) = Some 0x3F8" for x
    by (simp add: bar_of_def all_serial_def first_io_port_def upt_rec [of 0 6] upt_rec bit_0)
  ultimately show ?thesis by (simp add: port_of_def quirk_offset_def) (simp add: all_serial_def)
qed

definition serial_machine :: machine where
  "serial_machine = (pci_machine all_serial)\<lparr>ram := \<lambda>_. 0\<rparr>"

lemma serial_machine_simps: "port_in8 serial_machine = bridge8 all_serial" "port_in32 serial_machine = bridge32 all_serial"
  "ram serial_machine = (\<lambda>_. 0)"
  by (simp_all add: serial_machine_def)

lemma find_controller_patches_witness:
  "\<exists>s'. find_controller initial_config serial_machine = Some (Inr ((), s'))
    \<and> load16 (ram s') 0x400 = 0x3F8 \<and> serial_ports (ram s') = 1"
  using find_controller_patches [of all_serial serial_machine initial_config] bridge.config_space_axioms all_serial_port
  by (auto simp: serial_machine_simps initial_config_def)

lemma main_result:
  assumes "config_space cs (port_in8 s) (port_in32 s)"
    and "mbi_flags (ram s) mbi AND MBI_FLAG_CMDLINE \<noteq> 0 \<longrightarrow> cstr (ram s) (mbi_cmdline (ram s) mbi) str \<and> length str < 256
      \<and> length str < unat (buf - mbi_cmdline (ram s) mbi) \<and> buf \<noteq> 0 \<and> fits buf 256"
    and "(if mbi_flags (ram s) mbi AND MBI_FLAG_CMDLINE \<noteq> 0 then options_of (tl (words [0x20] str)) initial_config else initial_config) = cfg"
  shows "\<exists>m1 s'. main buf v MBI_MAGIC mbi s = start_module mbi (phys_max_relocate cfg) s'
    \<and> (\<forall>a. \<not> in_region buf 256 a \<longrightarrow> m1 a = ram s a) \<and> ram s' = bda_after cfg cs m1
    \<and> serial_base s' = (if serial_ports (ram s') \<noteq> 0 then load16 (ram s') 0x400 else serial_base s) \<and> port_in8 s' = port_in8 s"
proof -
  obtain m1 where m1: "(if mbi_flags (ram s) mbi AND MBI_FLAG_CMDLINE \<noteq> 0
      then parse_cmdline buf (mbi_cmdline (ram s) mbi) initial_config s else ret initial_config s) = Some (Inr (cfg, s\<lparr>ram := m1\<rparr>))"
    "\<forall>a. \<not> in_region buf 256 a \<longrightarrow> m1 a = ram s a"
  proof (cases "mbi_flags (ram s) mbi AND MBI_FLAG_CMDLINE = 0")
    case True
    then show ?thesis using that [of "ram s"] assms(3) by (simp add: ret_def)
  next
    case False
    then have c: "cstr (ram s) (mbi_cmdline (ram s) mbi) str" "length str < 256" "length str < unat (buf - mbi_cmdline (ram s) mbi)"
      "buf \<noteq> 0" "fits buf 256" and cfg: "options_of (tl (words [0x20] str)) initial_config = cfg"
      using assms(2,3) by simp_all
    then obtain s1 where "parse_cmdline buf (mbi_cmdline (ram s) mbi) initial_config s = Some (Inr (cfg, s1))"
      "s1 = s\<lparr>ram := ram s1\<rparr>" "\<forall>a. \<not> in_region buf 256 a \<longrightarrow> ram s1 a = ram s a"
      using parse_cmdline_sets [OF c, of initial_config] unfolding cfg by (elim exE conjE)
    then show ?thesis using that [of "ram s1"] False by simp
  qed
  from main_runs [OF assms(1) m1(1), of v] m1(2) show ?thesis by blast
qed

text \<open>
  C10. Booted by a Multiboot1 loader, main reads the options, searches the controller and then starts the next
  module: in a state in which only the buffer of the command line and the BIOS data area have changed, with
  the serial line at the first port if the BIOS data area shows one, and with the memory limit that the
  options set.
\<close>

theorem main_prepares:
  assumes "config_space cs (port_in8 s) (port_in32 s)"
    and "mbi_flags (ram s) mbi AND MBI_FLAG_CMDLINE \<noteq> 0 \<longrightarrow> cstr (ram s) (mbi_cmdline (ram s) mbi) str \<and> length str < 256
      \<and> length str < unat (buf - mbi_cmdline (ram s) mbi) \<and> buf \<noteq> 0 \<and> fits buf 256"
    and "(if mbi_flags (ram s) mbi AND MBI_FLAG_CMDLINE \<noteq> 0 then options_of (tl (words [0x20] str)) initial_config else initial_config) = cfg"
  shows "\<exists>m1 s'. main buf v MBI_MAGIC mbi s = start_module mbi (phys_max_relocate cfg) s'
    \<and> (\<forall>a. \<not> in_region buf 256 a \<longrightarrow> m1 a = ram s a) \<and> ram s' = bda_after cfg cs m1
    \<and> serial_base s' = (if serial_ports (ram s') \<noteq> 0 then load16 (ram s') 0x400 else serial_base s)"
  using main_result [OF assms, of v] by blast

lemma main_prepares_witness:
  "\<exists>s'. main 0x2000 ''v1'' MBI_MAGIC 0x500 serial_machine = start_module 0x500 0x80000000 s' \<and> serial_base s' = 0x3F8"
proof -
  have f: "mbi_flags (\<lambda>_. 0) 0x500 = 0" by (simp add: mbi_flags_def load32_bytes)
  have "config_space all_serial (port_in8 serial_machine) (port_in32 serial_machine)"
    using bridge.config_space_axioms by (simp add: serial_machine_simps)
  from main_prepares [OF this, of "0x500" "[]" "0x2000" initial_config "''v1''"] obtain m1 s' where
    s': "main 0x2000 ''v1'' MBI_MAGIC 0x500 serial_machine = start_module 0x500 (phys_max_relocate initial_config) s'"
    "ram s' = bda_after initial_config all_serial m1"
    "serial_base s' = (if serial_ports (ram s') \<noteq> 0 then load16 (ram s') 0x400 else serial_base serial_machine)"
    by (auto simp: serial_machine_simps f)
  then show ?thesis
    using bda_after_port [of all_serial initial_config m1] all_serial_port by (auto simp: initial_config_def)
qed

text \<open>
  Booted by anything else, main prints a message, returns 1 and leaves memory alone.
\<close>

theorem main_rejects_other_loaders:
  assumes "magic \<noteq> MBI_MAGIC"
  shows "\<exists>s'. main buf v magic mbi s = Some (Inr (Return 1, s')) \<and> quiet s s'"
  by (rule main_rejects [OF assms])

lemma main_rejects_other_loaders_witness:
  "\<exists>s'. main 0x2000 ''v1'' MBI2_MAGIC 0x500 blank = Some (Inr (Return 1, s')) \<and> quiet blank s'"
  by (rule main_rejects_other_loaders) (simp add: MBI_MAGIC_def MBI2_MAGIC_def)

end
