(* ===== verification/Boot_Chain_Proof.thy ===== *)
theory Boot_Chain_Proof imports Boot_Proof Bender_Proof begin

text \<open>
  From the entry of \<open>main\<close> to the entry of the kernel: reading the options writes the command line buffer,
  the search for a serial controller writes the BIOS data area, and what start_module works on is not
  touched by either.
\<close>

unbundle bit_operations_syntax

section \<open>What the command line buffer must leave alone\<close>

text \<open>
  The \<open>n\<close> bytes at \<open>q\<close> lie apart from the Multiboot1 information, the module array, the modules with their command lines
  and the memory map \<open>ps\<close>.
\<close>

definition buffer_apart :: "mem \<Rightarrow> u32 \<Rightarrow> module_image list \<Rightarrow> u32 list \<Rightarrow> u32 \<Rightarrow> nat \<Rightarrow> bool" where
  "buffer_apart m mbi ms ps q n \<longleftrightarrow> fits q n \<and> apart q n mbi 52 \<and> apart q n (mbi_mods_addr m mbi) (16 * length ms)
     \<and> (\<forall>i<length ms. module_clear m (module_ptr (mbi_mods_addr m mbi) i) (ms ! i) q n)
     \<and> mmap_chain m (mbi_mmap_addr m mbi + mbi_mmap_length m mbi) (mbi_mmap_addr m mbi) ps
     \<and> (\<forall>p\<in>set ps. fits p 24 \<and> apart q n p 24)"

text \<open>The search for the root pointer and what it finds lie apart from it, too.\<close>

definition root_apart :: "mem \<Rightarrow> u32 \<Rightarrow> u32 \<Rightarrow> nat \<Rightarrow> bool" where
  "root_apart m rsdp q n \<longleftrightarrow> apart q n 0x400 0x404 \<and> apart q n 0xe0000 0x20004
     \<and> (rsdp \<noteq> 0 \<longrightarrow> fits rsdp 24 \<and> apart q n rsdp 24
          \<and> fits rsdp (unat (rsdp_length m rsdp)) \<and> apart q n rsdp (unat (rsdp_length m rsdp)))"

lemma read_kept:
  assumes "\<forall>a. \<not> in_region q n a \<longrightarrow> m' a = m a" and "fits q n" and "fits p k" and "apart q n p k"
  shows "read_bytes m' p k = read_bytes m p k"
  by (rule read_bytes_cong) (use assms(1) apart_not_in_region [OF assms(4,2,3)] in blast)

text \<open>The memory map is the same, so the search finds the same block.\<close>

lemma entry_fields_same:
  assumes "read_bytes m' p 24 = read_bytes m p 24"
  shows "take_block m' p len limit best = take_block m p len limit best"
proof -
  have "mbi_memory_base_addr m' p = mbi_memory_base_addr m p" "mbi_memory_length m' p = mbi_memory_length m p" "mmap_type m' p = mmap_type m p"
    using load32_same [OF assms, of 4] load32_same [OF assms, of 8] load32_same [OF assms, of 12]
      load32_same [OF assms, of 16] load32_same [OF assms, of 20]
    by (simp_all add: mbi_memory_base_addr_def mbi_memory_length_def mmap_type_def)
  then show ?thesis unfolding take_block_def page_block_def by (simp only:)
qed

lemma find_memory_same:
  assumes "mmap_chain m (mbi_mmap_addr m mbi + mbi_mmap_length m mbi) (mbi_mmap_addr m mbi) ps"
    and "\<forall>p\<in>set ps. read_bytes m' p 24 = read_bytes m p 24"
    and "mbi_mmap_addr m' mbi = mbi_mmap_addr m mbi" "mbi_mmap_length m' mbi = mbi_mmap_length m mbi"
  shows "mbi_find_memory m' mbi len True limit = mbi_find_memory m mbi len True limit"
proof -
  have chain: "mmap_chain m' (mbi_mmap_addr m mbi + mbi_mmap_length m mbi) (mbi_mmap_addr m mbi) ps"
    by (rule chain_same [OF assms(1,2)])
  have "better_block m' len limit best p = better_block m len limit best p" if "p \<in> set ps" for best p
    unfolding better_block_def entry_fields_same [OF assms(2) [rule_format, OF that]] ..
  then have "foldl (better_block m' len limit) None ps = foldl (better_block m len limit) None ps"
    by (rule foldl_cong [OF refl refl])
  then show ?thesis
    unfolding mbi_find_memory_def Let_def assms(3,4) find_loop_fold [OF chain] find_loop_fold [OF assms(1)] by (simp only:)
qed

lemma module_kept_apart:
  assumes frame: "\<forall>a. \<not> in_region q n a \<longrightarrow> m' a = m a" and "fits q n" and "fits p 12" and "apart q n p 12"
    and "module_fits m p x" and "module_clear m p x q n"
  shows "mod_start m' p = mod_start m p" "mod_end m' p = mod_end m p" "mod_string m' p = mod_string m p"
    "module_at m' p x = module_at m p x"
proof -
  have P: "\<not> in_region q n (b + of_nat i)" if "apart q n b k" "fits b k" "i < k" for b k i
    using apart_not_in_region [OF that(1) assms(2) that(2,3)] .
  have "\<not> in_region q n (p + of_nat i)" if "i < 12" for i using P [OF assms(4,3) that] .
  moreover have "\<not> in_region q n (mod_start m p + of_nat i)" if "i < length (fst x)" for i
    using P assms(5,6) that unfolding module_fits_def module_clear_def by blast
  moreover have "\<not> in_region q n (mod_string m p + of_nat i)" if "i < Suc (length (snd x))" for i
    using P assms(5,6) that unfolding module_fits_def module_clear_def by blast
  ultimately show "mod_start m' p = mod_start m p" "mod_end m' p = mod_end m p" "mod_string m' p = mod_string m p"
    "module_at m' p x = module_at m p x"
    using module_same [of "\<lambda>a. \<not> in_region q n a" m' m p x] frame by blast+
qed

lemma layout_kept:
  assumes l: "boot_layout m mbi phys_max ms block" and b: "buffer_apart m mbi ms ps q n"
    and frame: "\<forall>a. \<not> in_region q n a \<longrightarrow> m' a = m a"
  shows "boot_layout m' mbi phys_max ms block" "mbi_mods_addr m' mbi = mbi_mods_addr m mbi" "mbi_flags m' mbi = mbi_flags m mbi"
    "mbi_mmap_addr m' mbi = mbi_mmap_addr m mbi" "mbi_mmap_length m' mbi = mbi_mmap_length m mbi"
    "\<forall>p\<in>set ps. read_bytes m' p 24 = read_bytes m p 24"
proof -
  let ?mods = "mbi_mods_addr m mbi"
  note L = layout_D [OF l refl]
  have B: "fits q n" "apart q n mbi 52" "apart q n ?mods (16 * length ms)"
    "\<forall>i<length ms. module_clear m (module_ptr ?mods i) (ms ! i) q n"
    "mmap_chain m (mbi_mmap_addr m mbi + mbi_mmap_length m mbi) (mbi_mmap_addr m mbi) ps" "\<forall>p\<in>set ps. fits p 24 \<and> apart q n p 24"
    using b unfolding buffer_apart_def by blast+
  note same = mbi_same [OF read_kept [OF frame B(1) L(9) B(2)]]
  show "mbi_mods_addr m' mbi = ?mods" "mbi_flags m' mbi = mbi_flags m mbi"
    "mbi_mmap_addr m' mbi = mbi_mmap_addr m mbi" "mbi_mmap_length m' mbi = mbi_mmap_length m mbi" by (rule same)+
  show ps: "\<forall>p\<in>set ps. read_bytes m' p 24 = read_bytes m p 24" using read_kept [OF frame B(1)] B(6) by blast
  have kept: "mod_start m' (module_ptr ?mods i) = mod_start m (module_ptr ?mods i)"
    "mod_end m' (module_ptr ?mods i) = mod_end m (module_ptr ?mods i)"
    "mod_string m' (module_ptr ?mods i) = mod_string m (module_ptr ?mods i)"
    "module_at m' (module_ptr ?mods i) (ms ! i) = module_at m (module_ptr ?mods i) (ms ! i)" if i: "i < length ms" for i
  proof -
    have ptr: "apart q n (module_ptr ?mods i) 12"
      using apart_entry [OF L(13) B(3) [unfolded apart_sym [of q]] i] by (simp add: apart_sym)
    have fit: "module_fits m (module_ptr ?mods i) (ms ! i)" using ready_D(2) [OF L(7) i] .
    note k = module_kept_apart [OF frame B(1) module_ptr_fits [OF L(13) i] ptr fit B(4) [rule_format, OF i]]
    show "mod_start m' (module_ptr ?mods i) = mod_start m (module_ptr ?mods i)"
      "mod_end m' (module_ptr ?mods i) = mod_end m (module_ptr ?mods i)"
      "mod_string m' (module_ptr ?mods i) = mod_string m (module_ptr ?mods i)"
      "module_at m' (module_ptr ?mods i) (ms ! i) = module_at m (module_ptr ?mods i) (ms ! i)" by (rule k)+
  qed
  have "ready m' ?mods ms (length ms) block (room_of ms)"
    using L(7) unfolding ready_def Let_def module_fits_def module_clear_def by (simp add: kept)
  moreover have "\<forall>i<length ms. mod_end m' (module_ptr ?mods i) \<le> block" using L(8) by (simp add: kept)
  moreover have "mbi_find_memory m' mbi (of_nat (room_of ms)) True phys_max = Some (Some block)"
    using find_memory_same [OF B(5) ps same(6,5)] L(5) by simp
  ultimately show "boot_layout m' mbi phys_max ms block"
    unfolding boot_layout_def Let_def same using L by (intro conjI) simp_all
qed

lemma sources_same:
  assumes l: "boot_layout m mbi phys_max ms block" and b: "buffer_apart m mbi ms ps q n" and r: "root_apart m rsdp q n"
    and frame: "\<forall>a. \<not> in_region q n a \<longrightarrow> m' a = m a" and src: "boot_sources m mbi ms block ps rsdp"
  shows "boot_sources m' mbi ms block ps rsdp" "kernel_tags m' mbi ms block ps rsdp = kernel_tags m mbi ms block ps rsdp"
proof -
  note K = layout_kept [OF l b frame]
  have q: "fits q n" using b by (simp add: buffer_apart_def)
  have spared: "spared m' mbi ms block p k = spared m mbi ms block p k" for p k by (simp add: spared_def K(2))
  have low: "read_bytes m' 0x400 0x404 = read_bytes m 0x400 0x404" "read_bytes m' 0xe0000 0x20004 = read_bytes m 0xe0000 0x20004"
    by (rule read_kept [OF frame q]; use r in \<open>simp add: root_apart_def fits_def\<close>)+
  have root: "rsdp_length m' rsdp = rsdp_length m rsdp" "rsdp_tag m' rsdp = rsdp_tag m rsdp" if "rsdp \<noteq> 0"
  proof -
    have R: "fits rsdp 24" "apart q n rsdp 24" "fits rsdp (unat (rsdp_length m rsdp))" "apart q n rsdp (unat (rsdp_length m rsdp))"
      using r that by (simp_all add: root_apart_def)
    note f = rsdp_same [OF read_kept [OF frame q R(1,2)]]
    show "rsdp_length m' rsdp = rsdp_length m rsdp" by (rule f)
    show "rsdp_tag m' rsdp = rsdp_tag m rsdp" using read_kept [OF frame q R(3,4)] by (simp add: rsdp_tag_def f)
  qed
  have S: "mbi_flags m mbi AND MBI_FLAG_MEM \<noteq> 0 \<Longrightarrow>
        mmap_chain m (mbi_mmap_addr m mbi + mbi_mmap_length m mbi) (mbi_mmap_addr m mbi) ps"
    using src by (simp add: boot_sources_def)
  show "boot_sources m' mbi ms block ps rsdp"
    using src chain_same [OF S K(6)] root(1) rsdp_found_same [OF low]
    unfolding boot_sources_def spared K(3,4,5) by auto
  show "kernel_tags m' mbi ms block ps rsdp = kernel_tags m mbi ms block ps rsdp"
    using payload_same [OF K(6)] root(2) by (simp add: kernel_tags_def memory_tags_def rsdp_tags_def K(3))
qed

text \<open>The patch of the BIOS data area does not look at the buffer.\<close>

lemma store16_frame:
  assumes "\<And>a. P a \<Longrightarrow> m' a = m a" and "P a"
  shows "store16 m' p v a = store16 m p v a"
  using assms by (simp add: store16_def write_bytes_apply)

lemma store16_outside: "\<not> in_region p 2 a \<Longrightarrow> store16 m p v a = m a"
  by (simp add: store16_def write_bytes_outside)

lemma store16_at: "store16 m p v a = (if a = p + 1 then ucast (drop_bit 8 v) else if a = p then ucast v else m a)"
  by (simp add: store16_def numeral_2_eq_2)

lemma bda_after_frame:
  assumes "fits q n" and "apart q n 0x400 0x12" and "\<forall>a. \<not> in_region q n a \<longrightarrow> m' a = m a"
  shows "\<forall>a. \<not> in_region q n a \<longrightarrow> bda_after cfg cs m' a = bda_after cfg cs m a"
proof -
  have "read_bytes m' 0x410 2 = read_bytes m 0x410 2"
    by (rule read_kept [OF assms(3,1)]) (use assms(2) in \<open>auto simp: fits_def apart_def\<close>)
  then have "load16 m' 0x410 = load16 m 0x410" by (simp add: load16_def)
  then show ?thesis
    using assms(3) by (auto simp: bda_after_def Let_def intro!: store16_frame [where P = "\<lambda>a. \<not> in_region q n a"])
qed

lemma bda_after_outside: "\<not> in_region 0x400 0x12 a \<Longrightarrow> bda_after cfg cs m a = m a"
proof -
  assume "\<not> in_region 0x400 0x12 a"
  moreover have "fits 0x400 0x12" "fits 0x400 2" "fits 0x410 2" by (simp_all add: fits_def)
  ultimately have "\<not> in_region 0x400 2 a" "\<not> in_region 0x410 2 a" by (auto simp: in_region_nat)
  then show ?thesis by (simp add: bda_after_def Let_def store16_outside)
qed

section \<open>The chain\<close>

text \<open>
  main with the command line \<open>str\<close>, if there is one, which sets the options \<open>cfg\<close>; the configuration space
  answers \<open>cs\<close>.
\<close>

definition options_given :: "mem \<Rightarrow> u32 \<Rightarrow> u32 \<Rightarrow> u8 list \<Rightarrow> config \<Rightarrow> bool" where
  "options_given m mbi buf str cfg \<longleftrightarrow>
     (if mbi_flags m mbi AND MBI_FLAG_CMDLINE \<noteq> 0
      then cstr m (mbi_cmdline m mbi) str \<and> length str < 256 \<and> length str < unat (buf - mbi_cmdline m mbi) \<and> buf \<noteq> 0
        \<and> options_of (tl (words [0x20] str)) initial_config = cfg
      else initial_config = cfg)"

lemma main_reads_options:
  assumes "config_space cs (port_in8 s) (port_in32 s)" and o: "options_given (ram s) mbi buf str cfg" and f: "fits buf 256"
  shows "\<exists>m1 s'. main buf v MBI_MAGIC mbi s = start_module mbi (phys_max_relocate cfg) s'
    \<and> (\<forall>a. \<not> in_region buf 256 a \<longrightarrow> m1 a = ram s a) \<and> ram s' = bda_after cfg cs m1 \<and> port_in8 s' = port_in8 s"
proof -
  have line: "cstr (ram s) (mbi_cmdline (ram s) mbi) str \<and> length str < 256 \<and> length str < unat (buf - mbi_cmdline (ram s) mbi) \<and> buf \<noteq> 0
      \<and> options_of (tl (words [0x20] str)) initial_config = cfg" if "mbi_flags (ram s) mbi AND MBI_FLAG_CMDLINE \<noteq> 0"
    using o unfolding options_given_def if_P [OF that] .
  have none: "initial_config = cfg" if "\<not> mbi_flags (ram s) mbi AND MBI_FLAG_CMDLINE \<noteq> 0"
    using o unfolding options_given_def if_not_P [OF that] .
  have opts: "mbi_flags (ram s) mbi AND MBI_FLAG_CMDLINE \<noteq> 0 \<longrightarrow> cstr (ram s) (mbi_cmdline (ram s) mbi) str \<and> length str < 256
      \<and> length str < unat (buf - mbi_cmdline (ram s) mbi) \<and> buf \<noteq> 0 \<and> fits buf 256"
    using line f by blast
  have "(if mbi_flags (ram s) mbi AND MBI_FLAG_CMDLINE \<noteq> 0 then options_of (tl (words [0x20] str)) initial_config else initial_config) = cfg"
  proof (cases "mbi_flags (ram s) mbi AND MBI_FLAG_CMDLINE \<noteq> 0")
    case True
    show ?thesis unfolding if_P [OF True] using line [OF True] by (elim conjE)
  next
    case False
    show ?thesis unfolding if_not_P [OF False] by (rule none [OF False])
  qed
  from main_result [OF assms(1) opts this, of v] show ?thesis by blast
qed

lemma main_hands_over:
  assumes "config_space cs (port_in8 s) (port_in32 s)" and o: "options_given (ram s) mbi buf str cfg"
    and "buffer_apart m0 mbi ms ps buf 256" and "apart buf 256 0x400 0x12" and m0: "bda_after cfg cs (ram s) = m0"
  shows "\<exists>s'. main buf v MBI_MAGIC mbi s = start_module mbi (phys_max_relocate cfg) s' \<and> (\<forall>a. \<not> in_region buf 256 a \<longrightarrow> ram s' a = m0 a)"
proof -
  have f: "fits buf 256" using assms(3) by (simp add: buffer_apart_def)
  from main_reads_options [OF assms(1) o f, of v] obtain m1 s' where
    s': "main buf v MBI_MAGIC mbi s = start_module mbi (phys_max_relocate cfg) s'"
    "\<forall>a. \<not> in_region buf 256 a \<longrightarrow> m1 a = ram s a" "ram s' = bda_after cfg cs m1" by blast
  have "\<forall>a. \<not> in_region buf 256 a \<longrightarrow> ram s' a = m0 a"
    unfolding s'(3) m0 [symmetric] by (rule bda_after_frame [OF f assms(4) s'(2)])
  then show ?thesis using s'(1) by (intro exI [of _ s'] conjI)
qed

text \<open>
  C2. Bender from its entry to a Multiboot1 kernel: started with the Multiboot1 magic number and an information
  that lists the modules \<open>ms\<close>, main reads the options from the command line, writes the port of the serial
  controller it finds into the BIOS data area, moves the modules below the limit the options set, and ends with a jump to 0x7C00 with the
  Multiboot1 information in EBX. The code there loads the program segments out of the file of the first module
  and enters it with the Multiboot1 magic number; the information then has the command line of the
  kernel and lists the other modules with their contents and command lines. Hypotheses on memory
  are about the memory before the start, patched by the search for the controller.
\<close>

theorem main_boots_mbi1:
  assumes "config_space cs (port_in8 s) (port_in32 s)" and "options_given (ram s) mbi buf str cfg"
    and "bda_after cfg cs (ram s) = m0" and "apart buf 256 0x400 0x12" and "buffer_apart m0 mbi ((img, name) # rest) ps buf 256"
    and "boot_layout m0 mbi (phys_max_relocate cfg) ((img, name) # rest) block"
    and "kernel_file cls img (block + 0x4000)"
    and "mbi2_header_find (alone (block + 0x4000) img) (block + 0x4000) (of_nat (length img)) = Some 0"
    and "code_clear m0 mbi ((img, name) # rest) block (code_size cls (alone (block + 0x4000) img) (block + 0x4000))"
  shows "\<exists>s'. main buf v MBI_MAGIC mbi s = Some (Inr (Jump 0 0x7C00 mbi, s'))
    \<and> enters cls (alone (block + 0x4000) img) (block + 0x4000) MBI_MAGIC mbi (ram s')
    \<and> read_bytes (ram s') (block + 0x4000) (length img) = img \<and> describes (ram s') mbi name rest"
proof -
  obtain s1 where s1: "main buf v MBI_MAGIC mbi s = start_module mbi (phys_max_relocate cfg) s1"
    "\<forall>a. \<not> in_region buf 256 a \<longrightarrow> ram s1 a = m0 a"
    using main_hands_over [OF assms(1,2,5,4,3)] by blast
  note K = layout_kept [OF assms(6,5) s1(2)]
  have "code_clear (ram s1) mbi ((img, name) # rest) block (code_size cls (alone (block + 0x4000) img) (block + 0x4000))"
    using assms(9) by (simp add: code_clear_def K(2))
  from boot_mbi1_result [OF K(1) assms(7,8) this] show ?thesis unfolding s1(1) by blast
qed

text \<open>
  C1. Bender from its entry to a Multiboot2 kernel: the same, when the file of the first module has a Multiboot2
  header. The jump has the new Multiboot2 information in EBX, whose tags are the command line of the kernel,
  the memory map, the other modules at the places they have been moved to and the root pointer; the kernel
  is entered with the Multiboot2 magic number. If the tags do not fit into the extra space, the assertion
  fails.
\<close>

theorem main_boots_mbi2:
  assumes "config_space cs (port_in8 s) (port_in32 s)" and "options_given (ram s) mbi buf str cfg"
    and "bda_after cfg cs (ram s) = m0" and "apart buf 256 0x400 0x12" and "buffer_apart m0 mbi ((img, name) # rest) ps buf 256"
    and "boot_layout m0 mbi (phys_max_relocate cfg) ((img, name) # rest) block"
    and "kernel_file cls img (block + 0x4000)"
    and "mbi2_header_find (alone (block + 0x4000) img) (block + 0x4000) (of_nat (length img)) = Some h" and "h \<noteq> 0"
    and "code_clear m0 mbi ((img, name) # rest) block (code_size cls (alone (block + 0x4000) img) (block + 0x4000))"
    and "unat block mod 8 = 0" and "0 < unat block" and "root_apart m0 rsdp buf 256"
    and "boot_sources m0 mbi ((img, name) # rest) block ps rsdp" and "kernel_tags m0 mbi ((img, name) # rest) block ps rsdp = ts"
  shows "if room_for (unat block + 8) (unat block + 0x4000) ts \<and> tags_end (unat block + 8) ts + 16 \<le> unat block + 0x4000
    then \<exists>s'. main buf v MBI_MAGIC mbi s = Some (Inr (Jump 0 0x7C00 block, s'))
      \<and> reads_tags (ram s') (mbi2_tag_first block) ts
      \<and> enters cls (alone (block + 0x4000) img) (block + 0x4000) MBI2_MAGIC block (ram s')
      \<and> read_bytes (ram s') (block + 0x4000) (length img) = img \<and> describes (ram s') mbi name rest
    else main buf v MBI_MAGIC mbi s = Some (Inl no_space)"
proof -
  obtain s1 where s1: "main buf v MBI_MAGIC mbi s = start_module mbi (phys_max_relocate cfg) s1"
    "\<forall>a. \<not> in_region buf 256 a \<longrightarrow> ram s1 a = m0 a"
    using main_hands_over [OF assms(1,2,5,4,3)] by blast
  note K = layout_kept [OF assms(6,5) s1(2)] and S = sources_same [OF assms(6,5,13) s1(2) assms(14)]
  have "code_clear (ram s1) mbi ((img, name) # rest) block (code_size cls (alone (block + 0x4000) img) (block + 0x4000))"
    using assms(10) by (simp add: code_clear_def K(2))
  from boot_mbi2_result [OF K(1) assms(7,8,9) this assms(11,12) S(1) trans [OF S(2) assms(15)]]
  show ?thesis unfolding s1(1) .
qed

section \<open>The machine with two modules and a PCI bus\<close>

definition chain_machine :: "bool \<Rightarrow> machine" where
  "chain_machine hdr = (pci_machine all_serial)\<lparr>ram := boot_memory hdr\<rparr>"

definition chain_config :: config where
  "chain_config = \<lparr>be_promisc = False, accept_legacy = False, phys_max_relocate = 0x10000000\<rparr>"

lemma chain_machine_simps: "port_in8 (chain_machine hdr) = bridge8 all_serial" "port_in32 (chain_machine hdr) = bridge32 all_serial"
  "ram (chain_machine hdr) = boot_memory hdr"
  by (simp_all add: chain_machine_def)

lemma chain_memory:
  "\<forall>a. \<not> in_region 0x400 0x12 a \<longrightarrow> bda_after chain_config all_serial (boot_memory hdr) a = boot_memory hdr a"
  "\<forall>a. in_region 0x400 0x12 a \<longrightarrow> bda_after chain_config all_serial (boot_memory hdr) a \<noteq> 82"
proof -
  let ?m = "boot_memory hdr"
  have f: "fits 0x400 0x12" "fits 0x400 2" "fits 0x410 2" by (simp_all add: fits_def)
  have z: "?m a = 0" if "in_region 0x400 0x12 a" for a using that by (intro boot_memory_areas) (simp add: in_region_nat [OF f(1)])
  have "load16 ?m 0x410 = 0" by (simp add: load16_bytes z in_region_def)
  then have b: "bda_after chain_config all_serial ?m = store16 (store16 ?m 0x400 0x3F8) 0x410 0x200"
    by (simp add: bda_after_def Let_def chain_config_def all_serial_port)
  show "\<forall>a. \<not> in_region 0x400 0x12 a \<longrightarrow> bda_after chain_config all_serial ?m a = ?m a"
    by (simp add: bda_after_outside)
  show "\<forall>a. in_region 0x400 0x12 a \<longrightarrow> bda_after chain_config all_serial ?m a \<noteq> 82"
  proof (intro allI impI)
    fix a assume "in_region 0x400 0x12 a"
    then have "?m a = 0" by (rule z)
    then show "bda_after chain_config all_serial ?m a \<noteq> 82" unfolding b store16_at by simp
  qed
qed

lemma chain_memory_layout:
  fixes hdr :: bool
  defines "m \<equiv> bda_after chain_config all_serial (boot_memory hdr)"
  shows "boot_layout m 0x9000 0x10000000 (boot_modules hdr) 0x10A000" "code_clear m 0x9000 (boot_modules hdr) 0x10A000 36"
    "buffer_apart m 0x9000 (boot_modules hdr) [0x1000] 0x8000 256" "root_apart m 0 0x8000 256"
    "boot_sources m 0x9000 (boot_modules hdr) 0x10A000 [0x1000] 0"
    "kernel_tags m 0x9000 (boot_modules hdr) 0x10A000 [0x1000] 0 = kernel_tags (boot_memory hdr) 0x9000 (boot_modules hdr) 0x10A000 [0x1000] 0"
proof -
  let ?m = "boot_memory hdr"
  have l: "boot_layout ?m 0x9000 0x10000000 (boot_modules hdr) 0x10A000" by (rule boot_memory_layout) simp
  have apart: "buffer_apart ?m 0x9000 (boot_modules hdr) [0x1000] q n"
    if "fits q n" "apart q n 0x9000 52" "apart q n 0x9100 0x20" "apart q n 0x1000 24" "apart q n 0x10000 0x6C" "apart q n 0x3000 1"
      "apart q n 0x2000 (Suc (Suc (Suc 0)))" "apart q n 0x3010 (Suc (Suc 0))" for q n
    using that unfolding buffer_apart_def boot_modules_room all_less_two
    by (simp add: boot_memory_fields module_ptr_def module_clear_def boot_modules_def length_boot_file mbi_memory_map_next_def fits_def)
  have frame: "\<forall>a. \<not> in_region 0x400 0x12 a \<longrightarrow> m a = ?m a" using chain_memory(1) by (simp add: m_def)
  have b: "buffer_apart ?m 0x9000 (boot_modules hdr) [0x1000] 0x400 0x12" by (rule apart) (simp_all add: fits_def apart_def)
  note K = layout_kept [OF l b frame]
  show "boot_layout m 0x9000 0x10000000 (boot_modules hdr) 0x10A000" by (rule K)
  show "code_clear m 0x9000 (boot_modules hdr) 0x10A000 36" using boot_memory_code [of hdr] by (simp add: code_clear_def K(2))
  show "root_apart m 0 0x8000 256" by (simp add: root_apart_def apart_def)
  show "kernel_tags m 0x9000 (boot_modules hdr) 0x10A000 [0x1000] 0 = kernel_tags ?m 0x9000 (boot_modules hdr) 0x10A000 [0x1000] 0"
    using payload_same [OF K(6)] by (simp add: kernel_tags_def memory_tags_def rsdp_tags_def K(3))
  have "m p \<noteq> 82" if "0x400 \<le> unat p \<and> unat p < 0x800 \<or> 0xe0000 \<le> unat p \<and> unat p < 0x100000" for p
    using boot_memory_areas [OF that, of hdr] chain_memory(2) [of hdr] frame by (cases "in_region 0x400 0x12 p") (simp_all add: m_def)
  then have "acpi_get_rsdp m = Some 0" by (rule no_root_pointer)
  then show "boot_sources m 0x9000 (boot_modules hdr) 0x10A000 [0x1000] 0"
    using boot_memory_sources [of hdr] chain_same [OF _ K(6), of "0x1018" "0x1000"]
    unfolding boot_sources_def spared_def K(2-5) by (simp add: boot_memory_fields mbi_memory_map_next_def)
  have ch: "mmap_chain m 0x1018 0x1000 [0x1000]"
    by (rule chain_same [OF _ K(6)]) (simp add: boot_memory_fields mbi_memory_map_next_def)
  have kept: "module_clear m (module_ptr 0x9100 i) (boot_modules hdr ! i) 0x8000 256 = module_clear ?m (module_ptr 0x9100 i) (boot_modules hdr ! i) 0x8000 256"
    if "i < 2" for i
  proof -
    have "read_bytes m (module_ptr 0x9100 i) 12 = read_bytes ?m (module_ptr 0x9100 i) 12"
      by (rule read_kept [OF frame]) (use that in \<open>auto simp: less_2_cases_iff module_ptr_def fits_def apart_def\<close>)
    from mod_same [OF this] show ?thesis by (simp add: module_clear_def)
  qed
  have b': "buffer_apart ?m 0x9000 (boot_modules hdr) [0x1000] 0x8000 256" by (rule apart) (simp_all add: fits_def apart_def)
  show "buffer_apart m 0x9000 (boot_modules hdr) [0x1000] 0x8000 256"
    using b' ch kept unfolding buffer_apart_def K(2,4,5) by (simp add: boot_memory_fields boot_modules_room)
qed

lemma chain_machine_options:
  "config_space all_serial (port_in8 (chain_machine hdr)) (port_in32 (chain_machine hdr))"
  "options_given (ram (chain_machine hdr)) 0x9000 0x8000 boot_line chain_config"
proof -
  show "config_space all_serial (port_in8 (chain_machine hdr)) (port_in32 (chain_machine hdr))"
    using bridge.config_space_axioms by (simp add: chain_machine_simps)
  have w: "words [0x20] boot_line = map (map of_char) [''b'', ''phys_max=256M'']" by (simp add: boot_line_def words.simps)
  have "options_of (tl (words [0x20] boot_line)) initial_config = chain_config"
    by (simp add: w options_of_def initial_config_def chain_config_def)
  moreover have "length boot_line = 15" by (simp add: boot_line_def)
  ultimately show "options_given (ram (chain_machine hdr)) 0x9000 0x8000 boot_line chain_config"
    using boot_memory_line [of hdr] by (simp add: options_given_def chain_machine_simps boot_memory_fields MBI_FLAG_CMDLINE_def)
qed

lemma chain_limit: "phys_max_relocate chain_config = 0x10000000"
  by (simp add: chain_config_def)

lemma main_boots_mbi1_witness:
  "\<exists>s'. main 0x8000 ''v1'' MBI_MAGIC 0x9000 (chain_machine False) = Some (Inr (Jump 0 0x7C00 0x9000, s'))
    \<and> (\<exists>c'. cpu_run \<lparr>eip = 0x7C00, regs = (\<lambda>_. 0)(EBX := 0x9000), cmem = ram s'\<rparr> c' \<and> eip c' = 0x200000 \<and> regs c' EAX = MBI_MAGIC)
    \<and> describes (ram s') 0x9000 [] [([1, 2, 3], [0x61])]"
proof -
  let ?m = "bda_after chain_config all_serial (ram (chain_machine False))" and ?k = "alone 0x10E000 (boot_file False)"
  note L = chain_memory_layout [of False, folded chain_machine_simps(3) [of False]]
  obtain s' where s': "main 0x8000 ''v1'' MBI_MAGIC 0x9000 (chain_machine False) = Some (Inr (Jump 0 0x7C00 0x9000, s'))"
    "enters Elf32 ?k 0x10E000 MBI_MAGIC 0x9000 (ram s')" "describes (ram s') 0x9000 [] [([1, 2, 3], [0x61])]"
    using main_boots_mbi1 [OF chain_machine_options [of False] refl, of "boot_file False" "[]" "[([1, 2, 3], [0x61])]" "[0x1000]" "0x10A000" Elf32 "''v1''"]
      L boot_file_kernel [of False] boot_file_header [of False] by (auto simp: boot_modules_def length_boot_file chain_limit apart_def)
  have "\<exists>c'. cpu_run \<lparr>eip = 0x7C00, regs = (\<lambda>_. 0)(EBX := 0x9000), cmem = ram s'\<rparr> c' \<and> eip c' = 0x200000 \<and> regs c' EAX = MBI_MAGIC"
    using s'(2) [unfolded enters_def boot_file_kernel boot_file_fields, rule_format, of "\<lparr>eip = 0x7C00, regs = (\<lambda>_. 0)(EBX := 0x9000), cmem = ram s'\<rparr>"] by auto
  then show ?thesis using s'(1,3) by blast
qed

lemma main_boots_mbi2_witness:
  "\<exists>s'. main 0x8000 ''v1'' MBI_MAGIC 0x9000 (chain_machine True) = Some (Inr (Jump 0 0x7C00 0x10A000, s'))
    \<and> reads_tags (ram s') 0x10A008 boot_memory_tags
    \<and> (\<exists>c'. cpu_run \<lparr>eip = 0x7C00, regs = (\<lambda>_. 0)(EBX := 0x10A000), cmem = ram s'\<rparr> c' \<and> eip c' = 0x200000 \<and> regs c' EAX = MBI2_MAGIC)"
proof -
  let ?k = "alone 0x10E000 (boot_file True)"
  note L = chain_memory_layout [of True, folded chain_machine_simps(3) [of True]]
  obtain s' where s': "main 0x8000 ''v1'' MBI_MAGIC 0x9000 (chain_machine True) = Some (Inr (Jump 0 0x7C00 0x10A000, s'))"
    "reads_tags (ram s') (mbi2_tag_first 0x10A000) boot_memory_tags" "enters Elf32 ?k 0x10E000 MBI2_MAGIC 0x10A000 (ram s')"
    using main_boots_mbi2 [OF chain_machine_options [of True] refl, of "boot_file True" "[]" "[([1, 2, 3], [0x61])]" "[0x1000]" "0x10A000" Elf32
        "0x10E058" 0 boot_memory_tags "''v1''", unfolded if_P [OF boot_memory_room]]
      L boot_file_kernel [of True] boot_file_header [of True] boot_memory_kernel_tags
    by (auto simp: boot_modules_def length_boot_file chain_limit apart_def chain_machine_simps)
  have "\<exists>c'. cpu_run \<lparr>eip = 0x7C00, regs = (\<lambda>_. 0)(EBX := 0x10A000), cmem = ram s'\<rparr> c' \<and> eip c' = 0x200000 \<and> regs c' EAX = MBI2_MAGIC"
    using s'(3) [unfolded enters_def boot_file_kernel boot_file_fields, rule_format, of "\<lparr>eip = 0x7C00, regs = (\<lambda>_. 0)(EBX := 0x10A000), cmem = ram s'\<rparr>"] by auto
  then show ?thesis using s'(1,2) by (auto simp: mbi2_tag_first_def)
qed

end
