(* ===== verification/Platform_Proof.thy ===== *)
theory Platform_Proof imports Platform Printf_Proof begin

text \<open>
  Waiting: how long it takes and that it ends when the timer runs. The reset: every access to the keyboard controller and
  every pulse, in order, up to the loop the program stays in. What \<open>__exit\<close> and a failed \<open>assert\<close> do.
\<close>

unbundle bit_operations_syntax

section \<open>Waiting\<close>

text \<open>The ticks between the readings \<open>rs\<close> of a counter that counts down, the first one from \<open>old\<close> on.\<close>

primrec ticks :: "u8 \<Rightarrow> u8 list \<Rightarrow> int" where
  "ticks old [] = 0"
| "ticks old (r # rs) = uint (old - r) + ticks r rs"

text \<open>A timer whose counter has moved whenever it is read again.\<close>

definition timer_runs :: "(io_event list \<Rightarrow> u16 \<Rightarrow> u8) \<Rightarrow> bool" where
  "timer_runs dev \<longleftrightarrow> (\<forall>h. dev (OutB 0x43 0 # InB 0x40 (dev h 0x40) # h) 0x40 \<noteq> dev h 0x40)"

text \<open>The port accesses of the readings \<open>rs\<close>, the latest first.\<close>

definition polled :: "u8 list \<Rightarrow> io_event list" where
  "polled rs = concat (map (\<lambda>r. [InB 0x40 r, OutB 0x43 0]) (rev rs))"

lemma polled_Nil [simp]: "polled [] = []"
  by (simp add: polled_def)

lemma polled_Cons: "polled (r # rs) @ h = polled rs @ InB 0x40 r # OutB 0x43 0 # h"
  by (simp add: polled_def)

lemma wait_loop_step:
  "wait_loop ms old s = (if ms > 0 then
     let r = port_in8 s (OutB 0x43 0 # io s) 0x40
     in wait_loop (ms - uint (old - r)) r (s\<lparr>io := InB 0x40 r # OutB 0x43 0 # io s\<rparr>) else Some (Inr ((), s)))"
  by (subst wait_loop.simps) (simp add: outb_def inb_def Let_def)

lemma ticks_nonneg: "0 \<le> ticks old rs"
  by (induction rs arbitrary: old) simp_all

text \<open>From the second reading on every round takes at least one tick off.\<close>

lemma ticks_butlast: "rs \<noteq> [] \<Longrightarrow> ticks old (butlast (r # rs)) = uint (old - r) + ticks r (butlast rs)"
  by simp

lemma timer_next: "timer_runs dev \<Longrightarrow> r = dev h 0x40 \<Longrightarrow> r \<noteq> dev (OutB 0x43 0 # InB 0x40 r # h) 0x40"
  unfolding timer_runs_def by metis

lemma wait_loop_measures:
  assumes "timer_runs (port_in8 s)" and "old \<noteq> port_in8 s (OutB 0x43 0 # io s) 0x40"
  shows "\<exists>rs. wait_loop ms old s = Some (Inr ((), s\<lparr>io := polled rs @ io s\<rparr>))
    \<and> ms \<le> ticks old rs \<and> (rs \<noteq> [] \<longrightarrow> ticks old (butlast rs) < ms) \<and> int (length rs) \<le> max 0 ms"
  using assms
proof (induction "nat ms" arbitrary: ms old s rule: less_induct)
  case less
  show ?case
  proof (cases "0 < ms")
    case False
    then show ?thesis by (subst wait_loop_step) (auto intro!: exI [of _ "[]"])
  next
    case True
    define r where "r = port_in8 s (OutB 0x43 0 # io s) 0x40"
    let ?s = "s\<lparr>io := InB 0x40 r # OutB 0x43 0 # io s\<rparr>" and ?d = "uint (old - r)"
    have d: "1 \<le> ?d"
    proof -
      have "old - r \<noteq> 0" using less.prems(2) by (simp add: r_def)
      then have "?d \<noteq> 0" by (simp only: uint_0_iff not_False_eq_True)
      then show ?thesis using uint_ge_0 [of "old - r"] by linarith
    qed
    have "nat (ms - ?d) < nat ms" using True d by simp
    moreover have "timer_runs (port_in8 ?s)" using less.prems(1) by simp
    moreover have "r \<noteq> port_in8 ?s (OutB 0x43 0 # io ?s) 0x40"
      using timer_next [OF less.prems(1) r_def] by simp
    ultimately obtain rs where rs: "wait_loop (ms - ?d) r ?s = Some (Inr ((), ?s\<lparr>io := polled rs @ io ?s\<rparr>))"
      "ms - ?d \<le> ticks r rs" "rs \<noteq> [] \<longrightarrow> ticks r (butlast rs) < ms - ?d" "int (length rs) \<le> max 0 (ms - ?d)"
      using less.hyps [of "ms - ?d" ?s r] by blast
    have "wait_loop ms old s = Some (Inr ((), s\<lparr>io := polled (r # rs) @ io s\<rparr>))"
      using True rs(1) by (subst wait_loop_step) (simp add: Let_def r_def [symmetric] polled_Cons)
    moreover have "ms \<le> ticks old (r # rs)" "int (length (r # rs)) \<le> max 0 ms"
      using rs(2,4) True d by simp_all
    moreover have "ticks old (butlast (r # rs)) < ms"
    proof (cases "rs = []")
      case False
      then show ?thesis using rs(3) unfolding ticks_butlast [OF False] by simp
    qed (use True in simp)
    ultimately show ?thesis by blast
  qed
qed

lemma wait_measures:
  assumes "timer_runs (port_in8 s)" and "- (2 ^ 31) \<le> ms * 1193" and "ms * 1193 < 2 ^ 31"
  shows "\<exists>rs. wait ms s = Some (Inr ((), s\<lparr>io := polled rs @ OutB 0x40 0 # OutB 0x43 0x14 # io s\<rparr>))
    \<and> 1193 * ms \<le> ticks 0 rs \<and> (rs \<noteq> [] \<longrightarrow> ticks 0 (butlast rs) < 1193 * ms) \<and> int (length rs) \<le> max 0 (1193 * ms) + 1"
proof -
  let ?s = "s\<lparr>io := OutB 0x40 0 # OutB 0x43 0x14 # io s\<rparr>"
  define r where "r = port_in8 s (OutB 0x43 0 # io ?s) 0x40"
  have w: "wait ms s = wait_loop (1193 * ms) 0 ?s" using assms(2,3) by (simp add: wait_def outb_def mult.commute)
  have t: "timer_runs (port_in8 ?s)" using assms(1) by simp
  show ?thesis
  proof (cases "r = 0 \<and> 0 < ms")
    case False
    show ?thesis
    proof (cases "0 < ms")
      case True
      then have "0 \<noteq> port_in8 ?s (OutB 0x43 0 # io ?s) 0x40" using False by (simp add: r_def)
      from wait_loop_measures [OF t this, of "1193 * ms"] show ?thesis unfolding w by auto
    next
      case False
      then show ?thesis unfolding w by (subst wait_loop_step) (auto intro!: exI [of _ "[]"])
    qed
  next
    case True
    let ?t = "?s\<lparr>io := InB 0x40 0 # OutB 0x43 0 # io ?s\<rparr>"
    have "wait_loop (1193 * ms) 0 ?s = wait_loop (1193 * ms) 0 ?t"
      using True by (subst wait_loop_step) (simp add: r_def Let_def)
    moreover have "0 \<noteq> port_in8 ?t (OutB 0x43 0 # io ?t) 0x40"
      using timer_next [OF assms(1) r_def] True by simp
    from wait_loop_measures [OF _ this, of "1193 * ms"] assms(1) obtain rs where
      rs: "wait_loop (1193 * ms) 0 ?t = Some (Inr ((), ?t\<lparr>io := polled rs @ io ?t\<rparr>))"
      "1193 * ms \<le> ticks 0 rs" "rs \<noteq> [] \<longrightarrow> ticks 0 (butlast rs) < 1193 * ms" "int (length rs) \<le> max 0 (1193 * ms)" by auto
    moreover have "ticks 0 (butlast (0 # rs)) < 1193 * ms"
    proof (cases "rs = []")
      case False
      then show ?thesis using rs(3) unfolding ticks_butlast [OF False] by simp
    qed (use True in simp)
    ultimately show ?thesis
      unfolding w by (intro exI [of _ "0 # rs"]) (simp add: polled_Cons)
  qed
qed

section \<open>The reset\<close>

text \<open>Histories of port accesses before and after waiting for \<open>ms\<close> milliseconds.\<close>

definition waited :: "int \<Rightarrow> io_event list \<Rightarrow> io_event list \<Rightarrow> bool" where
  "waited ms h h' \<longleftrightarrow> (\<exists>rs. h' = polled rs @ OutB 0x40 0 # OutB 0x43 0x14 # h
     \<and> 1193 * ms \<le> ticks 0 rs \<and> (rs \<noteq> [] \<longrightarrow> ticks 0 (butlast rs) < 1193 * ms))"

text \<open>
  \<open>kb_polled dev n h h'\<close>: from \<open>h\<close> to \<open>h'\<close> the status of the keyboard controller has been read until bit 1, its input buffer
  being full, was clear, with a millisecond after every reading that found it set; or it has been found set \<open>n\<close> times.
\<close>

inductive kb_polled :: "(io_event list \<Rightarrow> u16 \<Rightarrow> u8) \<Rightarrow> nat \<Rightarrow> io_event list \<Rightarrow> io_event list \<Rightarrow> bool"
  for dev :: "io_event list \<Rightarrow> u16 \<Rightarrow> u8" where
  gives_up: "kb_polled dev 0 h h"
| ready: "\<not> bit (dev h 0x64) 1 \<Longrightarrow> kb_polled dev (Suc n) h (InB 0x64 (dev h 0x64) # h)"
| busy: "bit (dev h 0x64) 1 \<Longrightarrow> waited 1 (InB 0x64 (dev h 0x64) # h) h1 \<Longrightarrow> kb_polled dev n h1 h2 \<Longrightarrow> kb_polled dev (Suc n) h h2"

text \<open>\<open>n\<close> pulses, each right after the keyboard controller was ready or 65536 readings found it busy, and with a millisecond after it.\<close>

inductive pulsed :: "(io_event list \<Rightarrow> u16 \<Rightarrow> u8) \<Rightarrow> nat \<Rightarrow> io_event list \<Rightarrow> io_event list \<Rightarrow> bool"
  for dev :: "io_event list \<Rightarrow> u16 \<Rightarrow> u8" where
  no_pulse: "pulsed dev 0 h h"
| pulse: "kb_polled dev 65536 h h1 \<Longrightarrow> waited 1 (OutB 0x64 0xFE # h1) h2 \<Longrightarrow> pulsed dev n h2 h3 \<Longrightarrow> pulsed dev (Suc n) h h3"

text \<open>The pulses in a history.\<close>

definition pulses :: "io_event list \<Rightarrow> nat" where
  "pulses h = length (filter ((=) (OutB 0x64 0xFE)) h)"

lemma pulses_Cons: "pulses (e # h) = (if e = OutB 0x64 0xFE then Suc (pulses h) else pulses h)"
  by (auto simp: pulses_def)

lemma pulses_waited: "waited ms h h' \<Longrightarrow> pulses h' = pulses h"
proof -
  have "pulses (polled rs @ h) = pulses h" for rs h
    by (induction rs arbitrary: h) (simp_all add: polled_Cons pulses_Cons)
  then show "waited ms h h' \<Longrightarrow> pulses h' = pulses h" by (auto simp: waited_def pulses_Cons)
qed

lemma pulses_kb_polled: "kb_polled dev n h h' \<Longrightarrow> pulses h' = pulses h"
  by (induction rule: kb_polled.induct) (simp_all add: pulses_Cons pulses_waited)

lemma pulses_pulsed: "pulsed dev n h h' \<Longrightarrow> pulses h' = pulses h + n"
  by (induction rule: pulsed.induct) (simp_all add: pulses_Cons pulses_waited pulses_kb_polled)

lemma wait_waited:
  assumes "timer_runs (port_in8 s)" and "- (2 ^ 31) \<le> ms * 1193" and "ms * 1193 < 2 ^ 31"
  shows "\<exists>h. wait ms s = Some (Inr ((), s\<lparr>io := h\<rparr>)) \<and> waited ms (io s) h"
  using wait_measures [OF assms] by (auto simp: waited_def)

lemma two_bit: "x AND 0x02 = 0 \<longleftrightarrow> \<not> bit (x :: u8) 1"
  using and_exp_eq_0_iff_not_bit [of x 1] by simp

lemma kb_wait_loop_polls:
  "timer_runs (port_in8 s) \<Longrightarrow> \<exists>h. kb_wait_loop n s = Some (Inr ((), s\<lparr>io := h\<rparr>)) \<and> kb_polled (port_in8 s) n (io s) h"
proof (induction n arbitrary: s)
  case 0
  show ?case by (rule exI [of _ "io s"]) (simp add: ret_def gives_up)
next
  case (Suc n)
  let ?x = "port_in8 s (io s) 0x64" and ?s = "s\<lparr>io := InB 0x64 (port_in8 s (io s) 0x64) # io s\<rparr>"
  have run: "kb_wait_loop (Suc n) s = (if ?x AND 0x02 = 0 then ret () else andthen (wait 1) (\<lambda>_. kb_wait_loop n)) ?s"
    by (simp add: inb_def Let_def)
  show ?case
  proof (cases "bit ?x 1")
    case False
    then show ?thesis
      unfolding run two_bit by (intro exI [of _ "InB 0x64 ?x # io s"]) (simp add: ret_def ready)
  next
    case True
    obtain h1 where h1: "wait 1 ?s = Some (Inr ((), ?s\<lparr>io := h1\<rparr>))" "waited 1 (InB 0x64 ?x # io s) h1"
      using wait_waited [of ?s 1] Suc.prems by auto
    obtain h2 where h2: "kb_wait_loop n (s\<lparr>io := h1\<rparr>) = Some (Inr ((), s\<lparr>io := h2\<rparr>))" "kb_polled (port_in8 s) n h1 h2"
      using Suc.IH [of "s\<lparr>io := h1\<rparr>"] Suc.prems by auto
    have "kb_wait_loop (Suc n) s = Some (Inr ((), s\<lparr>io := h2\<rparr>))"
      unfolding run two_bit using True h1(1) h2(1) by (simp add: andthen_Inr [where m = "wait 1"])
    then show ?thesis using busy [OF True h1(2) h2(2)] by blast
  qed
qed

lemma pulse_loop_pulses:
  "timer_runs (port_in8 s) \<Longrightarrow> \<exists>h. pulse_loop n s = Some (Inr ((), s\<lparr>io := h\<rparr>)) \<and> pulsed (port_in8 s) n (io s) h"
proof (induction n arbitrary: s)
  case 0
  show ?case by (rule exI [of _ "io s"]) (simp add: ret_def no_pulse)
next
  case (Suc n)
  obtain h1 where h1: "kb_wait s = Some (Inr ((), s\<lparr>io := h1\<rparr>))" "kb_polled (port_in8 s) 65536 (io s) h1"
    using kb_wait_loop_polls [OF Suc.prems, of 65536] by (auto simp: kb_wait_def)
  let ?s = "s\<lparr>io := OutB 0x64 0xFE # h1\<rparr>"
  obtain h2 where h2: "wait 1 ?s = Some (Inr ((), s\<lparr>io := h2\<rparr>))" "waited 1 (OutB 0x64 0xFE # h1) h2"
    using wait_waited [of ?s 1] Suc.prems by auto
  obtain h3 where h3: "pulse_loop n (s\<lparr>io := h2\<rparr>) = Some (Inr ((), s\<lparr>io := h3\<rparr>))" "pulsed (port_in8 s) n h2 h3"
    using Suc.IH [of "s\<lparr>io := h2\<rparr>"] Suc.prems by auto
  have "pulse_loop (Suc n) s = Some (Inr ((), s\<lparr>io := h3\<rparr>))"
    using h2(1) h3(1) by (simp add: andthen_Inr [where m = kb_wait, OF h1(1)] outb_def andthen_Inr [where m = "wait 1"])
  then show ?case using pulse [OF h1(2) h2(2) h3(2)] by blast
qed

text \<open>\<open>resets s s'\<close>: both messages and ten pulses in between.\<close>

definition resets :: "machine \<Rightarrow> machine \<Rightarrow> bool" where
  "resets s s' \<longleftrightarrow> (\<exists>s1 h. out_lit ''Reset!\<newline>'' s = s1 \<and> pulsed (port_in8 s) 10 (io s1) h \<and> pulses h = pulses (io s1) + 10
     \<and> s' = out_lit ''Reboot didn't work.\<newline>'' (s1\<lparr>io := h\<rparr>))"

lemma reboot_resets:
  assumes "timer_runs (port_in8 s)"
  shows "\<exists>s'. reboot s = Some (Inr (Spinning, s')) \<and> resets s s'"
proof -
  let ?s1 = "out_lit ''Reset!\<newline>'' s"
  have d: "port_in8 ?s1 = port_in8 s" using quiet_out_lit [of s] by (simp add: quiet_def)
  obtain h where h: "pulse_loop 10 ?s1 = Some (Inr ((), ?s1\<lparr>io := h\<rparr>))" "pulsed (port_in8 s) 10 (io ?s1) h"
    using pulse_loop_pulses [of ?s1 10] assms d by auto
  have "reboot s = Some (Inr (Spinning, out_lit ''Reboot didn't work.\<newline>'' (?s1\<lparr>io := h\<rparr>)))"
    unfolding reboot_def by (simp only: andthen_simps andthen_Inr [where m = "pulse_loop 10", OF h(1)]) (simp add: spin_def ret_def)
  then show ?thesis using h(2) pulses_pulsed [OF h(2)] by (auto simp: resets_def)
qed

lemma quiet_io: "quiet s (s\<lparr>io := h\<rparr>)"
  by (simp add: quiet_def)

lemma resets_quiet: "resets s s' \<Longrightarrow> quiet s s'"
  unfolding resets_def by (auto intro: quiet_trans [OF quiet_trans [OF quiet_out_lit quiet_io] quiet_out_lit])

section \<open>The end of the program\<close>

text \<open>\<open>n\<close> seconds with a dot after each.\<close>

inductive dotted :: "nat \<Rightarrow> machine \<Rightarrow> machine \<Rightarrow> bool" where
  no_dot: "dotted 0 s s"
| dot: "waited 1000 (io s) h \<Longrightarrow> dotted n (out_char 0x2E (s\<lparr>io := h\<rparr>)) s' \<Longrightarrow> dotted (Suc n) s s'"

lemma dotted_quiet: "dotted n s s' \<Longrightarrow> quiet s s'"
  by (induction rule: dotted.induct) (auto intro: quiet_trans [OF quiet_trans [OF quiet_io quiet_out_char]])

lemma delay_loop_dots:
  "timer_runs (port_in8 s) \<Longrightarrow> \<exists>s'. delay_loop n s = Some (Inr ((), s')) \<and> dotted n s s'"
proof (induction n arbitrary: s)
  case 0
  show ?case by (rule exI [of _ s]) (simp add: ret_def no_dot)
next
  case (Suc n)
  obtain h where h: "wait 1000 s = Some (Inr ((), s\<lparr>io := h\<rparr>))" "waited 1000 (io s) h"
    using wait_waited [OF Suc.prems, of 1000] by auto
  let ?s = "out_char 0x2E (s\<lparr>io := h\<rparr>)"
  have "port_in8 ?s = port_in8 s" using quiet_out_char [of "s\<lparr>io := h\<rparr>" "0x2E"] by (simp add: quiet_def)
  then obtain s' where s': "delay_loop n ?s = Some (Inr ((), s'))" "dotted n ?s s'"
    using Suc.IH [of ?s] Suc.prems by auto
  have "char_arg (of_char (CHR ''.'')) = 0x2E" by (simp add: char_arg_def)
  then have "delay_loop (Suc n) s = Some (Inr ((), s'))"
    using s'(1) by (simp add: andthen_Inr [where m = "wait 1000", OF h(1)])
  then show ?case using dot [OF h(2) s'(2)] by blast
qed

text \<open>
  \<open>exits status s s'\<close>: what \<open>__exit\<close> does, with the status in decimal digits.
\<close>

definition exits :: "u32 \<Rightarrow> machine \<Rightarrow> machine \<Rightarrow> bool" where
  "exits status s s' \<longleftrightarrow> (\<exists>s1.
     dotted 300 (fold out_char (msg ''\<newline>Exit with status '' @ map char_arg (dec_digits (unat status)) @ msg ''.\<newline>Rebooting...\<newline>'') s) s1
     \<and> resets (fold out_char (msg ''-> OK, reboot now!\<newline>'') s1) s')"

lemma fold_device: "port_in8 (fold out_char t s) = port_in8 s"
  using quiet_fold [of s t] by (simp add: quiet_def)

lemma exit_program_exits:
  assumes "timer_runs (port_in8 s)"
  shows "\<exists>s'. exit_program status s = Some (Inr (Spinning, s')) \<and> exits status s s'"
proof -
  define t1 where "t1 = msg ''\<newline>Exit with status '' @ map char_arg (dec_digits (unat status)) @ msg ''.\<newline>Rebooting...\<newline>''"
  define t2 where "t2 = msg ''-> OK, reboot now!\<newline>''"
  let ?s = "fold out_char t1 s"
  have "expand (\<lambda>_. None) (directives ''\<newline>Exit with status %u.\<newline>Rebooting...\<newline>'') [Va_word status] = Some t1"
    by (simp add: is_conv_def va_uint_def unat_wide zero_padded_def t1_def)
  from printf_text [OF no_strings this, of s] have p1: "printf ''\<newline>Exit with status %u.\<newline>Rebooting...\<newline>'' [Va_word status] s = Some (Inr ((), ?s))" .
  have "expand (\<lambda>_. None) (directives ''-> OK, reboot now!\<newline>'') [] = Some t2" by (simp add: is_conv_def t2_def)
  note p2 = printf_text [OF no_strings this]
  obtain s1 where s1: "delay_loop 300 ?s = Some (Inr ((), s1))" "dotted 300 ?s s1"
    using delay_loop_dots [of ?s 300] assms unfolding fold_device by blast
  let ?s2 = "fold out_char t2 s1"
  have "timer_runs (port_in8 ?s2)"
    unfolding fold_device using dotted_quiet [OF s1(2)] assms by (simp add: quiet_def fold_device)
  then obtain s' where s': "reboot ?s2 = Some (Inr (Spinning, s'))" "resets ?s2 s'" using reboot_resets by blast
  have "exit_program status s = Some (Inr (Spinning, s'))"
    unfolding exit_program_def andthen_Inr [where m = "printf _ _", OF p1] andthen_Inr [where m = "delay_loop _", OF s1(1)]
      andthen_Inr [where m = "printf _ _", OF p2] by (rule s'(1))
  moreover have "exits status s s'" using s1(2) s'(2) unfolding exits_def t1_def t2_def by (intro exI [of _ s1] conjI)
  ultimately show ?thesis by blast
qed

lemma exits_quiet: "exits status s s' \<Longrightarrow> quiet s s'"
  unfolding exits_def using quiet_trans [OF quiet_fold quiet_trans [OF dotted_quiet quiet_trans [OF quiet_fold resets_quiet]]] by blast

text \<open>
  What the models of the components take a failed \<open>assert\<close> for: the macro goes on without a trace when its
  condition holds, and else it prints what failed and where, with the message, and ends the program with the status 0xbad. So an
  abnormal end \<open>Inl\<close> stands for a run in which nothing after the assertion is ever done.
\<close>

lemma assert_goes_on: "X \<Longrightarrow> assert_macro X expr file line str args s = Some (Inr (None, s))"
  by (simp add: assert_macro_def ret_def)

lemma assert_ends:
  assumes "timer_runs (port_in8 s)" and "\<not> X" and "strings_in str (ram s)"
    and "expand str (directives (''Assertion \"%s\" failed at %s:%d\<newline>'' @ fmt)) ([Va_lit expr, Va_lit file, Va_word line] @ args) = Some t"
  shows "\<exists>s'. assert_macro X expr file line fmt args s = Some (Inr (Some Spinning, s')) \<and> exits 0xbad (fold out_char t s) s'"
proof -
  have "port_in8 (fold out_char t s) = port_in8 s" using quiet_fold [of s t] by (simp add: quiet_def)
  then obtain s' where "exit_program 0xbad (fold out_char t s) = Some (Inr (Spinning, s'))" "exits 0xbad (fold out_char t s) s'"
    using exit_program_exits [of "fold out_char t s" "0xbad"] assms(1) by auto
  then show ?thesis
    using assms(2) unfolding assert_macro_def
    by (simp only: not_False_eq_True if_True andthen_Inr [where m = "printf _ _", OF printf_text [OF assms(3,4)]])
      (auto simp: andthen_Inr [where m = "exit_program _"] ret_def)
qed

text \<open>Without a hypothesis on the timer and the message: the code after a failed assertion is never reached.\<close>

theorem assert_macro_refines:
  assumes "assert_macro X expr file line fmt args s = Some (Inr (r, s'))"
  shows "case r of None \<Rightarrow> X \<and> s' = s | Some h \<Rightarrow> \<not> X"
  using assms unfolding assert_macro_def
  by (auto simp: ret_def andthen_def split: if_splits option.splits sum.splits)

section \<open>Properties\<close>

text \<open>
  C39. Waiting for \<open>ms\<close> milliseconds ends when the counter of the timer moves between readings and the ticks are
  an \<open>int\<close>: after
  the first reading at which the ticks seen since the start amount to 1193 for every millisecond, and after at most
  as many readings and one more. Nothing but the ports is accessed.
\<close>

theorem wait_ends:
  assumes "timer_runs (port_in8 s)" and "- (2 ^ 31) \<le> ms * 1193" and "ms * 1193 < 2 ^ 31"
  shows "\<exists>rs. wait ms s = Some (Inr ((), s\<lparr>io := polled rs @ OutB 0x40 0 # OutB 0x43 0x14 # io s\<rparr>))
    \<and> 1193 * ms \<le> ticks 0 rs \<and> (rs \<noteq> [] \<longrightarrow> ticks 0 (butlast rs) < 1193 * ms) \<and> int (length rs) \<le> max 0 (1193 * ms) + 1"
  by (rule wait_measures [OF assms])

text \<open>A counter that goes on with every port access.\<close>

definition busy_timer :: "io_event list \<Rightarrow> u16 \<Rightarrow> u8" where
  "busy_timer h port = - of_nat (length h)"

definition timer_machine :: machine where
  "timer_machine = undefined\<lparr>port_in8 := busy_timer, io := []\<rparr>"

lemma busy_timer_runs: "timer_runs (port_in8 timer_machine)"
  by (simp add: timer_runs_def timer_machine_def busy_timer_def)

lemma wait_ends_witness:
  "\<exists>rs. wait 1000 timer_machine = Some (Inr ((), timer_machine\<lparr>io := polled rs @ [OutB 0x40 0, OutB 0x43 0x14]\<rparr>)) \<and> 1193000 \<le> ticks 0 rs
    \<and> length rs \<le> 1193001"
  using wait_ends [OF busy_timer_runs, of 1000] by (auto simp: timer_machine_def)

text \<open>
  C40. The reset, with a timer that runs: \<open>reboot\<close> prints a message and sends exactly ten pulses on the reset line. Each
  of them comes right after a reading of the status of the keyboard controller that shows its input buffer to be empty, or after 65536
  readings that do not, a millisecond apart; and a millisecond passes after it. If the machine is still there, the
  program says so and stays in an endless loop. Memory is not written.
\<close>

theorem reset_pulses:
  assumes "timer_runs (port_in8 s)"
  shows "\<exists>s1 h s'. out_lit ''Reset!\<newline>'' s = s1 \<and> pulsed (port_in8 s) 10 (io s1) h \<and> pulses h = pulses (io s1) + 10
    \<and> out_lit ''Reboot didn't work.\<newline>'' (s1\<lparr>io := h\<rparr>) = s' \<and> reboot s = Some (Inr (Spinning, s')) \<and> ram s' = ram s"
proof -
  obtain s' where s': "reboot s = Some (Inr (Spinning, s'))" "resets s s'" using reboot_resets [OF assms] by blast
  have "ram s' = ram s" using resets_quiet [OF s'(2)] by (simp add: quiet_def)
  then show ?thesis using s' unfolding resets_def by metis
qed

lemma reset_pulses_witness:
  "\<exists>(s1 :: machine) h s'. pulsed busy_timer 10 (io s1) h \<and> pulses h = pulses (io s1) + 10 \<and> reboot timer_machine = Some (Inr (Spinning, s'))"
proof -
  have p: "port_in8 timer_machine = busy_timer" by (simp add: timer_machine_def)
  show ?thesis using reset_pulses [OF busy_timer_runs, unfolded p] by blast
qed

text \<open>
  \<open>__exit\<close> prints the status, waits for 300 seconds and resets the machine.
\<close>

theorem exit_program_resets:
  assumes "timer_runs (port_in8 s)"
  shows "\<exists>s'. exit_program status s = Some (Inr (Spinning, s')) \<and> exits status s s'"
  by (rule exit_program_exits [OF assms])

end
