(* ===== verification/Startup_Proof.thy ===== *)
theory Startup_Proof imports Startup Boot_Chain_Proof Platform_Proof begin

text \<open>
  The program as a whole: bender either enters the generated code or resets the machine.
\<close>

unbundle bit_operations_syntax

section \<open>The header\<close>

text \<open>The three words sum up to zero, as a Multiboot loader asks for; modules are aligned and memory is described.\<close>

lemma mbheader_valid: "length mbheader = 3" "mbheader ! 0 = 0x1BADB002" "sum_list mbheader = 0"
  "bit (mbheader ! 1) 0" "bit (mbheader ! 1) 1"
  by (simp_all add: mbheader_def bit_simps)

lemma jmp_multiboot_enters: "jmp_multiboot mbi entry = Jump MBI_MAGIC entry mbi"
  by (simp add: jmp_multiboot_def MBI_MAGIC_def)

section \<open>How start_module can end\<close>

lemma andthen_Some_Inr:
  "andthen m k s = Some (Inr r) \<longleftrightarrow> (\<exists>x t. m s = Some (Inr (x, t)) \<and> k x t = Some (Inr r))"
  by (auto simp: andthen_def split: option.splits sum.splits)

lemma start_module_ends:
  assumes "start_module mbi phys_max s = Some (Inr (e, s'))"
  shows "e = Return (- 1) \<or> (\<exists>info. e = Jump 0 0x7C00 info \<and> (if info = 0 then mbi = 0 else True))"
  using assms unfolding start_module_def andthen_Some_Inr
  by (auto simp: ret_def andthen_Some_Inr asserts_def fail_def split: if_splits)

lemma main_ends:
  assumes "main buf v magic mbi s = Some (Inr (e, s'))"
  shows "if magic = MBI_MAGIC then e = Return (- 1) \<or> (\<exists>info. e = Jump 0 0x7C00 info \<and> (if info = 0 then mbi = 0 else True))
    else e = Return 1"
proof (cases "magic = MBI_MAGIC")
  case True
  have "\<exists>(cfg :: config) t. start_module mbi (phys_max_relocate cfg) t = Some (Inr (e, s'))"
    using assms unfolding main_def boot_next_def if_P [OF True] andthen_Some_Inr by blast
  then show ?thesis using True start_module_ends by (elim exE) simp
next
  case False
  then show ?thesis
    using assms unfolding main_def if_not_P [OF False] by (auto simp: andthen_Some_Inr ret_def split: if_splits)
qed

section \<open>main and __exit\<close>

lemma returns_exits:
  assumes "timer_runs (port_in8 t)" and "main_fn eax ebx s = Some (Inr (Return n, t))"
  shows "\<exists>s'. start_program main_fn eax ebx s = Some (Inr (Stays Spinning, s')) \<and> exits (of_int n) t s'"
proof -
  obtain s' where s': "exit_program (of_int n) t = Some (Inr (Spinning, s'))" "exits (of_int n) t s'"
    using exit_program_exits [OF assms(1)] by blast
  have "start_program main_fn eax ebx s = andthen (exit_program (of_int n)) (\<lambda>h. ret (Stays h)) t"
    unfolding start_program_def by (simp add: andthen_Inr [where m = "main_fn eax ebx", OF assms(2)])
  also have "\<dots> = Some (Inr (Stays Spinning, s'))"
    unfolding andthen_Inr [where m = "exit_program (of_int n)", OF s'(1)] by (simp add: ret_def)
  finally show ?thesis using s'(2) by blast
qed

lemma jumps_enters:
  "main_fn eax ebx s = Some (Inr (Jump a d b, t)) \<Longrightarrow> start_program main_fn eax ebx s = Some (Inr (Enters a d b, t))"
  unfolding start_program_def by (subst andthen_Inr) (auto simp: ret_def)

text \<open>
  No module to start: what is read of the information is not changed by reading the command line, whose buffer
  is elsewhere, nor by the search for a controller.
\<close>

definition nothing_to_start :: "mem \<Rightarrow> u32 \<Rightarrow> u32 \<Rightarrow> bool" where
  "nothing_to_start m mbi buf \<longleftrightarrow> \<not> has_module m mbi \<and> fits mbi 24 \<and> fits buf 256 \<and> apart buf 256 mbi 24
     \<and> apart buf 256 0x400 0x12 \<and> apart mbi 24 0x400 0x12"

lemma nothing_kept:
  assumes "nothing_to_start m mbi buf" and "\<forall>a. \<not> in_region buf 256 a \<longrightarrow> m' a = m a"
  shows "\<not> has_module (bda_after cfg cs m') mbi"
proof -
  note N = assms(1) [unfolded nothing_to_start_def]
  have "read_bytes m' mbi 24 = read_bytes m mbi 24" using N by (intro read_kept [OF assms(2)]) simp_all
  moreover have "read_bytes (bda_after cfg cs m') mbi 24 = read_bytes m' mbi 24"
    using N by (intro read_kept [where q = "0x400" and n = "0x12"]) (simp_all add: bda_after_outside fits_def apart_def disj_commute)
  ultimately have same: "read_bytes (bda_after cfg cs m') mbi 24 = read_bytes m mbi 24" by simp
  show ?thesis
    using N load32_same [OF same, of 0] load32_same [OF same, of 20] by (simp add: has_module_def mbi_flags_def mbi_mods_count_def)
qed

lemma main_without_module:
  assumes "nothing_to_start (ram s) mbi buf" and "config_space cs (port_in8 s) (port_in32 s)" and "options_given (ram s) mbi buf str cfg"
  shows "\<exists>t. main buf v MBI_MAGIC mbi s = Some (Inr (Return (- 1), t)) \<and> port_in8 t = port_in8 s
    \<and> (\<forall>a. \<not> in_region buf 256 a \<and> \<not> in_region 0x400 0x12 a \<longrightarrow> ram t a = ram s a)"
proof -
  have f: "fits buf 256" using assms(1) by (simp add: nothing_to_start_def)
  from main_reads_options [OF assms(2,3) f, of v] obtain m1 s1 where
    s1: "main buf v MBI_MAGIC mbi s = start_module mbi (phys_max_relocate cfg) s1"
    "\<forall>a. \<not> in_region buf 256 a \<longrightarrow> m1 a = ram s a" "ram s1 = bda_after cfg cs m1" "port_in8 s1 = port_in8 s" by blast
  have "\<not> has_module (ram s1) mbi" unfolding s1(3) by (rule nothing_kept [OF assms(1) s1(2)])
  then obtain t where t: "start_module mbi (phys_max_relocate cfg) s1 = Some (Inr (Return (- 1), t))" "quiet s1 t"
    using start_module_without_module by blast
  have "ram t a = ram s a" if "\<not> in_region buf 256 a" "\<not> in_region 0x400 0x12 a" for a
    using that s1(2,3) t(2) bda_after_outside [OF that(2)] by (simp add: quiet_def)
  then show ?thesis using s1(1,4) t by (intro exI [of _ t]) (simp add: quiet_def)
qed

section \<open>Properties\<close>

text \<open>
  C3. With a timer that runs, bender resets the machine if it has not been booted by a Multiboot1 loader, or if there is no module
  to start: from \<open>_start\<close> on, main comes back and \<open>__exit\<close> prints its result, 1 in the first case and -1 as an unsigned number in
  the second, waits 300 seconds with a dot after each, and sends ten pulses on the reset line; it then stays in an endless loop. Nothing is written but the buffer of the
  command line and the words of the BIOS data area that are patched.
\<close>

theorem bender_resets:
  assumes "timer_runs (port_in8 s)"
    and "magic \<noteq> MBI_MAGIC \<or> nothing_to_start (ram s) mbi buf \<and> config_space cs (port_in8 s) (port_in32 s) \<and> options_given (ram s) mbi buf str cfg"
  shows "\<exists>t s'. start_program (main buf v) magic mbi s = Some (Inr (Stays Spinning, s'))
    \<and> exits (if magic = MBI_MAGIC then 0xFFFFFFFF else 1) t s'
    \<and> (\<forall>a. \<not> in_region buf 256 a \<and> \<not> in_region 0x400 0x12 a \<longrightarrow> ram s' a = ram s a)"
proof -
  obtain n t where t: "main buf v magic mbi s = Some (Inr (Return n, t))" "port_in8 t = port_in8 s"
    "of_int n = (if magic = MBI_MAGIC then 0xFFFFFFFF else 1 :: u32)"
    "\<forall>a. \<not> in_region buf 256 a \<and> \<not> in_region 0x400 0x12 a \<longrightarrow> ram t a = ram s a"
  proof (cases "magic = MBI_MAGIC")
    case True
    then obtain t where "main buf v magic mbi s = Some (Inr (Return (- 1), t))" "port_in8 t = port_in8 s"
      "\<forall>a. \<not> in_region buf 256 a \<and> \<not> in_region 0x400 0x12 a \<longrightarrow> ram t a = ram s a"
      using assms(2) main_without_module [of s mbi buf cs str cfg v] by blast
    then show ?thesis using True by (intro that [of "- 1" t]) simp_all
  next
    case False
    from main_rejects [OF False, of buf v mbi s] obtain t where "main buf v magic mbi s = Some (Inr (Return 1, t))" "quiet s t" by blast
    then show ?thesis using False by (intro that [of 1 t]) (simp_all add: quiet_def)
  qed
  have "timer_runs (port_in8 t)" using assms(1) t(2) by simp
  from returns_exits [where main_fn = "main buf v", OF this t(1)] obtain s' where
    s': "start_program (main buf v) magic mbi s = Some (Inr (Stays Spinning, s'))" "exits (of_int n) t s'" by blast
  have "ram s' = ram t" using exits_quiet [OF s'(2)] by (simp add: quiet_def)
  then show ?thesis using s' t(3,4) by (intro exI [of _ t] exI [of _ s']) simp
qed

text \<open>The machine all of whose functions are serial controllers, with a timer; the Multiboot1 information lists no module.\<close>

definition idle_machine :: machine where
  "idle_machine = (pci_machine all_serial)\<lparr>ram := \<lambda>_. 0, port_in8 := \<lambda>h port. if port = 0x40 then busy_timer h port else bridge8 all_serial h port\<rparr>"

lemma idle_machine_simps: "ram idle_machine = (\<lambda>_. 0)"
  "port_in8 idle_machine = (\<lambda>h port. if port = 0x40 then busy_timer h port else bridge8 all_serial h port)"
  "port_in32 idle_machine = bridge32 all_serial"
  by (simp_all add: idle_machine_def)

lemma idle_machine_devices: "timer_runs (port_in8 idle_machine)"
  "config_space all_serial (port_in8 idle_machine) (port_in32 idle_machine)"
proof -
  show "timer_runs (port_in8 idle_machine)" by (simp add: timer_runs_def idle_machine_simps busy_timer_def)
  show "config_space all_serial (port_in8 idle_machine) (port_in32 idle_machine)"
    unfolding idle_machine_simps by (rule config_space_other [OF bridge.config_space_axioms]) simp
qed

lemma bender_resets_witness:
  "(\<exists>t s'. start_program (main 0x2000 ''v1'') MBI_MAGIC 0x500 idle_machine = Some (Inr (Stays Spinning, s')) \<and> exits 0xFFFFFFFF t s')
    \<and> (\<exists>t s'. start_program (main 0x2000 ''v1'') MBI2_MAGIC 0x500 idle_machine = Some (Inr (Stays Spinning, s')) \<and> exits 1 t s')"
proof
  have "nothing_to_start (\<lambda>_. 0) 0x500 0x2000" "options_given (\<lambda>_. 0) 0x500 0x2000 [] initial_config"
    by (simp_all add: nothing_to_start_def has_module_def options_given_def mbi_flags_def load32_bytes fits_def apart_def)
  then have "MBI_MAGIC \<noteq> MBI_MAGIC \<or> nothing_to_start (ram idle_machine) 0x500 0x2000
      \<and> config_space all_serial (port_in8 idle_machine) (port_in32 idle_machine) \<and> options_given (ram idle_machine) 0x500 0x2000 [] initial_config"
    using idle_machine_devices(2) by (simp add: idle_machine_simps(1))
  from bender_resets [OF idle_machine_devices(1) this, of "''v1''"]
  show "\<exists>t s'. start_program (main 0x2000 ''v1'') MBI_MAGIC 0x500 idle_machine = Some (Inr (Stays Spinning, s')) \<and> exits 0xFFFFFFFF t s'"
    unfolding if_P [OF refl] by blast
  have other: "MBI2_MAGIC \<noteq> MBI_MAGIC" by (simp add: MBI2_MAGIC_def MBI_MAGIC_def)
  from bender_resets [OF idle_machine_devices(1) disjI1 [OF other], of "0x2000" "''v1''" "0x500"]
  show "\<exists>t s'. start_program (main 0x2000 ''v1'') MBI2_MAGIC 0x500 idle_machine = Some (Inr (Stays Spinning, s')) \<and> exits 1 t s'"
    unfolding if_not_P [OF other] by blast
qed

text \<open>
  Whatever the boot loader has left: when main comes to an end, that is either the jump to the generated code at 0x7C00, for a Multiboot1
  loader only, with EAX zero and the address of an information in EBX that is not NULL unless the boot loader's was;
  or main has returned 1 to another boot loader or -1 to Multiboot1, and the machine is reset.
\<close>

theorem bender_ends:
  assumes "main buf v magic mbi s = Some (Inr (e, t))" and "timer_runs (port_in8 t)"
  shows "(\<exists>info. magic = MBI_MAGIC \<and> e = Jump 0 0x7C00 info \<and> (if info = 0 then mbi = 0 else True)
      \<and> start_program (main buf v) magic mbi s = Some (Inr (Enters 0 0x7C00 info, t)))
    \<or> (\<exists>n s'. n = (if magic = MBI_MAGIC then - 1 else 1) \<and> e = Return n
      \<and> start_program (main buf v) magic mbi s = Some (Inr (Stays Spinning, s')) \<and> exits (of_int n) t s')"
proof (cases e)
  case (Return n)
  then have n: "n = (if magic = MBI_MAGIC then - 1 else 1)" using main_ends [OF assms(1)] by (auto split: if_splits)
  from returns_exits [where main_fn = "main buf v", OF assms(2) assms(1) [unfolded Return]] show ?thesis
    using n Return by blast
next
  case (Jump a d b)
  then have "magic = MBI_MAGIC" "a = 0" "d = 0x7C00" "if b = 0 then mbi = 0 else True"
    using main_ends [OF assms(1)] by (auto split: if_splits)
  moreover have "start_program (main buf v) magic mbi s = Some (Inr (Enters a d b, t))"
    by (rule jumps_enters [where main_fn = "main buf v"]) (use assms(1) Jump in simp)
  ultimately show ?thesis using Jump by blast
qed

end
