(* ===== verification/Processor.thy ===== *)
theory Processor imports Machine_Memory begin

text \<open>
  The helpers for the processor that no program uses yet: the byte swap and the register accessors of asm.h, and cpuid.h.
  What the processor accepts as a new value of a register depends on its model and its descriptor tables, which are
  fields of the state.
\<close>

unbundle bit_operations_syntax

section \<open>The processor\<close>

datatype creg = CR0 | CR3 | CR4

datatype sreg = CS | DS | ES | FS | GS | SS

datatype trap = Invalid_opcode | General_protection

record processor =
  creg_of :: "creg \<Rightarrow> u32"
  sreg_of :: "sreg \<Rightarrow> u16"
  msr_of :: "u32 \<Rightarrow> u64"
  cpuid_edx :: "u32 \<Rightarrow> u32"
  creg_ok :: "creg \<Rightarrow> u32 \<Rightarrow> bool"
  sreg_ok :: "sreg \<Rightarrow> u16 \<Rightarrow> bool"
  msr_ok :: "u32 \<Rightarrow> u64 \<Rightarrow> bool"

text \<open>An instruction completes or traps.\<close>

type_synonym 'a instr = "processor \<Rightarrow> trap + 'a \<times> processor"

section \<open>asm.h\<close>

text \<open>The instruction \<open>bswap\<close> reverses the four bytes.\<close>

definition ntohl :: "u32 \<Rightarrow> u32" where
  "ntohl v = of_le_bytes (rev (le_bytes 4 v))"

text \<open>\<open>get_cr0\<close>, \<open>get_cr3\<close>, \<open>get_cr4\<close> and the setters.\<close>

definition get_creg :: "creg \<Rightarrow> u32 instr" where
  "get_creg r p = Inr (creg_of p r, p)"

definition set_creg :: "creg \<Rightarrow> u32 \<Rightarrow> unit instr" where
  "set_creg r v p =
     (if creg_ok p r v then Inr ((), p\<lparr>creg_of := (creg_of p)(r := v)\<rparr>) else Inl General_protection)"

text \<open>
  \<open>set_cs\<close> \<dots> \<open>set_ss\<close>: a move of a 32-bit register to a segment register uses its lower half. There is no such
  move to CS: its encoding is an invalid opcode.
\<close>

definition set_sreg :: "sreg \<Rightarrow> u32 \<Rightarrow> unit instr" where
  "set_sreg r v p =
     (if r = CS then Inl Invalid_opcode
      else if sreg_ok p r (ucast v) then Inr ((), p\<lparr>sreg_of := (sreg_of p)(r := ucast v)\<rparr>)
      else Inl General_protection)"

section \<open>cpuid.h\<close>

definition IA32_APIC_BASE :: u32 where "IA32_APIC_BASE = 0x001b"
definition APIC_DEFAULT_PHYS_BASE :: u32 where "APIC_DEFAULT_PHYS_BASE = 0xFEE00000"
definition APIC_PHYS_BASE_MASK :: u32 where "APIC_PHYS_BASE_MASK = 0xFFFFF000"
definition APIC_ENABLE :: u32 where "APIC_ENABLE = push_bit 11 1"

definition has_apic :: "processor \<Rightarrow> bool" where
  "has_apic p \<longleftrightarrow> drop_bit 9 (cpuid_edx p 1) AND 1 \<noteq> 0"

text \<open>The two halves of a model-specific register, EDX and EAX.\<close>

definition rdmsr :: "u32 \<Rightarrow> processor \<Rightarrow> u32 \<times> u32" where
  "rdmsr r p = (ucast (drop_bit 32 (msr_of p r)), ucast (msr_of p r))"

definition wrmsr :: "u32 \<Rightarrow> u32 \<Rightarrow> u32 \<Rightarrow> unit instr" where
  "wrmsr r hi low p =
     (let v = push_bit 32 (ucast hi) OR ucast low in
      if msr_ok p r v then Inr ((), p\<lparr>msr_of := (msr_of p)(r := v)\<rparr>) else Inl General_protection)"

definition enable_apic :: "unit instr" where
  "enable_apic p =
     (let (hi, low) = rdmsr IA32_APIC_BASE p;
          low = low AND NOT APIC_PHYS_BASE_MASK;
          low = low OR APIC_DEFAULT_PHYS_BASE;
          low = low OR APIC_ENABLE
      in wrmsr IA32_APIC_BASE hi low p)"

section \<open>What they do\<close>

text \<open>It reads the word that is stored big endian at \<open>p\<close>; swapping twice is nothing.\<close>

lemma ntohl_network_order: "ntohl (load32 m p) = of_le_bytes (rev (read_bytes m p 4))"
  by (simp add: ntohl_def load32_def le_bytes_of_le_bytes)

lemma ntohl_ntohl: "ntohl (ntohl v) = v"
  by (simp add: ntohl_def le_bytes_of_le_bytes)

lemma creg_roundtrip: "set_creg r v p = Inr ((), p') \<Longrightarrow> get_creg r p' = Inr (v, p')"
  by (auto simp: set_creg_def get_creg_def split: if_splits)

text \<open>\<open>set_cs\<close> can never work.\<close>

lemma set_cs_traps: "set_sreg CS v p = Inl Invalid_opcode"
  by (simp add: set_sreg_def)

text \<open>
  The APIC is enabled and the lower half of its base is the default one; the other bits below 4096 are kept.
  The upper half is kept, too, so the base is the default base only if it was below 4G.
\<close>

definition apic_base_after :: "u64 \<Rightarrow> u64" where
  "apic_base_after x = push_bit 32 (drop_bit 32 x) OR (take_bit 12 x OR 0xFEE00800)"

lemma enable_apic_result:
  "enable_apic p = (let v = apic_base_after (msr_of p 0x1B) in
     if msr_ok p 0x1B v then Inr ((), p\<lparr>msr_of := (msr_of p)(0x1B := v)\<rparr>) else Inl General_protection)"
proof -
  have low: "ucast ((ucast x :: u32) AND NOT 0xFFFFF000) = take_bit 12 x" for x :: u64
  proof -
    have "(NOT 0xFFFFF000 :: u32) = mask 12" by (simp add: mask_eq_exp_minus_1)
    then have "(ucast x :: u32) AND NOT 0xFFFFF000 = take_bit 12 (ucast x)" by (simp only: take_bit_eq_mask)
    then show ?thesis by (simp only:) (rule bit_word_eqI, auto simp: bit_simps)
  qed
  have hi: "push_bit 32 (ucast (ucast (drop_bit 32 x) :: u32)) = push_bit 32 (drop_bit 32 x)" for x :: u64
    by (rule bit_word_eqI) (auto simp: bit_simps)
  have "push_bit 32 (ucast (ucast (drop_bit 32 x) :: u32)) OR ucast ((((ucast x :: u32) AND NOT 0xFFFFF000) OR 0xFEE00000) OR push_bit 11 1)
      = apic_base_after x" for x :: u64
    unfolding unsigned_or_eq low hi apic_base_after_def by (simp add: or.assoc)
  then show ?thesis
    by (simp only: enable_apic_def rdmsr_def wrmsr_def Let_def case_prod_conv IA32_APIC_BASE_def APIC_PHYS_BASE_MASK_def APIC_DEFAULT_PHYS_BASE_def APIC_ENABLE_def)
qed

lemma enable_apic_keeps_upper_half:
  assumes "enable_apic p = Inr ((), p')"
  shows "drop_bit 32 (msr_of p' 0x1B) = drop_bit 32 (msr_of p 0x1B)"
proof -
  have "msr_of p' 0x1B = apic_base_after (msr_of p 0x1B)"
    using assms by (auto simp: enable_apic_result Let_def split: if_splits)
  moreover have "drop_bit 32 (apic_base_after x) = drop_bit 32 x" for x :: u64
  proof -
    have "drop_bit 32 (0xFEE00800 :: u64) = 0" by simp
    moreover have "drop_bit 32 (take_bit 12 x) = 0" "drop_bit 32 (push_bit 32 (drop_bit 32 x)) = drop_bit 32 x"
      by (rule bit_word_eqI; auto simp: bit_simps dest: bit_imp_le_length)+
    ultimately show ?thesis by (simp add: apic_base_after_def)
  qed
  ultimately show ?thesis by simp
qed

end
