(* ===== verification/Amy.thy ===== *)
theory Amy imports Mbi2 Pci begin

text \<open>
  amy.c: the program that sends a message through every serial port it can find, the ones of the BIOS
  data area and the PCI controllers, and then stops the processor. Functions that bender.c has under the
  same name are called \<open>amy_\<dots>\<close> here.
\<close>

unbundle bit_operations_syntax

text \<open>How the program ends: it returns, or it halts in \<open>cli_halt\<close>.\<close>

datatype outcome =
    Returns int
  | Halts

definition com_port :: "mem \<Rightarrow> nat \<Rightarrow> u16" where
  "com_port m i = load16 m (0x400 + 2 * of_nat i)"

text \<open>One round of the loop over the four ports of the BIOS data area, and the loop from \<open>4 - k\<close> on.\<close>

definition probe_com :: "nat \<Rightarrow> (machine, unit) comp" where
  "probe_com i =
     andthen (gets (\<lambda>s. com_port (ram s) i)) (\<lambda>port.
     if port = 0 \<or> port AND 0x7 \<noteq> 0
     then printf ''Skipping COM%zu at port %x.\<newline>'' [Va_word (of_nat i + 1), Va_word (ucast port)]
     else
       andthen (modifies (serial_init_port port)) (\<lambda>_.
       andthen (printf ''Probing COM%zu at port %x...\<newline>'' [Va_word (of_nat i + 1), Va_word (ucast port)]) (\<lambda>_.
       modifies serial_disable)))"

primrec probe_coms :: "nat \<Rightarrow> (machine, unit) comp" where
  "probe_coms 0 = ret ()"
| "probe_coms (Suc k) = andthen (probe_com (4 - Suc k)) (\<lambda>_. probe_coms k)"

definition probe_legacy :: "(machine, unit) comp" where
  "probe_legacy = probe_coms 4"

definition amy_is_serial_controller :: "pci_device \<Rightarrow> (machine, bool) comp" where
  "amy_is_serial_controller dev = pci_matches_class dev PCI_CLASS_SIMPLE_COMM PCI_SUBCLASS_SERIAL_CTRL"

definition amy_apply_quirks :: "pci_device \<Rightarrow> u16 \<Rightarrow> (machine, u16) comp" where
  "amy_apply_quirks pcid raw_iobase =
     (if db_quirks (dev_db pcid) AND QUIRK_SERIAL_BAR0_OFFSET_C0 \<noteq> 0
      then andthen (printf ''Found XR16850 chip. Adding 0xc0 to iobase offset.\<newline>'' []) (\<lambda>_. ret (raw_iobase + 0xc0))
      else ret raw_iobase)"

text \<open>The body of the loop over the PCI controllers, and the loop.\<close>

definition probe_controller :: "pci_device \<Rightarrow> (machine, unit) comp" where
  "probe_controller dev =
     andthen (printf ''Found Serial Controller: %lx\<newline>'' [Va_word (cfg_address dev)]) (\<lambda>_.
     andthen (pci_first_iobar_base dev) (\<lambda>iobar.
     case iobar of
       None \<Rightarrow> printf ''No PIO BAR. Skipping.\<newline>'' []
     | Some raw_iobase \<Rightarrow>
         andthen (amy_apply_quirks dev raw_iobase) (\<lambda>iobase.
         andthen (modifies (serial_init_port iobase)) (\<lambda>_.
         andthen (printf ''Probing PCI serial controller %lx at port %x...\<newline>'' [Va_word (cfg_address dev), Va_word (ucast iobase)]) (\<lambda>_.
         modifies serial_disable)))))"

partial_function (option) probe_pci_from :: "pci_iter \<Rightarrow> machine \<Rightarrow> (fault + unit \<times> machine) option" where
  "probe_pci_from iter s =
     (case pci_iter_next_matching amy_is_serial_controller iter s of
        None \<Rightarrow> None
      | Some r \<Rightarrow> (case r of
          Inl e \<Rightarrow> Some (Inl e)
        | Inr x \<Rightarrow> (case fst (fst x) of
            None \<Rightarrow> Some (Inr ((), snd x))
          | Some dev \<Rightarrow> (case probe_controller dev (snd x) of
              None \<Rightarrow> None
            | Some r \<Rightarrow> (case r of
                Inl e \<Rightarrow> Some (Inl e)
              | Inr y \<Rightarrow> probe_pci_from (snd (fst x)) (snd y))))))"

definition probe_pci :: "(machine, unit) comp" where
  "probe_pci = probe_pci_from PCI_ITER_INIT"

text \<open>\<open>parse_cmdline\<close> of amy.c does nothing; \<open>version_str\<close> is the generated string.\<close>

definition amy_main :: "string \<Rightarrow> u32 \<Rightarrow> (machine, outcome) comp" where
  "amy_main version_str magic =
     (if magic = MBI_MAGIC then
        andthen (printf ''\<newline>Amy %s'' [Va_lit version_str]) (\<lambda>_.
        andthen (printf ''Probing for legacy serial controllers...\<newline>'' []) (\<lambda>_.
        andthen probe_legacy (\<lambda>_.
        andthen (printf ''Probing for PCI serial controllers...\<newline>'' []) (\<lambda>_.
        andthen probe_pci (\<lambda>_.
        andthen (printf ''Our job is done. Sleeping.\<newline>'' []) (\<lambda>_. ret Halts))))))
      else if magic = MBI2_MAGIC then
        andthen (printf ''Multiboot2 is not supported. Please boot via Multiboot1. Bye.\<newline>'' []) (\<lambda>_. ret (Returns 1))
      else
        andthen (printf ''Not loaded by Multiboot-compliant loader. Bye.\<newline>'' []) (\<lambda>_. ret (Returns 1)))"

declare probe_pci_from.simps [code]

end
