(* ===== verification/Amy_Proof.thy ===== *)
theory Amy_Proof imports Amy Bender_Proof begin

text \<open>
  amy.c: the ports are opened one after the other and a message is sent through each; nothing else is written to
  a port, and the program halts with memory as it was and the serial line switched off.
\<close>

unbundle bit_operations_syntax

section \<open>What is written to ports\<close>

text \<open>The bytes written to ports in a history, in the order of time.\<close>

fun is_write :: "io_event \<Rightarrow> bool" where
  "is_write (OutB p v) = True"
| "is_write _ = False"

definition writes :: "io_event list \<Rightarrow> io_event list" where
  "writes h = rev (filter is_write h)"

lemma writes_simps [simp]:
  "writes [] = []" "writes (OutB p v # h) = writes h @ [OutB p v]" "writes (InB p v # h) = writes h"
  "writes (OutL p w # h) = writes h" "writes (InL p w # h) = writes h"
  by (simp_all add: writes_def)

definition still :: "machine \<Rightarrow> machine \<Rightarrow> bool" where
  "still s s' \<longleftrightarrow> quiet s s' \<and> writes (io s') = writes (io s)"

lemma still_trans: "still s t \<Longrightarrow> still t u \<Longrightarrow> still s u"
  by (auto simp: still_def intro: quiet_trans)

section \<open>Sending a text\<close>

text \<open>The bytes that go over the line: a carriage return after every newline.\<close>

definition wire :: "u32 list \<Rightarrow> u8 list" where
  "wire t = concat (map (\<lambda>c. if c = 0x0A then [0x0A, 0x0D] else [ucast c]) t)"

text \<open>The line at a port is always ready for a byte: bit 5 of the line status register.\<close>

definition ready_line :: "(io_event list \<Rightarrow> u16 \<Rightarrow> u8) \<Rightarrow> u16 \<Rightarrow> bool" where
  "ready_line dev p \<longleftrightarrow> (\<forall>h. bit (dev h (p + 5)) 5)"

text \<open>
  \<open>sent s bs s'\<close>: the bytes \<open>bs\<close> have been sent, or the line has been switched off after some of them.
\<close>

definition sent :: "machine \<Rightarrow> u8 list \<Rightarrow> machine \<Rightarrow> bool" where
  "sent s bs s' \<longleftrightarrow> quiet s s'
     \<and> (\<exists>k. writes (io s') = writes (io s) @ map (OutB (serial_base s)) (take k bs) \<and> (output_enabled s' \<longrightarrow> length bs \<le> k))
     \<and> (\<not> output_enabled s \<longrightarrow> writes (io s') = writes (io s))
     \<and> (output_enabled s \<and> ready_line (port_in8 s) (serial_base s) \<longrightarrow> output_enabled s')"

lemma sent_append:
  assumes "sent s as t" and "sent t bs u"
  shows "sent s (as @ bs) u"
proof -
  have q: "quiet s t" "quiet t u" using assms by (simp_all add: sent_def)
  have d: "serial_base t = serial_base s" "port_in8 t = port_in8 s" "output_enabled t \<longrightarrow> output_enabled s" "output_enabled u \<longrightarrow> output_enabled t"
    using q by (simp_all add: quiet_def)
  obtain k1 where k1: "writes (io t) = writes (io s) @ map (OutB (serial_base s)) (take k1 as)" "output_enabled t \<longrightarrow> length as \<le> k1"
    using assms(1) by (auto simp: sent_def)
  obtain k2 where k2: "writes (io u) = writes (io t) @ map (OutB (serial_base s)) (take k2 bs)" "output_enabled u \<longrightarrow> length bs \<le> k2"
    using assms(2) d(1) by (auto simp: sent_def)
  have "\<exists>k. writes (io u) = writes (io s) @ map (OutB (serial_base s)) (take k (as @ bs)) \<and> (output_enabled u \<longrightarrow> length (as @ bs) \<le> k)"
  proof (cases "output_enabled t")
    case True
    then show ?thesis using k1 k2 by (intro exI [of _ "length as + k2"]) simp
  next
    case False
    then have "writes (io u) = writes (io t)" using assms(2) by (simp add: sent_def)
    then show ?thesis using k1(1) False d(4) by (intro exI [of _ "min k1 (length as)"]) (simp add: min_def)
  qed
  moreover have "writes (io u) = writes (io s)" if "\<not> output_enabled s"
    using assms that d(3) by (simp add: sent_def)
  moreover have "output_enabled u" if "output_enabled s" "ready_line (port_in8 s) (serial_base s)"
    using assms that d(1,2) by (simp add: sent_def)
  ultimately show ?thesis unfolding sent_def using quiet_trans [OF q] by blast
qed

lemma sent_refl: "quiet s t \<Longrightarrow> io t = io s \<Longrightarrow> output_enabled t = output_enabled s \<Longrightarrow> sent s [] t"
  by (simp add: sent_def)

lemma await_writes:
  "writes (io (snd (await_empty n s))) = writes (io s)
    \<and> output_enabled (snd (await_empty n s)) = (fst (await_empty n s) \<and> output_enabled s)
    \<and> serial_base (snd (await_empty n s)) = serial_base s
    \<and> (ready_line (port_in8 s) (serial_base s) \<longrightarrow> fst (await_empty n s))"
proof (induction n arbitrary: s)
  case 0
  have b: "x AND LSR_TMIT_HOLD_EMPTY \<noteq> 0 \<longleftrightarrow> bit x 5" for x
    using and_exp_eq_0_iff_not_bit [of x 5] by (simp add: LSR_TMIT_HOLD_EMPTY_def push_bit_eq_mult)
  show ?case by (subst (1 2 3 4 5) await_empty.simps) (simp add: inb_def Let_def b ready_line_def LSR_def)
next
  case (Suc n)
  have b: "x AND LSR_TMIT_HOLD_EMPTY \<noteq> 0 \<longleftrightarrow> bit x 5" for x
    using and_exp_eq_0_iff_not_bit [of x 5] by (simp add: LSR_TMIT_HOLD_EMPTY_def push_bit_eq_mult)
  show ?case
    using Suc.IH [of "snd (inb (serial_base s + LSR) s)"]
    by (subst (1 2 3 4 5) await_empty.simps) (simp add: inb_def Let_def b ready_line_def LSR_def)
qed

lemma sent_serial_send: "sent s [ucast c] (serial_send c s)"
proof (cases "output_enabled s")
  case False
  then show ?thesis using sent_refl [of s s] by (simp add: serial_send_def sent_def)
next
  case True
  obtain ready t where a: "await_empty 65536 s = (ready, t)" by fastforce
  have w: "writes (io t) = writes (io s)" "output_enabled t = (ready \<and> output_enabled s)" "serial_base t = serial_base s"
    "ready_line (port_in8 s) (serial_base s) \<longrightarrow> ready"
    using await_writes [of 65536 s] by (simp_all add: a)
  have s': "serial_send c s = (if ready then t\<lparr>io := OutB (serial_base s) (ucast c) # io t\<rparr> else t)"
    using True a w(3) by (simp add: serial_send_def outb_def THR_def)
  have "\<exists>k. writes (io (serial_send c s)) = writes (io s) @ map (OutB (serial_base s)) (take k [ucast c])
      \<and> (output_enabled (serial_send c s) \<longrightarrow> length [ucast c :: u8] \<le> k)"
    using w True unfolding s' by (intro exI [of _ "if ready then 1 else 0"]) simp
  then show ?thesis
    unfolding sent_def using quiet_serial_send [of s c] True w unfolding s' by simp
qed

lemma sent_out_char: "sent s (wire [c]) (out_char c s)"
proof -
  have start: "sent s [] t" if "quiet s t" "io t = io s" "output_enabled t = output_enabled s" for t
    using that by (rule sent_refl)
  have two: "sent t [ucast c] (serial_send c t)" "sent u [0x0D] (serial_send 0x0D u)" for t u
    using sent_serial_send [of t c] sent_serial_send [of u "0x0D"] by simp_all
  show ?thesis
  proof (cases "c = 0x0A")
    case True
    obtain t where t: "out_char c s = serial_send 0x0D (serial_send c t)" "quiet s t" "io t = io s" "output_enabled t = output_enabled s"
      using True by (simp add: out_char_def Let_def)
    have "sent s ([] @ [ucast c] @ [0x0D]) (out_char c s)"
      unfolding t(1) by (rule sent_append [OF start [OF t(2-4)] sent_append [OF two]])
    then show ?thesis using True by (simp add: wire_def)
  next
    case False
    obtain t where t: "out_char c s = serial_send c t" "quiet s t" "io t = io s" "output_enabled t = output_enabled s"
      using False by (simp add: out_char_def Let_def)
    have "sent s ([] @ [ucast c]) (out_char c s)"
      unfolding t(1) by (rule sent_append [OF start [OF t(2-4)] two(1)])
    then show ?thesis using False by (simp add: wire_def)
  qed
qed

lemma sent_fold: "sent s (wire t) (fold out_char t s)"
proof (induction t arbitrary: s)
  case Nil
  show ?case using sent_refl [of s s] by (simp add: wire_def)
next
  case (Cons c t)
  have "wire (c # t) = wire [c] @ wire t" by (simp add: wire_def)
  then show ?case using sent_append [OF sent_out_char Cons.IH] by simp
qed

text \<open>A message while the line is off.\<close>

lemma wp_print_off:
  assumes "expand (\<lambda>_. None) (directives fmt) ap \<noteq> None" and "\<not> output_enabled s" and "\<And>s'. still s s' \<Longrightarrow> Q () s'"
  shows "wp (printf fmt ap) Q s"
proof -
  obtain t where "expand (\<lambda>_. None) (directives fmt) ap = Some t" using assms(1) by blast
  note p = printf_text [OF no_strings this, of s]
  have "still s (fold out_char t s)" using sent_fold [of s t] assms(2) by (simp add: sent_def still_def)
  then show ?thesis using assms(3) p by (simp add: wp_def)
qed

lemma wp_print_off_then:
  assumes "expand (\<lambda>_. None) (directives fmt) ap \<noteq> None" and "\<not> output_enabled s" and "\<And>s'. still s s' \<Longrightarrow> wp (k ()) Q s'"
  shows "wp (andthen (printf fmt ap) k) Q s"
  unfolding wp_andthen using assms by (rule wp_print_off)

section \<open>The configuration space\<close>

text \<open>Reading the configuration space writes no bytes to ports.\<close>

definition silent :: "(machine, 'a) comp \<Rightarrow> bool" where
  "silent m \<longleftrightarrow> (\<forall>s x s'. m s = Some (Inr (x, s')) \<longrightarrow> writes (io s') = writes (io s))"

lemma silentD: "silent m \<Longrightarrow> m s = Some (Inr (x, s')) \<Longrightarrow> writes (io s') = writes (io s)"
  by (simp add: silent_def)

lemma silent_andthen: "silent m \<Longrightarrow> (\<And>x. silent (k x)) \<Longrightarrow> silent (andthen m k)"
  by (fastforce simp: silent_def andthen_def split: option.splits sum.splits)

lemma silent_simps: "silent (ret x)" "silent (reads f)" "silent (asserts c e)"
  by (auto simp: silent_def ret_def reads_def asserts_def fail_def split: option.splits)

lemma writes_pci_read: "writes (io (snd (pci_read_uint32 a s))) = writes (io s)" "writes (io (snd (pci_read_uint8 a s))) = writes (io s)"
  by (simp_all add: pci_read_uint32_def pci_read_uint8_def inl_def inb_def outl_def Let_def)

lemma silent_pci_read: "silent (runs (pci_read_uint32 a))"
  using writes_pci_read(1) by (auto simp: silent_def runs_def) (metis snd_conv)

lemma silent_populate: "silent (populate_device_info a)"
  unfolding populate_device_info_def Let_def by (intro silent_andthen silent_simps silent_pci_read)

lemma silent_next_device: "silent (pci_iter_next_device it)"
proof -
  have "pci_iter_next_device it s = Some (Inr (r, s')) \<Longrightarrow> writes (io s') = writes (io s)" for s r s'
  proof (induction it s arbitrary: r s' rule: pci_iter_next_device.induct)
    case (1 it s)
    show ?case
    proof (cases "it_bus_device it < push_bit 13 1")
      case False
      then show ?thesis using 1(2) by (subst (asm) pci_iter_next_device.simps) simp
    next
      case True
      let ?a = "function_address it"
      obtain v s1 where v: "pci_read_uint32 (?a + PCI_CFG_VENDOR_ID) s = (v, s1)" by fastforce
      have w1: "writes (io s1) = writes (io s)" using writes_pci_read(1) [of "?a + PCI_CFG_VENDOR_ID" s] v by simp
      show ?thesis
      proof (cases "v = 0xFFFFFFFF")
        case T: True
        show ?thesis
        proof (cases "pci_iter_advance it")
          case (Inl e)
          then show ?thesis using 1(2) True v T by (subst (asm) pci_iter_next_device.simps) simp
        next
          case (Inr it2)
          then have "pci_iter_next_device it2 s1 = Some (Inr (r, s'))"
            using 1(2) True v T by (subst (asm) pci_iter_next_device.simps) simp
          from 1(1) [OF True refl v [symmetric] refl T Inr this] show ?thesis using w1 by simp
        qed
      next
        case F: False
        obtain multi s2 where ms: "(if it_max_function it = 0
            then (let (x, s) = pci_read_uint8 (?a + 14) s1 in (x AND 0x80 \<noteq> 0, s)) else (False, s1)) = (multi, s2)" by fastforce
        have w2: "writes (io s2) = writes (io s1)"
          using ms writes_pci_read(2) [of "?a + 14" s1] by (auto simp: Let_def split: if_splits prod.splits)
        have run: "andthen (populate_device_info ?a) (\<lambda>dev s.
            case pci_iter_advance (if multi then it\<lparr>it_max_function := 7\<rparr> else it) of
              Inl e \<Rightarrow> Some (Inl e) | Inr iter \<Rightarrow> Some (Inr ((Some dev, iter), s))) s2 = Some (Inr (r, s'))"
          using 1(2) True v F ms by (subst (asm) pci_iter_next_device.simps) simp
        have "silent (andthen (populate_device_info ?a) (\<lambda>dev s.
            case pci_iter_advance (if multi then it\<lparr>it_max_function := 7\<rparr> else it) of
              Inl e \<Rightarrow> Some (Inl e) | Inr iter \<Rightarrow> Some (Inr ((Some dev, iter), s))))"
          by (rule silent_andthen [OF silent_populate]) (auto simp: silent_def split: sum.splits)
        from silentD [OF this run] show ?thesis using w1 w2 by simp
      qed
    qed
  qed
  then show ?thesis by (simp add: silent_def)
qed

lemma silent_matches_class: "silent (pci_matches_class dev c sc)"
  unfolding pci_matches_class_def Let_def by (intro silent_andthen silent_simps silent_pci_read)

lemma silent_next_matching:
  assumes "\<And>dev. silent (predicate dev)"
  shows "silent (pci_iter_next_matching predicate it)"
proof -
  have "(\<forall>dev. silent (predicate dev)) \<longrightarrow> (\<forall>x s'. r = Inr (x, s') \<longrightarrow> writes (io s') = writes (io s))"
    if "pci_iter_next_matching predicate it s = Some r" for it s r
  proof (rule pci_iter_next_matching.raw_induct [of "\<lambda>predicate it s r. (\<forall>dev. silent (predicate dev))
      \<longrightarrow> (\<forall>x s'. r = Inr (x, s') \<longrightarrow> writes (io s') = writes (io s))", OF _ that], intro impI allI)
    fix f predicate it s r x s'
    assume IH: "\<And>predicate it s r. f predicate it s = Some r \<Longrightarrow> (\<forall>dev. silent (predicate dev))
        \<longrightarrow> (\<forall>x s'. r = Inr (x, s') \<longrightarrow> writes (io s') = writes (io s))"
      and step: "(case pci_iter_next_device it s of
        None \<Rightarrow> None
      | Some r \<Rightarrow> (case r of
          Inl e \<Rightarrow> Some (Inl e)
        | Inr x \<Rightarrow> (case fst (fst x) of
            None \<Rightarrow> Some (Inr ((None, snd (fst x)), snd x))
          | Some dev \<Rightarrow> (case predicate dev (snd x) of
              None \<Rightarrow> None
            | Some r \<Rightarrow> (case r of
                Inl e \<Rightarrow> Some (Inl e)
              | Inr y \<Rightarrow> if fst y then Some (Inr ((Some dev, snd (fst x)), snd y))
                        else f predicate (snd (fst x)) (snd y)))))) = Some r"
      and sil: "\<forall>dev. silent (predicate dev)" and r: "r = Inr (x, s')"
    have p: "writes (io u) = writes (io t)" if "predicate dev t = Some (Inr (b, u))" for dev t b u
      using silentD [OF sil [rule_format] that] .
    obtain d s1 where d: "pci_iter_next_device it s = Some (Inr (d, s1))"
      using step r by (auto split: option.splits sum.splits)
    have w: "writes (io s1) = writes (io s)" by (rule silentD [OF silent_next_device d])
    show "writes (io s') = writes (io s)"
    proof (cases "fst d")
      case None
      then show ?thesis using step d r w by simp
    next
      case (Some dev)
      then obtain b s2 where b: "predicate dev s1 = Some (Inr (b, s2))"
        using step d r by (auto split: option.splits sum.splits)
      have w2: "writes (io s2) = writes (io s)" using p [OF b] w by simp
      show ?thesis
      proof (cases b)
        case True
        then show ?thesis using step d r b Some w2 by simp
      next
        case False
        then have "f predicate (snd d) s2 = Some r" using step d b Some by simp
        from IH [OF this] show ?thesis using sil r w2 by simp
      qed
    qed
  qed
  then show ?thesis using assms by (auto simp: silent_def)
qed

lemma silent_first_iobar: "silent (pci_first_iobar_base dev)"
proof -
  have "silent (iobar_loop dev n)" for n
  proof (induction n)
    case (Suc n)
    have "silent (pci_cfg_read_bar dev i)" for i
      unfolding pci_cfg_read_bar_def pci_cfg_read_uint32_def by (intro silent_andthen silent_simps silent_pci_read)
    then show ?case unfolding iobar_loop.simps by (auto intro!: silent_andthen silent_simps Suc)
  qed (simp add: silent_simps)
  then show ?thesis by (simp add: pci_first_iobar_base_def)
qed

section \<open>Opening ports\<close>

text \<open>The bytes written to open a port, in their order: divisor 1, 8 bits, one stop bit, no interrupts, FIFOs on and reset, DTR and RTS.\<close>

definition open_writes :: "u16 \<Rightarrow> io_event list" where
  "open_writes p = [OutB (p + 3) 0x80, OutB p 1, OutB (p + 1) 0, OutB (p + 3) 3, OutB (p + 1) 0, OutB (p + 2) 7, OutB (p + 4) 3]"

text \<open>
  What is written in all: the ports are opened in the order of the list, each with its message sent right after, down to the end if the
  line is always ready and else down to where it was given up.
\<close>

inductive conversation :: "(io_event list \<Rightarrow> u16 \<Rightarrow> u8) \<Rightarrow> (u16 \<times> u32 list) list \<Rightarrow> io_event list \<Rightarrow> bool"
  for dev :: "io_event list \<Rightarrow> u16 \<Rightarrow> u8" where
  over: "conversation dev [] []"
| talk: "(ready_line dev p \<Longrightarrow> length (wire t) \<le> k) \<Longrightarrow> conversation dev pts es
    \<Longrightarrow> conversation dev ((p, t) # pts) (open_writes p @ map (OutB p) (take k (wire t)) @ es)"

lemma conversation_append: "conversation dev as es \<Longrightarrow> conversation dev bs fs \<Longrightarrow> conversation dev (as @ bs) (es @ fs)"
proof (induction rule: conversation.induct)
  case (talk p t k pts es)
  then show ?case using conversation.talk [of dev p t k "pts @ bs" "es @ fs"] by simp
qed simp

text \<open>\<open>probed s pts s'\<close>: the ports \<open>pts\<close> have been opened and closed in this order, their messages sent.\<close>

definition probed :: "machine \<Rightarrow> (u16 \<times> u32 list) list \<Rightarrow> machine \<Rightarrow> bool" where
  "probed s pts s' \<longleftrightarrow> ram s' = ram s \<and> port_in8 s' = port_in8 s \<and> port_in32 s' = port_in32 s
     \<and> serial_base s' = last (serial_base s # map fst pts) \<and> \<not> output_enabled s'
     \<and> (\<exists>es. conversation (port_in8 s) pts es \<and> writes (io s') = writes (io s) @ es)"

lemma probed_off: "probed s pts s' \<Longrightarrow> \<not> output_enabled s'"
  by (simp add: probed_def)

lemma probed_trans:
  assumes "probed s ps s1" and "probed s1 qs s2"
  shows "probed s (ps @ qs) s2"
proof -
  obtain es where es: "conversation (port_in8 s) ps es" "writes (io s1) = writes (io s) @ es"
    using assms(1) by (auto simp: probed_def)
  have d: "port_in8 s1 = port_in8 s" using assms(1) by (simp add: probed_def)
  obtain fs where fs: "conversation (port_in8 s) qs fs" "writes (io s2) = writes (io s1) @ fs"
    using assms(2) d by (auto simp: probed_def)
  have "conversation (port_in8 s) (ps @ qs) (es @ fs)" using es(1) fs(1) by (rule conversation_append)
  moreover have "writes (io s2) = writes (io s) @ es @ fs" using es(2) fs(2) by simp
  moreover have "last (serial_base s # map fst (ps @ qs)) = last (last (serial_base s # map fst ps) # map fst qs)" by simp
  ultimately show ?thesis using assms unfolding probed_def by auto
qed

lemma probed_still: "still s s' \<Longrightarrow> \<not> output_enabled s \<Longrightarrow> probed s [] s'"
  using over by (auto simp: probed_def still_def quiet_def)

lemma probed_after_still: "still s t \<Longrightarrow> \<not> output_enabled s \<Longrightarrow> probed t ps s' \<Longrightarrow> probed s ps s'"
  using probed_trans [OF probed_still] by fastforce

lemma still_off: "still s t \<Longrightarrow> \<not> output_enabled s \<Longrightarrow> \<not> output_enabled t"
  by (simp add: still_def quiet_def)

text \<open>Opening a port, a message, and switching the line off.\<close>

lemma wp_open_close:
  assumes "expand (\<lambda>_. None) (directives fmt) ap = Some t"
  shows "wp (andthen (modifies (serial_init_port port)) (\<lambda>_. andthen (printf fmt ap) (\<lambda>_. modifies serial_disable))) (\<lambda>_. probed s [(port, t)]) s"
proof -
  let ?s1 = "serial_init_port port s"
  let ?s2 = "fold out_char t ?s1"
  have open': "writes (io ?s1) = writes (io s) @ open_writes port" "serial_base ?s1 = port" "ram ?s1 = ram s" "output_enabled ?s1"
    "port_in8 ?s1 = port_in8 s" "port_in32 ?s1 = port_in32 s"
    by (simp_all add: serial_init_port_def outb_def Let_def open_writes_def LCR_def LCR_DLAB_def DLR_LOW_def DLR_HIGH_def
        LCR_DATA_BITS_8_def LCR_STOP_BITS_1_def IER_def FCR_def FCR_FIFO_ENABLE_def FCR_RECV_FIFO_RESET_def FCR_TMIT_FIFO_RESET_def
        MCR_def MCR_DTR_def MCR_RTS_def)
  note s2 = sent_fold [of ?s1 t, unfolded sent_def]
  obtain k where k: "writes (io ?s2) = writes (io ?s1) @ map (OutB port) (take k (wire t))" "output_enabled ?s2 \<longrightarrow> length (wire t) \<le> k"
    using s2 open'(2) by auto
  have "length (wire t) \<le> k" if "ready_line (port_in8 s) port" using s2 k(2) that open' by simp
  from talk [OF this over] have "conversation (port_in8 s) [(port, t)] (open_writes port @ map (OutB port) (take k (wire t)))" by simp
  moreover have "writes (io ?s2) = writes (io s) @ open_writes port @ map (OutB port) (take k (wire t))" using k(1) open'(1) by simp
  moreover have "ram ?s2 = ram s" "port_in8 ?s2 = port_in8 s" "port_in32 ?s2 = port_in32 s" "serial_base ?s2 = port"
    using s2 open' by (simp_all add: quiet_def)
  ultimately have "probed s [(port, t)] (serial_disable ?s2)" by (auto simp: probed_def serial_disable_def)
  then show ?thesis by (simp add: wp_Inr [where m = "printf fmt ap", OF printf_text [OF no_strings assms]])
qed

text \<open>The messages, with numbers in decimal and hexadecimal digits.\<close>

definition com_text :: "nat \<Rightarrow> u16 \<Rightarrow> u32 list" where
  "com_text i port = msg ''Probing COM'' @ map char_arg (dec_digits (Suc i)) @ msg '' at port '' @ map char_arg (hex_digits (unat port)) @ msg ''...\<newline>''"

definition pci_text :: "u32 \<Rightarrow> u16 \<Rightarrow> u32 list" where
  "pci_text addr port = msg ''Probing PCI serial controller '' @ map char_arg (hex_digits (unat addr)) @ msg '' at port ''
     @ map char_arg (hex_digits (unat port)) @ msg ''...\<newline>''"

lemma unat_port [simp]: "unat (ucast (w :: u16) :: u32) = unat w"
proof -
  have "unat w < 2 ^ 16" using unsigned_less [of w, where 'a = nat] by simp
  then have "unat w < 2 ^ 32" by simp
  then show ?thesis unfolding unsigned_ucast_eq by (simp add: take_bit_nat_eq_self)
qed

lemma com_message:
  assumes "i < 4"
  shows "expand (\<lambda>_. None) (directives ''Probing COM%zu at port %x...\<newline>'') [Va_word (of_nat i + 1), Va_word (ucast port)] = Some (com_text i port)"
proof -
  have "unat (of_nat (Suc i) :: u32) = Suc i" by (rule unat_of_nat_small) (use assms in simp)
  then have "unat (of_nat i + 1 :: u32) = Suc i" by (simp add: add.commute)
  then show ?thesis by (simp add: is_conv_def va_uint_def com_text_def zero_padded_def unat_wide)
qed

lemma pci_message: "expand (\<lambda>_. None) (directives ''Probing PCI serial controller %lx at port %x...\<newline>'') [Va_word addr, Va_word (ucast port)]
    = Some (pci_text addr port)"
  by (simp add: is_conv_def va_uint_def pci_text_def zero_padded_def unat_wide)

definition open_com :: "mem \<Rightarrow> nat \<Rightarrow> (u16 \<times> u32 list) list" where
  "open_com m i = (let port = com_port m i in if port = 0 \<or> port AND 7 \<noteq> 0 then [] else [(port, com_text i port)])"

lemma wp_probe_com:
  assumes "i < 4" and "\<not> output_enabled s"
  shows "wp (probe_com i) (\<lambda>_. probed s (open_com (ram s) i)) s"
proof (cases "open_com (ram s) i = []")
  case True
  then have c: "com_port (ram s) i = 0 \<or> com_port (ram s) i AND 7 \<noteq> 0" by (simp add: open_com_def Let_def split: if_splits)
  show ?thesis
    unfolding probe_com_def wp_andthen wp_gets if_P [OF c] True
    by (rule wp_print_off) (use assms(2) in \<open>simp_all add: is_conv_def va_uint_def probed_still\<close>)
next
  case False
  then have c: "\<not> (com_port (ram s) i = 0 \<or> com_port (ram s) i AND 7 \<noteq> 0)" by (simp add: open_com_def Let_def split: if_splits)
  have p: "open_com (ram s) i = [(com_port (ram s) i, com_text i (com_port (ram s) i))]" using c by (simp add: open_com_def Let_def)
  show ?thesis
    unfolding probe_com_def wp_andthen [of "gets _"] wp_gets if_not_P [OF c] p
    by (rule wp_open_close [OF com_message [OF assms(1)]])
qed

lemma wp_probe_coms: "k \<le> 4 \<Longrightarrow> \<not> output_enabled s \<Longrightarrow> wp (probe_coms k) (\<lambda>_. probed s (concat (map (open_com (ram s)) [4 - k..<4]))) s"
proof (induction k arbitrary: s)
  case 0
  then show ?case using probed_still [of s s] by (simp add: still_def)
next
  case (Suc k)
  have "Suc (4 - Suc k) = 4 - k" using Suc.prems by simp
  moreover have "[4 - Suc k..<4] = (4 - Suc k) # [Suc (4 - Suc k)..<4]" by (rule upt_conv_Cons) (use Suc.prems in simp)
  ultimately have split: "[4 - Suc k..<4] = (4 - Suc k) # [4 - k..<4]" by (simp only:)
  have four: "4 - Suc k < 4" by simp
  show ?case
    unfolding probe_coms.simps wp_andthen split
  proof (rule wp_mono [OF wp_probe_com [OF four Suc.prems(2)]])
    fix x s1 assume s1: "probed s (open_com (ram s) (4 - Suc k)) s1"
    then have "ram s1 = ram s" by (simp add: probed_def)
    with Suc.IH [of s1] Suc.prems(1) probed_off [OF s1] have "wp (probe_coms k) (\<lambda>_. probed s1 (concat (map (open_com (ram s)) [4 - k..<4]))) s1" by simp
    then show "wp (probe_coms k) (\<lambda>_. probed s (concat (map (open_com (ram s)) ((4 - Suc k) # [4 - k..<4])))) s1"
      by (rule wp_mono) (use probed_trans [OF s1] in simp)
  qed
qed

section \<open>The controllers\<close>

text \<open>The port that is opened for a function of the bus, and its message.\<close>

definition open_controller :: "(u32 \<Rightarrow> u32) \<Rightarrow> nat \<times> nat \<Rightarrow> (u16 \<times> u32 list) list" where
  "open_controller cs x = (case first_io_port (map (bar_of cs x) [0..<6]) of None \<Rightarrow> []
     | Some p \<Rightarrow> let port = p + quirk_offset cs x in [(port, pci_text (fn_addr (fst x) (snd x)) port)])"

lemma quirks_still:
  assumes "\<not> output_enabled s"
  shows "\<exists>s'. amy_apply_quirks (device_of cs x) raw s = Some (Inr (raw + quirk_offset cs x, s')) \<and> still s s'"
proof (cases "db_quirks (dev_db (device_of cs x)) AND QUIRK_SERIAL_BAR0_OFFSET_C0 = 0")
  case True
  have "quirk_offset cs x = 0" using True unfolding quirk_offset_def quirk_of_device [symmetric] by simp
  then show ?thesis using True by (simp add: amy_apply_quirks_def ret_def still_def)
next
  case False
  have q: "quirk_offset cs x = 0xc0" using False unfolding quirk_offset_def quirk_of_device [symmetric] by simp
  have "wp (amy_apply_quirks (device_of cs x) raw) (\<lambda>y s'. y = raw + 0xc0 \<and> still s s') s"
    unfolding amy_apply_quirks_def using False assms by (simp del: wp_andthen) (rule wp_print_off_then; simp add: is_conv_def)
  then show ?thesis by (auto simp: wp_iff q)
qed

lemma wp_probe_controller:
  assumes "config_space cs (port_in8 s) (port_in32 s)" and "\<not> output_enabled s"
  shows "wp (probe_controller (device_of cs x)) (\<lambda>_. probed s (open_controller cs x)) s"
  unfolding probe_controller_def
proof (rule wp_print_off_then [OF _ assms(2)])
  fix s1 assume q1: "still s s1"
  then have "config_space cs (port_in8 s1) (port_in32 s1)" using assms(1) by (simp add: still_def quiet_def)
  from config_space.first_iobar [OF this refl, of x] obtain s2 where
    s2: "pci_first_iobar_base (device_of cs x) s1 = Some (Inr (first_io_port (map (bar_of cs x) [0..<6]), s2))" "quiet s1 s2"
    by blast
  have "still s1 s2" using s2(2) silentD [OF silent_first_iobar s2(1)] by (simp add: still_def)
  then have q2: "still s s2" using q1 by (blast intro: still_trans)
  note off2 = still_off [OF q2 assms(2)]
  show "wp (andthen (pci_first_iobar_base (device_of cs x)) (\<lambda>iobar. case iobar of
       None \<Rightarrow> printf ''No PIO BAR. Skipping.\<newline>'' []
     | Some raw_iobase \<Rightarrow>
         andthen (amy_apply_quirks (device_of cs x) raw_iobase) (\<lambda>iobase.
         andthen (modifies (serial_init_port iobase)) (\<lambda>_.
         andthen (printf ''Probing PCI serial controller %lx at port %x...\<newline>'' [Va_word (cfg_address (device_of cs x)), Va_word (ucast iobase)]) (\<lambda>_.
         modifies serial_disable))))) (\<lambda>_. probed s (open_controller cs x)) s1"
  proof (cases "first_io_port (map (bar_of cs x) [0..<6])")
    case None
    have "wp (printf ''No PIO BAR. Skipping.\<newline>'' []) (\<lambda>_. probed s []) s2"
      by (rule wp_print_off [OF _ off2]) (simp add: is_conv_def, rule probed_still [OF still_trans [OF q2] assms(2)])
    then show ?thesis unfolding wp_andthen wp_Inr [where m = "pci_first_iobar_base (device_of cs x)", OF s2(1)] by (simp add: None open_controller_def)
  next
    case (Some raw)
    let ?port = "raw + quirk_offset cs x" and ?addr = "cfg_address (device_of cs x)"
    obtain s3 where s3: "amy_apply_quirks (device_of cs x) raw s2 = Some (Inr (?port, s3))" "still s2 s3"
      using quirks_still [OF off2] by blast
    have "wp (andthen (modifies (serial_init_port ?port)) (\<lambda>_.
         andthen (printf ''Probing PCI serial controller %lx at port %x...\<newline>'' [Va_word ?addr, Va_word (ucast ?port)]) (\<lambda>_.
         modifies serial_disable))) (\<lambda>_. probed s [(?port, pci_text ?addr ?port)]) s3"
      by (rule wp_mono [OF wp_open_close [OF pci_message]]) (rule probed_after_still [OF still_trans [OF q2 s3(2)] assms(2)])
    moreover have "open_controller cs x = [(?port, pci_text ?addr ?port)]"
      by (simp add: open_controller_def Some Let_def device_of_def)
    ultimately show ?thesis
      unfolding wp_andthen wp_Inr [where m = "pci_first_iobar_base (device_of cs x)", OF s2(1)] Some option.case
        wp_Inr [where m = "amy_apply_quirks (device_of cs x) raw", OF s3(1)] by simp
  qed
qed (simp add: is_conv_def va_uint_def)

lemma probe_pci_opens:
  assumes "config_space cs (port_in8 s) (port_in32 s)" and "iter_ok it" and "\<not> output_enabled s"
  shows "\<exists>s'. probe_pci_from it s = Some (Inr ((), s')) \<and> probed s (concat (map (open_controller cs) (filter (wanted False cs) (remaining cs it)))) s'"
  using assms
proof (induction "filter (wanted False cs) (remaining cs it)" arbitrary: it s)
  have sil: "silent (amy_is_serial_controller dev)" for dev
    unfolding amy_is_serial_controller_def by (rule silent_matches_class)
  {
    case Nil
    have p: "\<exists>s'. amy_is_serial_controller (device_of cs x) t = Some (Inr (wanted False cs x, s')) \<and> quiet t s'" if "port_in32 t = port_in32 s" for x t
      using config_space.matches_class [OF Nil(2) that] by (simp add: wanted_def amy_is_serial_controller_def)
    obtain it' s' where n: "pci_iter_next_matching amy_is_serial_controller it s = Some (Inr ((None, it'), s'))" "quiet s s'"
      using config_space.next_matching [OF Nil(2), of amy_is_serial_controller "wanted False cs" it s] p Nil(3) by (auto simp flip: Nil(1))
    have "still s s'" using n(2) silentD [OF silent_next_matching [OF sil] n(1)] by (simp add: still_def)
    then show ?case using n(1) Nil(4) by (subst probe_pci_from.simps) (simp flip: Nil(1) add: probed_still)
  next
    case (Cons x xs)
    have p: "\<exists>s'. amy_is_serial_controller (device_of cs x) t = Some (Inr (wanted False cs x, s')) \<and> quiet t s'" if "port_in32 t = port_in32 s" for x t
      using config_space.matches_class [OF Cons(3) that] by (simp add: wanted_def amy_is_serial_controller_def)
    obtain it' s1 where n: "pci_iter_next_matching amy_is_serial_controller it s = Some (Inr ((Some (device_of cs x), it'), s1))"
      "iter_ok it'" "filter (wanted False cs) (remaining cs it') = xs" "quiet s s1"
      using config_space.next_matching [OF Cons(3), of amy_is_serial_controller "wanted False cs" it s] p Cons(4) by (auto simp flip: Cons(2))
    have st: "still s s1" using n(4) silentD [OF silent_next_matching [OF sil] n(1)] by (simp add: still_def)
    have c1: "config_space cs (port_in8 s1) (port_in32 s1)" using n(4) Cons(3) by (simp add: quiet_def)
    from wp_probe_controller [OF c1 still_off [OF st Cons(5)], of x] obtain s2 where s2: "probe_controller (device_of cs x) s1 = Some (Inr ((), s2))"
      "probed s1 (open_controller cs x) s2" by (auto simp: wp_iff)
    have "config_space cs (port_in8 s2) (port_in32 s2)" using c1 s2(2) by (simp add: probed_def)
    from Cons(1) [OF n(3) [symmetric] this n(2) probed_off [OF s2(2)]] obtain s3 where s3: "probe_pci_from it' s2 = Some (Inr ((), s3))"
      "probed s2 (concat (map (open_controller cs) xs)) s3" unfolding n(3) by blast
    have "probed s (open_controller cs x @ concat (map (open_controller cs) xs)) s3"
      by (rule probed_after_still [OF st Cons(5) probed_trans [OF s2(2) s3(2)]])
    then show ?case using n(1) s2(1) s3(1) by (subst probe_pci_from.simps) (simp flip: Cons(2))
  }
qed

section \<open>The program\<close>

text \<open>The ports in the order they are opened, with their messages: those of the BIOS data area, then those of the bus.\<close>

definition amy_ports :: "(u32 \<Rightarrow> u32) \<Rightarrow> mem \<Rightarrow> (u16 \<times> u32 list) list" where
  "amy_ports cs m = concat (map (open_com m) [0..<4]) @ concat (map (open_controller cs) (controllers False cs))"

lemma amy_runs:
  assumes "config_space cs (port_in8 s) (port_in32 s)" and off: "\<not> output_enabled s"
  shows "\<exists>s'. amy_main v MBI_MAGIC s = Some (Inr (Halts, s')) \<and> probed s (amy_ports cs (ram s)) s'"
proof -
  have "wp (amy_main v MBI_MAGIC) (\<lambda>x s'. x = Halts \<and> probed s (amy_ports cs (ram s)) s') s"
    unfolding amy_main_def if_P [OF refl]
  proof (rule wp_print_off_then [OF _ off])
    fix s1 assume q1: "still s s1"
    let ?k = "andthen (printf ''Our job is done. Sleeping.\<newline>'' []) (\<lambda>_. ret Halts)"
    let ?pci = "andthen (printf ''Probing for PCI serial controllers...\<newline>'' []) (\<lambda>_. andthen probe_pci (\<lambda>_. ?k))"
    show "wp (andthen (printf ''Probing for legacy serial controllers...\<newline>'' []) (\<lambda>_. andthen probe_legacy (\<lambda>_. ?pci)))
       (\<lambda>x s'. x = Halts \<and> probed s (amy_ports cs (ram s)) s') s1"
    proof (rule wp_print_off_then [OF _ still_off [OF q1 off]])
      fix s2 assume "still s1 s2"
      with q1 have q2: "still s s2" by (rule still_trans)
      have r2: "ram s2 = ram s" using q2 by (simp add: still_def quiet_def)
      obtain s3 where s3: "probe_legacy s2 = Some (Inr ((), s3))" "probed s2 (concat (map (open_com (ram s)) [0..<4])) s3"
        using wp_probe_coms [of 4 s2, OF _ still_off [OF q2 off]] r2 by (auto simp: wp_iff probe_legacy_def)
      have "wp ?pci (\<lambda>x s'. x = Halts \<and> probed s (amy_ports cs (ram s)) s') s3"
      proof (rule wp_print_off_then [OF _ probed_off [OF s3(2)]])
        fix s4 assume q4: "still s3 s4"
        have "config_space cs (port_in8 s4) (port_in32 s4)" using assms(1) q2 s3(2) q4 by (simp add: still_def quiet_def probed_def)
        from probe_pci_opens [OF this iter_ok_init still_off [OF q4 probed_off [OF s3(2)]]] obtain s5 where
          s5: "probe_pci s4 = Some (Inr ((), s5))" "probed s4 (concat (map (open_controller cs) (controllers False cs))) s5"
          unfolding probe_pci_def remaining_init controllers_def by blast
        have all: "probed s (amy_ports cs (ram s)) s5"
          unfolding amy_ports_def
          by (rule probed_after_still [OF q2 off probed_trans [OF s3(2) probed_after_still [OF q4 probed_off [OF s3(2)] s5(2)]]])
        have "wp ?k (\<lambda>x s'. x = Halts \<and> probed s (amy_ports cs (ram s)) s') s5"
          by (rule wp_print_off_then [OF _ probed_off [OF all]])
            (simp add: is_conv_def, use probed_trans [OF all probed_still [OF _ probed_off [OF all]]] in simp)
        then show "wp (andthen probe_pci (\<lambda>_. ?k)) (\<lambda>x s'. x = Halts \<and> probed s (amy_ports cs (ram s)) s') s4"
          unfolding wp_andthen [of probe_pci] wp_Inr [where m = probe_pci, OF s5(1)] .
      qed (simp add: is_conv_def)
      then show "wp (andthen probe_legacy (\<lambda>_. ?pci)) (\<lambda>x s'. x = Halts \<and> probed s (amy_ports cs (ram s)) s') s2"
        unfolding wp_andthen [of probe_legacy] wp_Inr [where m = probe_legacy, OF s3(1)] .
    qed (simp add: is_conv_def)
  qed (simp add: is_conv_def)
  then show ?thesis by (auto simp: wp_iff)
qed

text \<open>
  C35. Booted by a Multiboot1 loader with the serial line off, as it is at the start, the program halts: it never
  returns to the startup code. The bytes it has written to ports are these and no others: for every usable port of the BIOS data area in
  their order, then for the port of every serial controller of the bus in the order of the bus, the
  seven writes that open it and then the message that names it, all of it if the line is always ready and else down to where it was given up. Memory is
  as it was, the serial base is the last port opened, and the serial line is off.
\<close>

theorem amy_probes:
  assumes "config_space cs (port_in8 s) (port_in32 s)" and "\<not> output_enabled s"
  shows "\<exists>s' es. amy_main v MBI_MAGIC s = Some (Inr (Halts, s')) \<and> ram s' = ram s
    \<and> conversation (port_in8 s) (amy_ports cs (ram s)) es \<and> writes (io s') = writes (io s) @ es
    \<and> serial_base s' = last (serial_base s # map fst (amy_ports cs (ram s))) \<and> \<not> output_enabled s'"
  using amy_runs [OF assms, of v] by (auto simp: probed_def)

text \<open>A machine with two ports in the BIOS data area, one of them misaligned, and an empty bus; the line of the other one is always ready.\<close>

definition com_machine :: machine where
  "com_machine = (pci_machine (\<lambda>_. - 1))\<lparr>ram := (\<lambda>_. 0)(0x400 := 0xF9, 0x401 := 3, 0x402 := 0xF8, 0x403 := 2),
     port_in8 := \<lambda>h port. if port = 0x2FD then 0x20 else bridge8 (\<lambda>_. - 1) h port, output_enabled := False, io := []\<rparr>"

lemma com_machine_simps: "ram com_machine = (\<lambda>_. 0)(0x400 := 0xF9, 0x401 := 3, 0x402 := 0xF8, 0x403 := 2)"
  "port_in8 com_machine = (\<lambda>h port. if port = 0x2FD then 0x20 else bridge8 (\<lambda>_. - 1) h port)" "port_in32 com_machine = bridge32 (\<lambda>_. - 1)"
  "io com_machine = []" "\<not> output_enabled com_machine"
  by (simp_all add: com_machine_def)

lemma com_machine_ports: "amy_ports (\<lambda>_. - 1) (ram com_machine) = [(0x2F8, com_text 1 0x2F8)]"
proof -
  have "present (\<lambda>_. - 1) bd f = False" for bd f by (simp add: present_def)
  then have "functions_of (\<lambda>_. - 1) bd = []" for bd by (simp add: functions_of_def)
  then have "concat (map (\<lambda>bd. map (Pair bd) (functions_of (\<lambda>_. - 1) bd)) bds) = []" for bds by simp
  then have "controllers False (\<lambda>_. - 1) = []" unfolding controllers_def functions_from_def by (simp only: filter.simps)
  moreover have "[0..<4] = [0, 1, 2, 3 :: nat]" by (simp add: eval_nat_numeral)
  moreover have "com_port (ram com_machine) 0 = 0x3F9" "com_port (ram com_machine) 1 = 0x2F8"
    "com_port (ram com_machine) 2 = 0" "com_port (ram com_machine) 3 = 0"
    unfolding com_machine_simps(1) by code_simp+
  ultimately show ?thesis
    by (simp add: amy_ports_def open_com_def Let_def)
qed

lemma com_machine_text: "wire (com_text 1 0x2F8) = map of_char ''Probing COM2 at port 2f8...'' @ [0x0A, 0x0D]"
  by (simp add: com_text_def wire_def dec_digits.simps [of "Suc (Suc 0)"] hex_digits.simps [of 760] hex_digits.simps [of 47] hex_digits.simps [of 2]
      hex_def char_arg_def)

lemma com_machine_ready: "ready_line (port_in8 com_machine) 0x2F8"
  by (simp add: ready_line_def com_machine_simps(2))

lemma amy_probes_witness:
  "\<exists>s'. amy_main ''1.0'' MBI_MAGIC com_machine = Some (Inr (Halts, s')) \<and> serial_base s' = 0x2F8 \<and> \<not> output_enabled s'
    \<and> writes (io s') = open_writes 0x2F8 @ map (OutB 0x2F8) (map of_char ''Probing COM2 at port 2f8...'' @ [0x0A, 0x0D])"
proof -
  have "config_space (\<lambda>_. - 1) (port_in8 com_machine) (port_in32 com_machine)"
    unfolding com_machine_simps by (rule config_space_other [OF bridge.config_space_axioms]) simp_all
  from amy_probes [OF this com_machine_simps(5), of "''1.0''"] obtain s' es where
    s': "amy_main ''1.0'' MBI_MAGIC com_machine = Some (Inr (Halts, s'))" "serial_base s' = 0x2F8" "\<not> output_enabled s'"
      "writes (io s') = es" and c: "conversation (port_in8 com_machine) [(0x2F8, com_text 1 0x2F8)] es"
    unfolding com_machine_ports by (auto simp: com_machine_simps(4))
  from c have "es = open_writes 0x2F8 @ map (OutB 0x2F8) (wire (com_text 1 0x2F8))"
    using com_machine_ready by (auto elim!: conversation.cases)
  then show ?thesis using s' unfolding com_machine_text by blast
qed

end
