(* ===== verification/Mbi2_Example.thy ===== *)
theory Mbi2_Example imports Mbi2 Printf begin

text \<open>
  mbi2_example.c: a Multiboot2 kernel that lists the tags it is given, with the accessors of mbi2.h.
\<close>

unbundle bit_operations_syntax

text \<open>The header of the program, \<open>mbi2_header\<close>.\<close>

definition mbi2_header_image :: "u8 list" where
  "mbi2_header_image = le_bytes 4 MBI2_HEADER_MAGIC @ le_bytes 4 (0 :: u32) @ le_bytes 4 (16 :: u32)
     @ le_bytes 4 (- (MBI2_HEADER_MAGIC + 16))"

text \<open>The fields of a \<open>struct mbi2_memory_entry\<close>.\<close>

definition entry_addr :: "mem \<Rightarrow> u32 \<Rightarrow> u64" where "entry_addr m e = load64 m e"
definition entry_len :: "mem \<Rightarrow> u32 \<Rightarrow> u64" where "entry_len m e = load64 m (e + 8)"
definition entry_type :: "mem \<Rightarrow> u32 \<Rightarrow> u32" where "entry_type m e = load32 m (e + 16)"

text \<open>The inner loop, from the entry \<open>mem_entry\<close> on.\<close>

partial_function (option) print_entries :: "u32 \<Rightarrow> u32 \<Rightarrow> machine \<Rightarrow> (fault + unit \<times> machine) option" where
  "print_entries tag mem_entry s =
     (if mem_entry \<noteq> 0 then
        (case andthen (gets (\<lambda>s. [Va_word (entry_type (ram s) mem_entry), Va_quad (entry_addr (ram s) mem_entry),
                               Va_quad (entry_len (ram s) mem_entry)])) (\<lambda>ap.
              andthen (printf '' type=%02d addr=%llx len=%llx\<newline>'' ap) (\<lambda>_.
              mbi2_memory_map_next tag mem_entry)) s of
           None \<Rightarrow> None
         | Some r \<Rightarrow> (case r of
             Inl e \<Rightarrow> Some (Inl e)
           | Inr x \<Rightarrow> print_entries tag (fst x) (snd x)))
      else Some (Inr ((), s)))"

text \<open>The body of the loop over the tags, and the loop.\<close>

definition print_tag :: "u32 \<Rightarrow> (machine, unit) comp" where
  "print_tag tag =
     andthen (gets (\<lambda>s. tag_type (ram s) tag)) (\<lambda>ty.
     andthen (printf ''Tag %02d: '' [Va_word ty]) (\<lambda>_.
     if ty = MBI2_TAG_CMDLINE then printf ''boot cmdline='%s'\<newline>'' [Va_word (mbi2_tag_payload tag)]
     else if ty = MBI2_TAG_MEMORY then
       andthen (printf ''memory map\<newline>'' []) (\<lambda>_.
       andthen (mbi2_memory_map_first tag) (\<lambda>e. print_entries tag e))
     else if ty = MBI2_TAG_MODULE then printf ''module cmdline='%s'\<newline>'' [Va_word (mbi2_tag_payload tag + 8)]
     else printf ''unknown\<newline>'' [Va_word ty]))"

partial_function (option) print_tags :: "u32 \<Rightarrow> machine \<Rightarrow> (fault + unit \<times> machine) option" where
  "print_tags tag s =
     (if tag \<noteq> 0 then
        (case print_tag tag s of
           None \<Rightarrow> None
         | Some r \<Rightarrow> (case r of
             Inl e \<Rightarrow> Some (Inl e)
           | Inr x \<Rightarrow> print_tags (mbi2_tag_next (ram (snd x)) tag) (snd x)))
      else Some (Inr ((), s)))"

definition example_main :: "u32 \<Rightarrow> u32 \<Rightarrow> (machine, int) comp" where
  "example_main magic mbi =
     andthen (modifies serial_init) (\<lambda>_.
     if magic = MBI2_MAGIC then
       andthen (printf ''Loaded with Multiboot2 loader.\<newline>'' []) (\<lambda>_.
       andthen (print_tags (mbi2_tag_first mbi)) (\<lambda>_. ret 0))
     else if magic = MBI_MAGIC then
       andthen (printf ''Multiboot1 is not supported. Please boot via Multiboot2. Bye.\<newline>'' []) (\<lambda>_. ret 1)
     else
       andthen (printf ''Not loaded by Multiboot-compliant loader. Bye.\<newline>'' []) (\<lambda>_. ret 1))"

declare print_entries.simps [code] print_tags.simps [code]

end
