(* ===== verification/Mbi2_Example_Proof.thy ===== *)
theory Mbi2_Example_Proof imports Mbi2_Example Bender_Proof begin

text \<open>
  mbi2_example.c: for every information that reads as a list of tags the program ends, and what it puts
  out is the text of the tags, one after the other.
\<close>

unbundle bit_operations_syntax

section \<open>The listing\<close>

text \<open>The tags the program knows, and the rest.\<close>

datatype boot_tag =
    Cmdline "u8 list"
  | Memory "(u64 \<times> u64 \<times> u32) list"
  | Module u32 u32 "u8 list"
  | Other u32 "u8 list"

definition block_of :: "u64 \<times> u64 \<times> u32 \<Rightarrow> u8 list" where
  "block_of e = entry_image (fst e) (fst (snd e)) (snd (snd e))"

primrec tag_of :: "boot_tag \<Rightarrow> tag" where
  "tag_of (Cmdline str) = (MBI2_TAG_CMDLINE, str @ [0])"
| "tag_of (Memory es) = (MBI2_TAG_MEMORY, blocks_payload (map block_of es))"
| "tag_of (Module start fin str) = (MBI2_TAG_MODULE, mod_image start fin @ str @ [0])"
| "tag_of (Other ty bs) = (ty, bs)"

text \<open>What the builder makes: strings end with their only zero byte, and a memory map is not empty.\<close>

primrec well_made :: "boot_tag \<Rightarrow> bool" where
  "well_made (Cmdline str) \<longleftrightarrow> 0 \<notin> set str"
| "well_made (Memory es) \<longleftrightarrow> es \<noteq> []"
| "well_made (Module start fin str) \<longleftrightarrow> 0 \<notin> set str"
| "well_made (Other ty bs) \<longleftrightarrow> ty \<notin> {MBI2_TAG_CMDLINE, MBI2_TAG_MEMORY, MBI2_TAG_MODULE}"

definition two_digits :: "u32 \<Rightarrow> u32 list" where
  "two_digits w = map char_arg (zero_padded 2 (dec_digits (unat w)))"

definition hexadecimal :: "u64 \<Rightarrow> u32 list" where
  "hexadecimal q = map char_arg (hex_digits (unat q))"

definition entry_line :: "u64 \<times> u64 \<times> u32 \<Rightarrow> u32 list" where
  "entry_line e = msg '' type='' @ two_digits (snd (snd e)) @ msg '' addr='' @ hexadecimal (fst e)
     @ msg '' len='' @ hexadecimal (fst (snd e)) @ msg ''\<newline>''"

primrec tag_line :: "boot_tag \<Rightarrow> u32 list" where
  "tag_line (Cmdline str) = msg ''boot cmdline='' @ msg [CHR 0x27] @ map char_arg str @ msg [CHR 0x27] @ msg ''\<newline>''"
| "tag_line (Memory es) = msg ''memory map\<newline>'' @ concat (map entry_line es)"
| "tag_line (Module start fin str) = msg ''module cmdline='' @ msg [CHR 0x27] @ map char_arg str @ msg [CHR 0x27] @ msg ''\<newline>''"
| "tag_line (Other ty bs) = msg ''unknown\<newline>''"

definition listing :: "boot_tag list \<Rightarrow> u32 list" where
  "listing ts = concat (map (\<lambda>t. msg ''Tag '' @ two_digits (fst (tag_of t)) @ msg '': '' @ tag_line t) ts)"

section \<open>The messages\<close>

lemma puts_out_printf:
  "strings_in str (ram s) \<Longrightarrow> expand str (directives fmt) ap = Some t \<Longrightarrow> puts_out (printf fmt ap) t () s"
  unfolding puts_out_def by (rule printf_text)

lemma entry_message:
  "expand str (directives '' type=%02d addr=%llx len=%llx\<newline>'') [Va_word ty, Va_quad addr, Va_quad len] = Some (entry_line (addr, len, ty))"
  by (simp add: is_conv_def va_uint_def entry_line_def two_digits_def hexadecimal_def zero_padded_def unat_wide)

lemma tag_message: "expand str (directives ''Tag %02d: '') [Va_word ty] = Some (msg ''Tag '' @ two_digits ty @ msg '': '')"
  by (simp add: is_conv_def va_uint_def two_digits_def unat_wide)

lemma string_messages:
  assumes "str p = Some cs"
  shows "expand str (directives ''boot cmdline='%s'\<newline>'') [Va_word p] = Some (tag_line (Cmdline cs))"
    and "expand str (directives ''module cmdline='%s'\<newline>'') [Va_word p] = Some (tag_line (Module a b cs))"
  using assms by (simp_all add: is_conv_def)

lemma plain_messages:
  "expand str (directives ''memory map\<newline>'') [] = Some (msg ''memory map\<newline>'')"
  "expand str (directives ''unknown\<newline>'') ap = Some (msg ''unknown\<newline>'')"
  by (simp_all add: is_conv_def)

section \<open>The entries of a memory map\<close>

lemma puts_out_gets: "puts_out (k (f s)) t x s \<Longrightarrow> puts_out (andthen (gets f) k) t x s"
  by (simp add: puts_out_def)

lemma puts_out_value: "f (fold out_char t s) = Some (Inr (x, fold out_char t s)) \<Longrightarrow> puts_out (printf fmt ap) t () s
    \<Longrightarrow> puts_out (andthen (printf fmt ap) (\<lambda>_. f)) t x s"
  by (simp add: puts_out_def andthen_Inr)

lemma block_fields:
  assumes "read_bytes m q 24 = block_of e"
  shows "entry_addr m q = fst e" "entry_len m q = fst (snd e)" "entry_type m q = snd (snd e)"
proof -
  have "read_bytes m q (8 + (8 + (4 + 4))) = le_bytes 8 (fst e) @ le_bytes 8 (fst (snd e)) @ le_bytes 4 (snd (snd e)) @ le_bytes 4 (0::u32)"
    using assms by (simp add: block_of_def entry_image_def)
  then have "read_bytes m q 8 = le_bytes 8 (fst e)" "read_bytes m (q + 8) 8 = le_bytes 8 (fst (snd e))"
    "read_bytes m (q + 8 + 8) 4 = le_bytes 4 (snd (snd e))"
    unfolding read_bytes_append by (simp_all add: append_eq_append_conv)
  then show "entry_addr m q = fst e" "entry_len m q = fst (snd e)" "entry_type m q = snd (snd e)"
    by (simp_all add: entry_addr_def entry_len_def entry_type_def load64_def load32_def add.assoc)
qed

lemma print_entries_step:
  "e \<noteq> 0 \<Longrightarrow> puts_out (andthen (gets (\<lambda>s. [Va_word (entry_type (ram s) e), Va_quad (entry_addr (ram s) e), Va_quad (entry_len (ram s) e)])) (\<lambda>ap.
      andthen (printf '' type=%02d addr=%llx len=%llx\<newline>'' ap) (\<lambda>_. mbi2_memory_map_next tag e))) t nxt s
    \<Longrightarrow> print_entries tag e s = print_entries tag nxt (fold out_char t s)"
  by (subst print_entries.simps) (simp add: puts_out_def)

lemma print_entries_lines:
  assumes "tag_type (ram s) p = MBI2_TAG_MEMORY" and "unat (tag_size (ram s) p) = 16 + 24 * length es"
    and "read_bytes (ram s) (p + 8) (8 + 24 * length es) = blocks_payload (map block_of es)"
    and "unat p + 16 + 24 * length es < 2 ^ 32" and "i < length es"
  shows "print_entries p (p + 16 + 24 * of_nat i) s = Some (Inr ((), fold out_char (concat (map entry_line (drop i es))) s))"
  using assms
proof (induction "length es - i" arbitrary: i s)
  case (Suc n)
  let ?q = "p + 16 + 24 * of_nat i" and ?t = "entry_line (es ! i)"
  let ?s = "fold out_char ?t s"
  have len: "\<forall>b\<in>set (map block_of es). length b = 24" by (simp add: block_of_def entry_image_def)
  have walk: "mbi2_memory_map_next p ?q s' = Some (Inr (if Suc i = length es then 0 else p + 16 + 24 * of_nat (Suc i), s'))"
    "read_bytes (ram s') ?q 24 = block_of (es ! i)" if "ram s' = ram s" for s'
    using memory_tag_walk(2,3) [of s' p "map block_of es" i] len Suc.prems that by simp_all
  have q: "?q \<noteq> 0"
  proof
    assume "?q = 0"
    moreover have "unat ?q = unat p + (16 + 24 * i)"
      using unat_add_of_nat [of p "16 + 24 * i"] Suc.prems(4,5) by (simp add: add.assoc)
    ultimately show False by simp
  qed
  have "puts_out (printf '' type=%02d addr=%llx len=%llx\<newline>'' [Va_word (entry_type (ram s) ?q), Va_quad (entry_addr (ram s) ?q),
      Va_quad (entry_len (ram s) ?q)]) ?t () s"
    using puts_out_printf [OF no_strings entry_message [of _ "snd (snd (es ! i))" "fst (es ! i)" "fst (snd (es ! i))"]]
      block_fields [OF walk(2) [OF refl]] by simp
  then have step: "print_entries p ?q s = print_entries p (if Suc i = length es then 0 else p + 16 + 24 * of_nat (Suc i)) ?s"
    by (intro print_entries_step [OF q] puts_out_gets puts_out_value walk(1)) simp_all
  have drop: "drop i es = es ! i # drop (Suc i) es" using Suc.prems(5) by (simp add: Cons_nth_drop_Suc)
  show ?case
  proof (cases "Suc i = length es")
    case True
    then show ?thesis unfolding step drop by (subst print_entries.simps) simp
  next
    case False
    have "print_entries p (p + 16 + 24 * of_nat (Suc i)) ?s = Some (Inr ((), fold out_char (concat (map entry_line (drop (Suc i) es))) ?s))"
      by (rule Suc.hyps(1)) (use Suc.hyps(2) Suc.prems False in simp_all)
    then show ?thesis unfolding step drop using False by simp
  qed
qed simp

section \<open>The tags\<close>

lemma puts_out_string:
  assumes "cstr (ram s) p cs" and "expand ((\<lambda>_. None)(p := Some cs)) (directives fmt) [Va_word p] = Some t"
  shows "puts_out (printf fmt [Va_word p]) t () s"
  by (rule puts_out_printf [OF _ assms(2)]) (use assms(1) in \<open>simp add: strings_in_def\<close>)

lemma string_read: "read_bytes m p (Suc (length cs)) = cs @ [0] \<Longrightarrow> 0 \<notin> set cs \<Longrightarrow> cstr m p cs"
  by (simp only: cstr_iff_read simp_thms)

text \<open>The line of a tag, from its kind on.\<close>

definition print_kind :: "u32 \<Rightarrow> u32 \<Rightarrow> (machine, unit) comp" where
  "print_kind tag ty =
    (if ty = MBI2_TAG_CMDLINE then printf ''boot cmdline='%s'\<newline>'' [Va_word (mbi2_tag_payload tag)]
     else if ty = MBI2_TAG_MEMORY then
       andthen (printf ''memory map\<newline>'' []) (\<lambda>_.
       andthen (mbi2_memory_map_first tag) (\<lambda>e. print_entries tag e))
     else if ty = MBI2_TAG_MODULE then printf ''module cmdline='%s'\<newline>'' [Va_word (mbi2_tag_payload tag + 8)]
     else printf ''unknown\<newline>'' [Va_word ty])"

lemma print_kind_simps:
  "print_kind p MBI2_TAG_CMDLINE = printf ''boot cmdline='%s'\<newline>'' [Va_word (mbi2_tag_payload p)]"
  "print_kind p MBI2_TAG_MEMORY = andthen (printf ''memory map\<newline>'' []) (\<lambda>_. andthen (mbi2_memory_map_first p) (\<lambda>e. print_entries p e))"
  "print_kind p MBI2_TAG_MODULE = printf ''module cmdline='%s'\<newline>'' [Va_word (mbi2_tag_payload p + 8)]"
  "ty \<notin> {MBI2_TAG_CMDLINE, MBI2_TAG_MEMORY, MBI2_TAG_MODULE} \<Longrightarrow> print_kind p ty = printf ''unknown\<newline>'' [Va_word ty]"
  by (simp_all add: print_kind_def MBI2_TAG_CMDLINE_def MBI2_TAG_MEMORY_def MBI2_TAG_MODULE_def)

lemma print_kind_line:
  assumes "tag_type (ram s) p = fst (tag_of t)" and "unat (tag_size (ram s) p) = 8 + length (snd (tag_of t))"
    and "read_bytes (ram s) (mbi2_tag_payload p) (length (snd (tag_of t))) = snd (tag_of t)"
    and "unat p + (8 + length (snd (tag_of t))) < 2 ^ 32" and "well_made t"
  shows "puts_out (print_kind p (fst (tag_of t))) (tag_line t) () s"
proof (cases t)
  case (Cmdline str)
  then have "cstr (ram s) (mbi2_tag_payload p) str" using assms(3,5) by (intro string_read) simp_all
  then show ?thesis
    unfolding Cmdline tag_of.simps fst_conv print_kind_simps by (rule puts_out_string) (rule string_messages, simp)
next
  case (Memory es)
  have len: "\<forall>b\<in>set (map block_of es). length b = 24" by (simp add: block_of_def entry_image_def)
  note n = length_blocks_payload [OF len]
  define s1 where "s1 = fold out_char (msg ''memory map\<newline>'') s"
  have h: "tag_type (ram s1) p = MBI2_TAG_MEMORY" "unat (tag_size (ram s1) p) = 16 + 24 * length es"
    "read_bytes (ram s1) (p + 8) (8 + 24 * length es) = blocks_payload (map block_of es)" "unat p + 16 + 24 * length es < 2 ^ 32"
    "0 < length es"
    using assms n by (simp_all add: s1_def Memory mbi2_tag_payload_def)
  have "mbi2_memory_map_first p s1 = Some (Inr (p + 16, s1))"
    using memory_tag_walk(1) [of s1 p "map block_of es" 0] h len by simp
  moreover have "print_entries p (p + 16) s1 = Some (Inr ((), fold out_char (concat (map entry_line es)) s1))"
    using print_entries_lines [OF h] by simp
  ultimately have "puts_out (andthen (mbi2_memory_map_first p) (\<lambda>e. print_entries p e)) (concat (map entry_line es)) () s1"
    by (simp add: puts_out_def andthen_Inr)
  moreover have "puts_out (printf ''memory map\<newline>'' []) (msg ''memory map\<newline>'') () s"
    by (rule puts_out_printf [OF no_strings plain_messages(1)])
  ultimately show ?thesis
    unfolding Memory tag_of.simps fst_conv print_kind_simps tag_line.simps s1_def by (intro puts_out_andthen)
next
  case (Module start fin str)
  have "read_bytes (ram s) (mbi2_tag_payload p) (8 + Suc (length str)) = mod_image start fin @ str @ [0]"
    using assms(3) by (simp add: Module)
  then have "read_bytes (ram s) (mbi2_tag_payload p + 8) (Suc (length str)) = str @ [0]"
    unfolding read_bytes_append by (simp add: append_eq_append_conv)
  then have "cstr (ram s) (mbi2_tag_payload p + 8) str" using assms(5) by (intro string_read) (simp_all add: Module)
  then show ?thesis
    unfolding Module tag_of.simps fst_conv print_kind_simps by (rule puts_out_string) (rule string_messages, simp)
next
  case (Other ty bs)
  then show ?thesis
    using assms(5) puts_out_printf [OF no_strings plain_messages(2)] by (simp add: print_kind_simps)
qed

lemma print_tags_listing:
  "reads_tags (ram s) p (map tag_of ts) \<Longrightarrow> \<forall>t\<in>set ts. well_made t
    \<Longrightarrow> print_tags p s = Some (Inr ((), fold out_char (listing ts) s))"
proof (induction ts arbitrary: p s)
  case Nil
  then show ?case by (subst print_tags.simps) (simp add: listing_def)
next
  case (Cons t ts)
  let ?head = "msg ''Tag '' @ two_digits (fst (tag_of t)) @ msg '': ''"
  have r: "p \<noteq> 0" "unat p + (8 + length (snd (tag_of t))) < 2 ^ 32" "tag_type (ram s) p = fst (tag_of t)"
    "unat (tag_size (ram s) p) = 8 + length (snd (tag_of t))"
    "read_bytes (ram s) (mbi2_tag_payload p) (length (snd (tag_of t))) = snd (tag_of t)"
    "reads_tags (ram s) (mbi2_tag_next (ram s) p) (map tag_of ts)" "well_made t"
    using Cons.prems by simp_all
  have "puts_out (print_kind p (fst (tag_of t))) (tag_line t) () (fold out_char ?head s)"
    by (rule print_kind_line) (use r in simp_all)
  then have "puts_out (andthen (printf ''Tag %02d: '' [Va_word (fst (tag_of t))]) (\<lambda>_. print_kind p (fst (tag_of t)))) (?head @ tag_line t) () s"
    by (rule puts_out_andthen [OF puts_out_printf [OF no_strings tag_message]])
  then have one: "print_tag p s = Some (Inr ((), fold out_char (?head @ tag_line t) s))"
    unfolding print_tag_def print_kind_def [symmetric] by (simp add: r(3) puts_out_def)
  have "print_tags p s = print_tags (mbi2_tag_next (ram s) p) (fold out_char (?head @ tag_line t) s)"
    using r(1) one by (subst print_tags.simps) simp
  also have "\<dots> = Some (Inr ((), fold out_char (listing ts) (fold out_char (?head @ tag_line t) s)))"
    by (rule Cons.IH) (use r(6) Cons.prems(2) in simp_all)
  finally show ?case by (simp add: listing_def)
qed

section \<open>The program\<close>

lemma example_run:
  assumes "reads_tags (ram s) (mbi2_tag_first mbi) (map tag_of ts)" and "\<forall>t\<in>set ts. well_made t"
  shows "example_main MBI2_MAGIC mbi s
    = Some (Inr (0, fold out_char (msg ''Loaded with Multiboot2 loader.\<newline>'' @ listing ts) (serial_init s)))"
proof -
  let ?hello = "msg ''Loaded with Multiboot2 loader.\<newline>''"
  have "expand (\<lambda>_. None) (directives ''Loaded with Multiboot2 loader.\<newline>'') [] = Some ?hello" by (simp add: is_conv_def)
  from printf_text [OF no_strings this] have hello: "printf ''Loaded with Multiboot2 loader.\<newline>'' [] (serial_init s)
      = Some (Inr ((), fold out_char ?hello (serial_init s)))" .
  have "print_tags (mbi2_tag_first mbi) (fold out_char ?hello (serial_init s))
      = Some (Inr ((), fold out_char (listing ts) (fold out_char ?hello (serial_init s))))"
    by (rule print_tags_listing) (use assms serial_init_result(1) in simp_all)
  then show ?thesis
    unfolding example_main_def if_P [OF refl] using hello by (simp add: andthen_Inr ret_def del: msg_simps)
qed

text \<open>The tags that bender makes of a Multiboot1 information.\<close>

definition boot_list :: "mem \<Rightarrow> u32 \<Rightarrow> u8 list \<Rightarrow> u32 list \<Rightarrow> u8 list list \<Rightarrow> u32 \<Rightarrow> boot_tag list" where
  "boot_list m mbi cmdl ps names rsdp =
     (if mbi_flags m mbi AND MBI_FLAG_CMDLINE \<noteq> 0 then [Cmdline cmdl] else [])
     @ (if mbi_flags m mbi AND MBI_FLAG_MEM \<noteq> 0
        then [Memory (map (\<lambda>p. (mbi_memory_base_addr m p, mbi_memory_length m p, mmap_type m p)) ps)] else [])
     @ (if mbi_flags m mbi AND MBI_FLAG_MODS \<noteq> 0
        then map (\<lambda>i. let md = module_ptr (mbi_mods_addr m mbi) i in Module (mod_start m md) (mod_end m md) (names ! i))
               [0..<unat (mbi_mods_count m mbi)] else [])
     @ (if rsdp \<noteq> 0 then [Other (fst (rsdp_tag m rsdp)) (snd (rsdp_tag m rsdp))] else [])"

lemma boot_list_tags: "map tag_of (boot_list m mbi cmdl ps names rsdp) = boot_tags m mbi cmdl ps names rsdp"
proof -
  have "block_of (mbi_memory_base_addr m p, mbi_memory_length m p, mmap_type m p) = mmap_entry_image m p" for p
    by (simp add: block_of_def mmap_entry_image_def)
  then show ?thesis
    by (simp add: boot_list_def boot_tags_def cmdline_tags_def memory_tags_def module_tags_def rsdp_tags_def module_tag_def
        mmap_payload_entries blocks_payload_def comp_def Let_def)
qed

lemma boot_list_well_made:
  assumes "convertible bld m mbi cmdl ps names rsdp" and "mbi_flags m mbi AND MBI_FLAG_MEM = 0 \<or> ps \<noteq> []"
  shows "\<forall>t\<in>set (boot_list m mbi cmdl ps names rsdp). well_made t"
proof -
  have str: "0 \<notin> set cs" if "named_at bld m p cs" for p cs
    using that by (simp add: named_at_def cstr_iff_read)
  have "fst (rsdp_tag m rsdp) \<notin> {MBI2_TAG_CMDLINE, MBI2_TAG_MEMORY, MBI2_TAG_MODULE}"
    by (simp add: rsdp_tag_def MBI2_TAG_CMDLINE_def MBI2_TAG_MEMORY_def MBI2_TAG_MODULE_def MBI2_TAG_RSDP_V1_def MBI2_TAG_RSDP_V2_def)
  then show ?thesis
    using assms str unfolding boot_list_def convertible_def by (auto simp: Let_def)
qed

section \<open>Properties\<close>

text \<open>
  C37. The example kernel, started by a Multiboot2 loader with an information whose tags are well made, ends
  with status 0 and puts out exactly the listing of the tags, in their order: the command line, the entries of
  the memory map, the command lines of the modules, and the other tags as unknown.
\<close>

theorem example_lists_tags:
  assumes "reads_tags (ram s) (mbi2_tag_first mbi) (map tag_of ts)" and "\<forall>t\<in>set ts. well_made t"
  shows "example_main MBI2_MAGIC mbi s
    = Some (Inr (0, fold out_char (msg ''Loaded with Multiboot2 loader.\<newline>'' @ listing ts) (serial_init s)))"
  by (rule example_run [OF assms])

definition greeting :: machine where
  "greeting = still_machine\<lparr>ram := write_bytes (\<lambda>_. 0) 0x2008 (tag_bytes (tag_of (Cmdline [0x68, 0x69])))\<rparr>"

lemma example_lists_tags_witness:
  "example_main MBI2_MAGIC 0x2000 greeting = Some (Inr (0, fold out_char (msg ''Loaded with Multiboot2 loader.\<newline>''
      @ listing [Cmdline [0x68, 0x69]]) (serial_init greeting)))"
proof -
  let ?t = "tag_of (Cmdline [0x68, 0x69])"
  let ?m = "write_bytes (\<lambda>_. 0) 0x2008 (tag_bytes ?t)"
  have rd: "read_bytes ?m 0x2008 (8 + length (snd ?t)) = tag_bytes ?t"
    by (simp add: read_write_same del: write_bytes.simps read_bytes.simps)
  note h = tag_header [OF rd]
  have out: "?m a = 0" if "0x2013 \<le> unat a" for a
  proof -
    have "fits 0x2008 11" by (simp add: fits_def)
    from in_region_nat [OF this, of a] that show ?thesis by (subst write_bytes_outside) simp_all
  qed
  have "load32 ?m 0x2018 = 0"
    unfolding load32_bytes using out [of "0x2018"] out [of "0x2019"] out [of "0x201a"] out [of "0x201b"] by (simp del: write_bytes.simps)
  then have "mbi2_tag_next ?m 0x2008 = 0"
    using tag_next_at [where m = ?m and b = "0x2008" and n = 11] h(2) by (simp add: up8_def tag_type_def del: write_bytes.simps)
  then have "reads_tags ?m (mbi2_tag_first 0x2000) (map tag_of [Cmdline [0x68, 0x69]])"
    using h by (simp add: mbi2_tag_first_def MBI2_TAG_CMDLINE_def del: write_bytes.simps read_bytes.simps)
  then show ?thesis by (intro example_lists_tags) (simp_all add: greeting_def)
qed

text \<open>
  C36. Bender and a Multiboot2 kernel together: where the new information fits, the example kernel, given
  what the conversion has made, lists the command line, the memory map and the modules of the Multiboot1
  information that the boot loader had handed to bender.
\<close>

theorem example_lists_converted:
  assumes "unat start mod 8 = 0" and "unat start + unat len < 2 ^ 32"
    and "convertible (builder_at start len) (ram s) mbi cmdl ps names rsdp"
    and "boot_tags (ram s) mbi cmdl ps names rsdp = ts" and "ts \<noteq> []"
    and "mbi_flags (ram s) mbi AND MBI_FLAG_MEM = 0 \<or> ps \<noteq> []"
    and "room_for (unat start + 8) (unat start + unat len) ts" and "tags_end (unat start + 8) ts + 16 \<le> unat start + unat len"
  shows "\<exists>s'. convert_mb1_to_mbi2 mbi (ucast start) len s = Some (Inr (start, s'))
    \<and> example_main MBI2_MAGIC start s' = Some (Inr (0, fold out_char
        (msg ''Loaded with Multiboot2 loader.\<newline>'' @ listing (boot_list (ram s) mbi cmdl ps names rsdp)) (serial_init s')))"
proof -
  have "room_for (unat start + 8) (unat start + unat len) ts \<and> tags_end (unat start + 8) ts + 16 \<le> unat start + unat len"
    using assms(7,8) by simp
  from convert_result [OF assms(1-5), unfolded if_P [OF this]] obtain s' where
    s': "convert_mb1_to_mbi2 mbi (ucast start) len s = Some (Inr (start, s'))" "holds_tags (ram s') start (unat len) ts"
    by blast
  have "reads_tags (ram s') (mbi2_tag_first start) (map tag_of (boot_list (ram s) mbi cmdl ps names rsdp))"
    using holds_tags_reads [OF s'(2)] unfolding boot_list_tags assms(4) .
  from example_run [OF this boot_list_well_made [OF assms(3,6)]] s'(1) show ?thesis by blast
qed

lemma example_lists_converted_witness:
  "\<exists>s'. convert_mb1_to_mbi2 0x1000 0x2000 0x1000 cmdline_only = Some (Inr (0x2000, s'))
    \<and> example_main MBI2_MAGIC 0x2000 s' = Some (Inr (0, fold out_char
        (msg ''Loaded with Multiboot2 loader.\<newline>'' @ listing [Cmdline []]) (serial_init s')))"
proof -
  have m: "ram cmdline_only = (\<lambda>_. 0)(0x1000 := 4)" by (simp add: cmdline_only_def)
  have f: "mbi_flags (ram cmdline_only) 0x1000 = 4" unfolding m by (simp add: mbi_flags_def load32_bytes)
  have "boot_list (ram cmdline_only) 0x1000 [] [] [] 0 = [Cmdline []]"
    by (simp add: boot_list_def f MBI_FLAG_CMDLINE_def MBI_FLAG_MEM_def MBI_FLAG_MODS_def)
  moreover have "mbi_flags (ram cmdline_only) 0x1000 AND MBI_FLAG_MEM = 0" by (simp add: f MBI_FLAG_MEM_def)
  ultimately show ?thesis
    using example_lists_converted [OF _ _ cmdline_only_converts] by (simp add: up8_def)
qed

end
