(* ===== verification/Basicperf.thy ===== *)
theory Basicperf imports Printf Mbi begin

text \<open>
  basicperf.c: the program that measures how long a few instructions take. The \<open>n\<close>-th reading of the
  time stamp counter is \<open>clock n\<close>; what has been read so far is counted along. The
  floating-point unit is a parameter: from the sum and the array of the measurements it gives the mean and the
  standard deviation as \<open>uint32_t\<close> and whether the latter exceeds \<open>max_stddev\<close>.
\<close>

unbundle bit_operations_syntax

record float_unit =
  mean_of :: "u64 \<Rightarrow> u32"
  stddev_of :: "u64 \<Rightarrow> u32 list \<Rightarrow> u32"
  exceeds :: "u64 \<Rightarrow> u32 list \<Rightarrow> bool"

section \<open>The tests\<close>

text \<open>
  The instructions measured. \<open>cpuid\<close>, \<open>rdmsr\<close> and the read of the APIC register leave the machine as
  it is; the port is read like any other.
\<close>

datatype perf_test = T_empty | T_cpuid | T_portio | T_mmio | T_rdmsr

primrec test_fn :: "perf_test \<Rightarrow> machine \<Rightarrow> machine" where
  "test_fn T_empty s = s"
| "test_fn T_cpuid s = s"
| "test_fn T_portio s = snd (inb 0x60 s)"
| "test_fn T_mmio s = s"
| "test_fn T_rdmsr s = s"

primrec test_name :: "perf_test \<Rightarrow> string" where
  "test_name T_empty = ''empty ''"
| "test_name T_cpuid = ''cpuid ''"
| "test_name T_portio = ''portio''"
| "test_name T_mmio = ''mmio  ''"
| "test_name T_rdmsr = ''rdmsr ''"

definition perf_tests :: "perf_test list" where
  "perf_tests = [T_empty, T_cpuid, T_portio, T_mmio, T_rdmsr]"

definition tries :: nat where "tries = 2048"

section \<open>The measurement\<close>

text \<open>The loop over \<open>j\<close>, with \<open>k\<close> rounds left, on the array \<open>results\<close>; and the two rounds of it.\<close>

primrec measure_loop :: "(nat \<Rightarrow> u64) \<Rightarrow> perf_test \<Rightarrow> nat \<Rightarrow> nat \<Rightarrow> u32 list \<Rightarrow> machine \<Rightarrow> (nat \<times> u32 list) \<times> machine" where
  "measure_loop clock t 0 n results s = ((n, results), s)"
| "measure_loop clock t (Suc k) n results s =
     (let start = clock n;
          s = test_fn t s;
          fin = clock (n + 1);
          dur = ucast (fin - start)
      in measure_loop clock t k (n + 2) (results[tries - Suc k := dur]) s)"

definition measure_twice :: "(nat \<Rightarrow> u64) \<Rightarrow> perf_test \<Rightarrow> nat \<Rightarrow> u32 list \<Rightarrow> machine \<Rightarrow> (nat \<times> u32 list) \<times> machine" where
  "measure_twice clock t n results s =
     (let ((n, results), s) = measure_loop clock t tries n results s
      in measure_loop clock t tries n results s)"

text \<open>\<open>MIN\<close> and \<open>MAX\<close> of util.h, and the loop that sums up.\<close>

definition MIN_of :: "u32 \<Rightarrow> u32 \<Rightarrow> u32" where "MIN_of a b = (if a > b then b else a)"
definition MAX_of :: "u32 \<Rightarrow> u32 \<Rightarrow> u32" where "MAX_of a b = (if a > b then a else b)"

primrec summary_loop :: "u32 list \<Rightarrow> u64 \<Rightarrow> u32 \<Rightarrow> u32 \<Rightarrow> u64 \<times> u32 \<times> u32" where
  "summary_loop [] tot mn mx = (tot, mn, mx)"
| "summary_loop (r # rs) tot mn mx = summary_loop rs (tot + ucast r) (MIN_of mn r) (MAX_of mx r)"

definition summary :: "u32 list \<Rightarrow> u64 \<times> u32 \<times> u32" where
  "summary results = summary_loop results 0 (NOT 0) 0"

text \<open>From the label \<open>again\<close> on: one test, with the retries so far.\<close>

partial_function (option) again ::
    "float_unit \<Rightarrow> (nat \<Rightarrow> u64) \<Rightarrow> perf_test \<Rightarrow> u32 \<Rightarrow> nat \<Rightarrow> u32 list \<Rightarrow> machine \<Rightarrow> (fault + (nat \<times> u32 list) \<times> machine) option" where
  "again fpu clock t retries n results s =
     (let ((n, results), s) = measure_twice clock t n results s;
          (tot, mn, mx) = summary results
      in if retries < 5 \<and> exceeds fpu tot results
         then (case printf ''Retry test %s because of instability: stddev %u\<newline>''
                     [Va_lit (test_name t), Va_word (stddev_of fpu tot results)] s of
                 None \<Rightarrow> None
               | Some r \<Rightarrow> (case r of
                   Inl e \<Rightarrow> Some (Inl e)
                 | Inr x \<Rightarrow> again fpu clock t (retries + 1) n results (snd x)))
         else andthen (printf ''! PERF: %s %u cycles (retries=%u stddev=%u min=%u max=%u) ok\<newline>''
                [Va_lit (test_name t), Va_word (mean_of fpu tot), Va_word (retries + 1),
                 Va_word (stddev_of fpu tot results), Va_word mn, Va_word mx]) (\<lambda>_. ret (n, results)) s)"

primrec each_test ::
    "float_unit \<Rightarrow> (nat \<Rightarrow> u64) \<Rightarrow> perf_test list \<Rightarrow> nat \<Rightarrow> u32 list \<Rightarrow> (machine, unit) comp" where
  "each_test fpu clock [] n results = ret ()"
| "each_test fpu clock (t # ts) n results =
     andthen (again fpu clock t 0 n results) (\<lambda>(n, results). each_test fpu clock ts n results)"

text \<open>\<open>version_str\<close> and \<open>__FILE__\<close> are strings of the build.\<close>

definition perf_main :: "float_unit \<Rightarrow> (nat \<Rightarrow> u64) \<Rightarrow> string \<Rightarrow> string \<Rightarrow> u32 \<Rightarrow> (machine, int) comp" where
  "perf_main fpu clock version_str file magic =
     andthen (modifies serial_init) (\<lambda>_.
     if magic \<noteq> MBI_MAGIC then andthen (printf ''Not loaded by Multiboot-compliant loader. Bye.\<newline>'' []) (\<lambda>_. ret 1)
     else
       andthen (printf ''\<newline>basicperf %s'' [Va_lit version_str]) (\<lambda>_.
       andthen (printf ''Testing \"Basic VM performance\" in %s:\<newline>'' [Va_lit file]) (\<lambda>_.
       andthen (each_test fpu clock perf_tests 0 (replicate tries 0)) (\<lambda>_.
       andthen (printf ''wvtest: done\<newline>'' []) (\<lambda>_. ret 0)))))"

declare again.simps [code]

end
