(* ===== verification/Basicperf_Proof.thy ===== *)
theory Basicperf_Proof imports Basicperf Bender_Proof begin

text \<open>
  basicperf.c: what one test measures and reports, and that the program ends, whatever the time stamp
  counter and the floating-point unit say.
\<close>

unbundle bit_operations_syntax

section \<open>One measurement\<close>

definition duration :: "(nat \<Rightarrow> u64) \<Rightarrow> nat \<Rightarrow> u32" where
  "duration clock n = ucast (clock (n + 1) - clock n)"

definition durations :: "(nat \<Rightarrow> u64) \<Rightarrow> nat \<Rightarrow> u32 list" where
  "durations clock n = map (\<lambda>j. duration clock (n + 2 * j)) [0..<tries]"

lemma measure_loop_Suc:
  "measure_loop clock t (Suc k) n results s
    = measure_loop clock t k (n + 2) (results[tries - Suc k := duration clock n]) (test_fn t s)"
  by (simp add: duration_def Let_def)

lemma measure_loop_durations:
  "k \<le> tries \<Longrightarrow> length results = tries \<Longrightarrow> measure_loop clock t k n results s
    = ((n + 2 * k, take (tries - k) results @ map (\<lambda>j. duration clock (n + 2 * j)) [0..<k]), (test_fn t ^^ k) s)"
proof (induction k arbitrary: n results s)
  case (Suc k)
  let ?i = "tries - Suc k" and ?d = "duration clock n"
  have i: "Suc ?i = tries - k" "?i < length results" using Suc.prems by simp_all
  have "take (tries - k) (results[?i := ?d]) = take ?i results @ [?d]"
    using i(2) unfolding i(1) [symmetric] by (simp add: take_Suc_conv_app_nth take_update_cancel)
  moreover have "[0..<Suc k] = 0 # map Suc [0..<k]" by (simp add: upt_conv_Cons map_Suc_upt del: upt_Suc)
  ultimately show ?case
    using Suc.IH [of "results[?i := ?d]" "n + 2" "test_fn t s"] Suc.prems
    unfolding measure_loop_Suc by (simp add: funpow_swap1 comp_def del: upt_Suc)
qed simp

lemma quiet_test: "quiet s ((test_fn t ^^ k) s)"
proof (induction k)
  case (Suc k)
  have "quiet u (test_fn t u)" for u by (cases t) (simp_all add: quiet_inb)
  then show ?case using Suc.IH by (auto intro: quiet_trans)
qed simp

lemma measure_twice_durations:
  "length results = tries \<Longrightarrow> measure_twice clock t n results s
    = ((n + 4 * tries, durations clock (n + 2 * tries)), (test_fn t ^^ (2 * tries)) s)"
  by (simp add: measure_twice_def measure_loop_durations durations_def Let_def mult_2 funpow_add)

section \<open>The summary\<close>

lemma MIN_MAX: "MIN_of a b = min a b" "MAX_of a b = max a b"
  by (auto simp: MIN_of_def MAX_of_def min_def max_def)

lemma summary_loop_values:
  "summary_loop rs tot mn mx = (tot + sum_list (map ucast rs), Min (insert mn (set rs)), Max (insert mx (set rs)))"
proof (induction rs arbitrary: tot mn mx)
  case (Cons r rs)
  have "Min (insert (min mn r) (set rs)) = Min (insert mn (insert r (set rs)))"
    "Max (insert (max mx r) (set rs)) = Max (insert mx (insert r (set rs)))"
    by (cases rs; simp add: min.assoc max.assoc)+
  then show ?case using Cons.IH by (simp add: MIN_MAX add.assoc)
qed simp

lemma unat_sum: "length rs < 2 ^ 32 \<Longrightarrow> unat (sum_list (map ucast (rs :: u32 list)) :: u64) = sum_list (map unat rs)
    \<and> sum_list (map unat rs) \<le> length rs * 2 ^ 32"
proof (induction rs)
  case (Cons r rs)
  have r: "unat r < 2 ^ 32" by (rule unat32_bound)
  have IH: "unat (sum_list (map ucast rs) :: u64) = sum_list (map unat rs)" "sum_list (map unat rs) \<le> length rs * 2 ^ 32"
    using Cons by simp_all
  have le: "unat r + sum_list (map unat rs) \<le> 2 ^ 32 + length rs * 2 ^ 32"
    by (rule add_mono [OF less_imp_le [OF r] IH(2)])
  have small: "unat r + sum_list (map unat rs) < 2 ^ 64"
  proof -
    have "2 ^ 32 + length rs * 2 ^ 32 < 2 ^ 64" using Cons.prems by simp
    then show ?thesis using le by linarith
  qed
  then have "unat (ucast r + sum_list (map ucast rs) :: u64) = unat r + sum_list (map unat rs)"
    by (subst unat_word_ariths) (simp add: unat_wide IH(1))
  then show ?case using le by simp
qed simp

text \<open>The sum is exact, the minimum and the maximum are those of the measurements.\<close>

lemma summary_values:
  assumes "rs \<noteq> []" and "length rs < 2 ^ 32"
  obtains tot where "summary rs = (tot, Min (set rs), Max (set rs))" "unat tot = sum_list (map unat rs)"
proof -
  have ext: "min (- 1) x = x" "max 0 x = x" for x :: u32
    by (auto simp: min_def max_def word_order.extremum_unique)
  have "Min (insert (NOT 0) (set rs)) = Min (set rs)" "Max (insert 0 (set rs)) = Max (set rs)"
    using assms(1) ext by simp_all
  then show ?thesis
    using that unat_sum [OF assms(2)] by (simp add: summary_def summary_loop_values)
qed

section \<open>One test\<close>

text \<open>The measurements of the \<open>k\<close>-th run of a test that begins at the \<open>n\<close>-th reading of the counter.\<close>

definition run :: "(nat \<Rightarrow> u64) \<Rightarrow> nat \<Rightarrow> nat \<Rightarrow> u32 list" where
  "run clock n k = durations clock (n + 4 * tries * k + 2 * tries)"

definition unstable :: "float_unit \<Rightarrow> u32 list \<Rightarrow> bool" where
  "unstable fpu rs = exceeds fpu (fst (summary rs)) rs"

definition decimal :: "u32 \<Rightarrow> u32 list" where
  "decimal w = map char_arg (dec_digits (unat w))"

definition report :: "float_unit \<Rightarrow> perf_test \<Rightarrow> nat \<Rightarrow> u32 list \<Rightarrow> u32 list" where
  "report fpu t k rs = msg ''! PERF: '' @ msg (test_name t) @ msg '' '' @ decimal (mean_of fpu (fst (summary rs)))
     @ msg '' cycles (retries='' @ decimal (of_nat k + 1) @ msg '' stddev='' @ decimal (stddev_of fpu (fst (summary rs)) rs)
     @ msg '' min='' @ decimal (Min (set rs)) @ msg '' max='' @ decimal (Max (set rs)) @ msg '') ok\<newline>''"

lemma length_run [simp]: "length (run clock n k) = tries"
  by (simp add: run_def durations_def)

lemma run_Suc: "run clock (n + 4 * tries) k = run clock n (Suc k)"
  by (simp add: run_def algebra_simps)

lemma run_shift: "run clock (n + 4 * tries) = (\<lambda>k. run clock n (Suc k))"
  by (rule ext) (rule run_Suc)

lemma report_message:
  assumes "summary rs = (tot, mn, mx)" and "mn = Min (set rs)" and "mx = Max (set rs)"
  shows "expand (\<lambda>_. None) (directives ''! PERF: %s %u cycles (retries=%u stddev=%u min=%u max=%u) ok\<newline>'')
      [Va_lit (test_name t), Va_word (mean_of fpu tot), Va_word (of_nat k + 1), Va_word (stddev_of fpu tot rs), Va_word mn, Va_word mx]
    = Some (report fpu t k rs)"
  using assms by (simp add: is_conv_def va_uint_def report_def decimal_def zero_padded_def unat_wide) (simp add: msg_def)

text \<open>One run that is the last one, and one that is not.\<close>

lemma again_step:
  "measure_twice clock t n results s = ((n', rs), s') \<Longrightarrow> summary rs = (tot, mn, mx) \<Longrightarrow> again fpu clock t retries n results s =
    (if retries < 5 \<and> exceeds fpu tot rs
     then (case printf ''Retry test %s because of instability: stddev %u\<newline>'' [Va_lit (test_name t), Va_word (stddev_of fpu tot rs)] s' of
             None \<Rightarrow> None
           | Some r \<Rightarrow> (case r of Inl e \<Rightarrow> Some (Inl e) | Inr x \<Rightarrow> again fpu clock t (retries + 1) n' rs (snd x)))
     else andthen (printf ''! PERF: %s %u cycles (retries=%u stddev=%u min=%u max=%u) ok\<newline>''
            [Va_lit (test_name t), Va_word (mean_of fpu tot), Va_word (retries + 1),
             Va_word (stddev_of fpu tot rs), Va_word mn, Va_word mx]) (\<lambda>_. ret (n', rs)) s')"
  by (subst again.simps) (simp add: Let_def)

lemma again_ends:
  assumes "length results = tries" and "k \<le> 5" and "k = 5 \<or> \<not> unstable fpu (run clock n 0)"
  shows "\<exists>s1. quiet s s1 \<and> again fpu clock t (of_nat k) n results s
    = Some (Inr ((n + 4 * tries, run clock n 0), fold out_char (report fpu t k (run clock n 0)) s1))"
proof -
  let ?rs = "run clock n 0" and ?s = "(test_fn t ^^ (2 * tries)) s"
  have "?rs \<noteq> []" "length ?rs < 2 ^ 32" by (simp_all add: tries_def flip: length_0_conv)
  from summary_values [OF this] obtain tot where sum: "summary ?rs = (tot, Min (set ?rs), Max (set ?rs))" by blast
  have twice: "measure_twice clock t n results s = ((n + 4 * tries, ?rs), ?s)"
    using measure_twice_durations [OF assms(1)] by (simp add: run_def)
  have k: "(of_nat k :: u32) < 5 \<longleftrightarrow> k < 5" using assms(2) by (simp add: word_less_nat_alt unat_of_nat_small)
  have stop: "\<not> ((of_nat k :: u32) < 5 \<and> exceeds fpu tot ?rs)" using assms(3) k by (auto simp: unstable_def sum)
  from printf_text [OF no_strings report_message [OF sum refl refl]]
  have "again fpu clock t (of_nat k) n results s = Some (Inr ((n + 4 * tries, ?rs), fold out_char (report fpu t k ?rs) ?s))"
    unfolding again_step [OF twice sum] if_not_P [OF stop] by (simp add: andthen_Inr ret_def)
  then show ?thesis using quiet_test by blast
qed

lemma again_repeats:
  assumes "length results = tries" and "k < 5" and "unstable fpu (run clock n 0)"
  shows "\<exists>s1. quiet s s1 \<and> again fpu clock t (of_nat k) n results s
    = again fpu clock t (of_nat (Suc k)) (n + 4 * tries) (run clock n 0) s1"
proof -
  let ?rs = "run clock n 0" and ?s = "(test_fn t ^^ (2 * tries)) s"
  obtain tot mn mx where sum: "summary ?rs = (tot, mn, mx)" by (cases "summary ?rs")
  have twice: "measure_twice clock t n results s = ((n + 4 * tries, ?rs), ?s)"
    using measure_twice_durations [OF assms(1)] by (simp add: run_def)
  have go: "(of_nat k :: u32) < 5 \<and> exceeds fpu tot ?rs"
    using assms(2,3) sum by (simp add: word_less_nat_alt unat_of_nat_small unstable_def)
  have "expand (\<lambda>_. None) (directives ''Retry test %s because of instability: stddev %u\<newline>'')
      [Va_lit (test_name t), Va_word (stddev_of fpu tot ?rs)] \<noteq> None" by (simp add: is_conv_def va_uint_def)
  then obtain w where w: "printf ''Retry test %s because of instability: stddev %u\<newline>''
      [Va_lit (test_name t), Va_word (stddev_of fpu tot ?rs)] ?s = Some (Inr ((), fold out_char w ?s))"
    using printf_text [OF no_strings] by blast
  have "again fpu clock t (of_nat k) n results s
    = again fpu clock t (of_nat (Suc k)) (n + 4 * tries) ?rs (fold out_char w ?s)"
    unfolding again_step [OF twice sum] if_P [OF go] w by (simp add: add.commute)
  then show ?thesis using quiet_trans [OF quiet_test quiet_fold] by blast
qed

lemma again_measures:
  assumes "length results = tries" and "i \<le> 5"
  shows "\<exists>d s1. i + d \<le> 5 \<and> list_all (unstable fpu) (map (run clock n) [0..<d]) \<and> (i + d = 5 \<or> \<not> unstable fpu (run clock n d))
    \<and> quiet s s1 \<and> again fpu clock t (of_nat i) n results s
      = Some (Inr ((n + 4 * tries * Suc d, run clock n d), fold out_char (report fpu t (i + d) (run clock n d)) s1))"
  using assms
proof (induction "5 - i" arbitrary: i n results s)
  case 0
  then show ?case using again_ends [of results i fpu clock n s t] by (intro exI [of _ 0]) simp
next
  case (Suc x)
  show ?case
  proof (cases "unstable fpu (run clock n 0)")
    case False
    then show ?thesis using again_ends [of results i fpu clock n s t] Suc.prems by (intro exI [of _ 0]) simp
  next
    case True
    have "i < 5" using Suc.hyps(2) by simp
    from again_repeats [OF Suc.prems(1) this True, of s t] obtain s1 where s1: "quiet s s1" "again fpu clock t (of_nat i) n results s
        = again fpu clock t (of_nat (Suc i)) (n + 4 * tries) (run clock n 0) s1"
      by blast
    have next_i: "x = 5 - Suc i" "Suc i \<le> 5" using Suc.hyps(2) by simp_all
    from Suc.hyps(1) [OF next_i(1) length_run [of clock n 0] next_i(2), of "n + 4 * tries" s1]
    obtain d s2 where d: "Suc i + d \<le> 5" "list_all (unstable fpu) (map (run clock (n + 4 * tries)) [0..<d])"
      "Suc i + d = 5 \<or> \<not> unstable fpu (run clock (n + 4 * tries) d)" "quiet s1 s2"
      "again fpu clock t (of_nat (Suc i)) (n + 4 * tries) (run clock n 0) s1 = Some (Inr ((n + 4 * tries + 4 * tries * Suc d,
          run clock (n + 4 * tries) d), fold out_char (report fpu t (Suc i + d) (run clock (n + 4 * tries) d)) s2))"
      by (elim exE conjE)
    have "[0..<Suc d] = 0 # map Suc [0..<d]" by (simp add: upt_conv_Cons map_Suc_upt del: upt_Suc)
    then have "list_all (unstable fpu) (map (run clock n) [0..<Suc d])"
      using d(2) [unfolded run_shift] True by (simp add: comp_def del: upt_Suc)
    moreover have "n + 4 * tries + 4 * tries * Suc d = n + 4 * tries * Suc (Suc d)" by simp
    ultimately show ?thesis
      using d(1,3,5) s1(2) quiet_trans [OF s1(1) d(4)] unfolding run_Suc by (intro exI [of _ "Suc d"] exI [of _ s2]) simp
  qed
qed

lemma each_test_ends:
  "length results = tries \<Longrightarrow> \<exists>s'. each_test fpu clock ts n results s = Some (Inr ((), s')) \<and> quiet s s'"
proof (induction ts arbitrary: n results s)
  case (Cons t ts)
  obtain d s1 where s1: "quiet s s1" "again fpu clock t 0 n results s
      = Some (Inr ((n + 4 * tries * Suc d, run clock n d), fold out_char (report fpu t (0 + d) (run clock n d)) s1))"
    using again_measures [OF Cons.prems, of 0 fpu clock n s t] by auto
  obtain s2 where "each_test fpu clock ts (n + 4 * tries * Suc d) (run clock n d) (fold out_char (report fpu t (0 + d) (run clock n d)) s1)
      = Some (Inr ((), s2))" "quiet (fold out_char (report fpu t (0 + d) (run clock n d)) s1) s2"
    using Cons.IH [OF length_run] by blast
  then show ?case
    using s1 quiet_trans [OF s1(1) quiet_trans [OF quiet_fold]] by (auto simp: andthen_Inr)
qed (simp add: ret_def)

section \<open>Properties\<close>

text \<open>
  C38. One test: it is measured again only while the deviation is too large and at most five times. The
  last 2048 measurements are kept, each the difference of two consecutive readings of the time stamp counter, and the report gives the smallest and
  the largest of them. The retries it gives are the number of runs, one more than those repeated.
\<close>

theorem perf_test_reports:
  assumes "length results = tries"
  shows "\<exists>d s1. d \<le> 5 \<and> list_all (unstable fpu) (map (run clock n) [0..<d]) \<and> (d = 5 \<or> \<not> unstable fpu (run clock n d))
    \<and> quiet s s1 \<and> again fpu clock t 0 n results s
      = Some (Inr ((n + 4 * tries * (d + 1), run clock n d), fold out_char (report fpu t d (run clock n d)) s1))"
  using again_measures [OF assms, of 0 fpu clock n s t] by simp

definition steady :: float_unit where
  "steady = \<lparr>mean_of = (\<lambda>_. 7), stddev_of = (\<lambda>_ _. 0), exceeds = (\<lambda>_ _. False)\<rparr>"

lemma perf_test_reports_witness:
  "\<exists>s1. again steady (\<lambda>n. of_nat (7 * n)) T_portio 0 0 (replicate tries 0) still_machine
    = Some (Inr ((4 * tries, run (\<lambda>n. of_nat (7 * n)) 0 0), fold out_char (report steady T_portio 0 (run (\<lambda>n. of_nat (7 * n)) 0 0)) s1))"
proof -
  have never: "\<not> unstable steady rs" for rs by (simp add: unstable_def steady_def)
  obtain d s1 where d: "list_all (unstable steady) (map (run (\<lambda>n. of_nat (7 * n)) 0) [0..<d])"
    "again steady (\<lambda>n. of_nat (7 * n)) T_portio 0 0 (replicate tries 0) still_machine = Some (Inr ((0 + 4 * tries * (d + 1),
       run (\<lambda>n. of_nat (7 * n)) 0 d), fold out_char (report steady T_portio d (run (\<lambda>n. of_nat (7 * n)) 0 d)) s1))"
    using perf_test_reports [of "replicate tries 0" steady "\<lambda>n. of_nat (7 * n)" 0 still_machine T_portio] by auto
  have "d = 0" using d(1) never by (cases d) (auto simp: upt_conv_Cons simp del: upt_Suc)
  then show ?thesis using d(2) by auto
qed

text \<open>
  The program ends with status 0 whatever the time stamp counter and the floating-point unit say, and memory is as
  it was.
\<close>

theorem perf_main_ends: "\<exists>s'. perf_main fpu clock v file MBI_MAGIC s = Some (Inr (0, s')) \<and> ram s' = ram s"
proof -
  have same: "\<not> MBI_MAGIC \<noteq> MBI_MAGIC" by simp
  have "wp (perf_main fpu clock v file MBI_MAGIC) (\<lambda>x s'. x = 0 \<and> ram s' = ram s) s"
    unfolding perf_main_def wp_andthen [of "modifies _"] wp_modifies if_not_P [OF same]
  proof (intro wp_printf_then)
    fix s1 s2 assume q: "quiet (serial_init s) s1" "quiet s1 s2"
    obtain s3 where s3: "each_test fpu clock perf_tests 0 (replicate tries 0) s2 = Some (Inr ((), s3))" "quiet s2 s3"
      using each_test_ends [of "replicate tries 0" fpu clock perf_tests 0 s2] by auto
    have "quiet (serial_init s) s3" using q s3(2) quiet_trans by blast
    then have r: "ram s3 = ram s" by (simp add: quiet_def serial_init_result)
    have "wp (andthen (printf ''wvtest: done\<newline>'' []) (\<lambda>_. ret 0)) (\<lambda>x s'. x = 0 \<and> ram s' = ram s) s3"
      by (rule wp_printf_then) (simp add: is_conv_def, use r in \<open>simp add: quiet_def\<close>)
    then show "wp (andthen (each_test fpu clock perf_tests 0 (replicate tries 0)) (\<lambda>_. andthen (printf ''wvtest: done\<newline>'' []) (\<lambda>_. ret 0)))
        (\<lambda>x s'. x = 0 \<and> ram s' = ram s) s2"
      unfolding wp_andthen [of "each_test _ _ _ _ _"] wp_Inr [where m = "each_test fpu clock perf_tests 0 (replicate tries 0)", OF s3(1)] .
  qed (simp_all add: is_conv_def va_uint_def)
  then show ?thesis by (auto simp: wp_iff)
qed

end
