(* ===== verification/Spec2Isabelle.thy ===== *)
theory Spec2Isabelle
imports Qdivrem_Correct Console_Proof Startup_Proof Processor Amy_Proof Mbi2_Example_Proof Basicperf_Proof
begin

text \<open>
  Bender, a Multiboot chain loader for the bare i386 machine: a verification development of the C sources
  under src/standalone.

  \<^bold>\<open>The program.\<close> A boot loader starts \<^verbatim>\<open>bender\<close> with a Multiboot1 information and a list of modules. \<open>main\<close> (bender.c)
  reads options from its command line, searches the PCI bus (pci.c, pci_db.c) for a serial controller, writes its port
  into the BIOS data area, opens the serial line (serial.c) and calls \<open>start_module\<close> (elf.c). That moves the modules to
  the top of memory (mbi.c), takes the first one as the kernel, builds a Multiboot2 information for it if it has a
  Multiboot2 header (mbi2.c, with the root pointer that acpi.c finds), writes a small machine program to 0x7C00 that
  unpacks the ELF segments over everything and enters the kernel, and jumps there. Output goes through printf.c to the VGA
  text window and the serial line (util.c); 64-bit division is the library routine of qdivrem.c; strings and memory
  are handled by the routines strncpy.c, strtok.c, memcpy.c and so on. Three more programs are built from the same
  parts: \<^verbatim>\<open>amy\<close> (amy.c) writes to every serial port, \<^verbatim>\<open>mbi2_example\<close> (mbi2_example.c) is a Multiboot2 kernel that
  lists the tags it is given, \<^verbatim>\<open>basicperf\<close> (basicperf.c) measures a few instructions.

  \<^bold>\<open>The model.\<close> The machine is the record \<open>machine\<close> of Console: \<open>ram\<close>, a total function from 32-bit addresses to bytes (flat
  memory, pointers are addresses, arithmetic wraps); the VGA window and the cursor; the static variables of
  serial.c; the history of port accesses \<open>io\<close>; and the devices, functions from that history to the next answer, so that every
  deterministic device is one. A structure of the sources is read and written in \<open>ram\<close> at its offsets,
  little endian; local structures and the static variables of bender.c are records that are passed along. Integers have the width they have in C.
  A piece of code is a function \<open>'s \<Rightarrow> (fault + 'a \<times> 's) option\<close> (Bender_Prelude): \<open>Some (Inr (x, s'))\<close> returns, \<open>Some (Inl e)\<close> ends in a
  failed \<open>assert\<close> or the trap of a division by zero, \<open>None\<close> does not return (or has no defined behaviour, like a
  printf whose arguments do not fit). Every theorem that gives a result gives it as \<open>Some (Inr \<dots>)\<close>, so termination is part
  of it. The endless loop at the end of \<open>reboot\<close> is not \<open>None\<close> but a result, \<open>Spinning\<close> with the machine as it stays, so that all that has been done before it
  is in the history of port accesses. What the models of the components cut short as \<open>Inl\<close>, the macro \<open>assert\<close> prints and passes to \<open>__exit\<close>: \<open>assert_ends\<close> and
  \<open>assert_macro_refines\<close> in Platform_Proof.

  \<^bold>\<open>The theories.\<close> A theory of definitions is followed by theories of proofs about them.
  \<^item> Bender_Prelude: integer types, computations, their weakest preconditions \<open>wp\<close>, word lemmas. Machine_Memory: memory, little-endian
    fields, regions, and memcpy.c, memset.c, memcmp.c, strlen.c with lemmas on what a write leaves alone.
  \<^item> Qdivrem, Qdivrem_Proof, Qdivrem_Correct: qdivrem.c, Knuth's algorithm D on 16-bit digits, one definition per step of the code
    (\<open>trial_digit\<close>, \<open>mul_sub\<close>, \<open>add_back\<close>, \<open>divide_step\<close> \<dots>); the invariant of the digit loop and the equality with \<open>div\<close> and \<open>mod\<close>.
  \<^item> Libc_String, Libc_String_Proof: strncmp.c, strncpy.c, strtok.c, strtoull.c against lists of bytes, words and numbers.
  \<^item> Console, Console_Proof: asm.h, serial.c, \<open>out_char\<close> and \<open>out_string\<close>; scrolling, and the bounded polling of the line.
    \<open>quiet\<close> is the frame of all output: memory, base port and devices stay, the line is never switched on.
  \<^item> Printf, Printf_Proof: printf.c, its state machine against a parsed format that is expanded to a text. The locale
    \<open>udiv64\<close> is the contract of the two divisions, interpreted on qdivrem.c; \<open>kept_by_output\<close> says that what every \<open>out_char\<close> keeps, printf keeps.
  \<^item> Pci, Pci_Proof: pci.c and pci_db.c. The locale \<open>config_space\<close> is the contract of the configuration ports; under it the iterator
    visits exactly the functions that answer.
  \<^item> Acpi: acpi.c, the search for the root pointer, with its proofs.
  \<^item> Mbi, Mbi_Find, Mbi_Relocate: mbi.c and mbi.h: the memory search, the relocation of the modules, \<open>mbi_pop_module\<close>.
  \<^item> Mbi2, Mbi2_Proof: mbi2.c and the accessors of mbi2.h. \<open>built\<close> is the invariant of a builder; the locale \<open>adds_tag\<close> is the
    contract of the four operations that append a tag, each an interpretation; \<open>reads_tags\<close> is what a reader sees.
  \<^item> Elf, Elf_Proof, Convert_Proof, Start_Proof, Boot_Proof: elf.c. The generated bytes are decoded and run by an interpreter of the few
    instructions they use (mov, rep movsb, rep stosb, jmp), which is the specification of what the loader does. Boot_Proof
    composes all steps of \<open>start_module\<close>: \<open>boot_layout\<close> describes the memory before the call, \<open>arranged\<close> the one in which the kernel is loaded.
  \<^item> Bender, Bender_Proof: bender.c. Platform, Platform_Proof: the timer and \<open>__exit\<close> of util.h and util.c, reboot.c, \<open>assert\<close>. \<open>pulsed\<close> is
    the history of a reset, access by access, and \<open>exits\<close> all that \<open>__exit\<close> does.
  \<^item> Boot_Chain_Proof: main and \<open>start_module\<close> together. \<open>buffer_apart\<close> says what the command line buffer must not touch; \<open>layout_kept\<close> and \<open>sources_same\<close> carry
    the description of the boot loader's memory over the steps of main.
  \<^item> Startup, Startup_Proof: start.S, the Multiboot header and the way from the boot loader to main and from main to \<open>__exit\<close>.
  \<^item> Processor: the helpers of asm.h and cpuid.h that nothing calls (byte swap, control and segment registers, APIC).
  \<^item> Amy, Amy_Proof; Mbi2_Example, Mbi2_Example_Proof; Basicperf, Basicperf_Proof: the other three programs. \<open>writes\<close> of Amy_Proof are the
    bytes that a history has put out on ports; the search of the bus puts out none (\<open>silent\<close>).

  \<^bold>\<open>What is shown.\<close> Bender as a whole: \<open>main_boots_mbi1\<close> and \<open>main_boots_mbi2\<close> go from the memory of the boot loader to
  the entry of the kernel, \<open>bender_resets\<close> is the reset of the machine when there is nothing to boot, and \<open>bender_ends\<close> says that main can end in no third way. What
  the kernel is told is described in memory at the jump to the generated code, which writes only where the segments are loaded to: what lies elsewhere is still there at the
  entry (\<open>enters_keeps\<close>). They put together \<open>main_prepares\<close>, \<open>find_controller_patches\<close> and \<open>parse_cmdline_options\<close>, which lead to \<open>start_module\<close>, for which
  \<open>boot_first_module_mbi1\<close> and \<open>boot_first_module_mbi2\<close> show, from the memory before the call, that the first module is moved, loaded and
  entered as a kernel with an information that reads as it should and lists the other modules where they now are (\<open>start_module_boots_mbi1\<close> and \<open>start_module_boots_mbi2\<close> are
  the last steps alone, whether modules have been moved or not), on top of the relocation (\<open>mbi_relocate_modules_moves\<close>), the conversion (\<open>convert_mb1_to_mbi2_tags\<close>) and the generated code
  (\<open>generate_loader_loads\<close>). \<open>example_lists_converted\<close> puts bender's conversion and the example kernel together. The components
  have functional specifications, frames, bounds (\<open>serial_send_bounded\<close>, \<open>perf_test_reports\<close>), round trips (tags, entries, decimal numbers),
  equality with a reference (\<open>qdivrem_correct\<close>, \<open>printf_refines_text\<close>), error behaviour (out of space, bad ELF files, modules in the way),
  an invariant of the console (\<open>printf_keeps_console\<close>)
  and ends of loops that depend on devices (\<open>wait_ends\<close>, \<open>reset_pulses\<close>, \<open>pci_iteration_complete\<close>).

  \<^bold>\<open>Bounds and fuel.\<close> Loops that count are structural recursions on what is left of the count: 65536 polls of the line and of the
  keyboard controller (65537 reads), 10 pulses, 300 dots (those under the hypothesis \<open>timer_runs\<close>, without which no wait ends), 6 base address registers, 4 ports, 2048 measurements; the number is the code's own, none is
  a fuel of the model. Loops over memory are \<open>partial_function (option)\<close>, where not ending is \<open>None\<close>. The division routines
  get the content of the uninitialised stack (\<open>junk\<close>) as an argument; their results do not depend on it, so printf calls them with zero.

  \<^bold>\<open>Parameters.\<close> The version string and \<open>__FILE__\<close> (the build makes them), the address of the local buffer in
  \<open>parse_cmdline\<close>, the answers of the ports, the time stamp counter. In basicperf.c the mean and the standard deviation
  are computed in floating point by the x87 unit; they are a parameter, a record of functions on the integer results, and the theorems hold for all of
  them.

  \<^bold>\<open>Not modelled.\<close> The linker script and the stack that start.S sets up: an overflow of the stack is not seen, and neither are stack and
  code of the program as parts of \<open>ram\<close>: that the regions a call
  works on lie apart from them and from each other is a hypothesis where it matters (\<open>apart\<close>, \<open>source\<close>, \<open>convertible\<close>, \<open>buffer_apart\<close>). Timing, caches and interrupts; \<open>memory_barrier\<close>
  of asm.h, which restrains the compiler and is no instruction. The text that a
  failing assertion prints in the middle of a component (the message is kept in the fault). A \<open>wait\<close> so long that \<open>ms * 1193\<close>
  overflows an \<open>int\<close> has no meaning in C and no result here; the callers wait for 1 and 1000 milliseconds. What is left of the sources beyond that is licence texts, comments, prototypes, type names and constants that no
  code uses.
\<close>

end
